(* ===== verification/Prelude.thy ===== *)
theory Prelude
  imports Main "HOL-Library.Word" "HOL-Library.Multiset" "HOL-Library.Monad_Syntax"
begin

text \<open>
  Shared vocabulary of the development: the machine types of the 32-bit x86 kernel that the
  repository configures (\<^verbatim>\<open>CONFIG_X86_32\<close>), the collections of rewrite rules the component
  theories add to, and the facts on lists, options and words that several components use.

  A kernel function that can stop the machine (a \<^verbatim>\<open>BUG_ON\<close> that fires, a NULL pointer that is
  followed) has a result in \<open>'a option\<close>, where \<open>None\<close> is that stop.
\<close>

unbundle bit_operations_syntax

section \<open>Machine types\<close>

type_synonym sector_t = "64 word"
type_synonym u32 = "32 word"

section \<open>Rule collections\<close>

named_theorems list_mem_simps
  \<open>unfolding of the pointer-level list operations\<close>
named_theorems rq_simps
  \<open>accessors of requests, bios and queues\<close>
named_theorems elv_frame
  \<open>fields an elevator operation leaves alone\<close>
named_theorems slob_simps
  \<open>unfolding of the unit-level block operations\<close>

section \<open>Lists\<close>

lemma mset_removeAll_distinct:
  "distinct xs \<Longrightarrow> mset (removeAll x xs) = mset xs - {#x#}"
  by (induction xs) auto

lemma removeAll_middle:
  "distinct (us @ x # vs) \<Longrightarrow> removeAll x (us @ x # vs) = us @ vs"
  by (simp add: removeAll_id)

lemma length_removeAll_distinct:
  "distinct xs \<Longrightarrow> x \<in> set xs \<Longrightarrow> length (removeAll x xs) = length xs - 1"
  by (metis distinct_remove1_removeAll length_remove1)

lemma takeWhile_dropWhile_rev_mset:
  "mset (rev (dropWhile P (rev xs)) @ x # rev (takeWhile P (rev xs))) = add_mset x (mset xs)"
proof -
  have "mset (rev xs) = mset (takeWhile P (rev xs)) + mset (dropWhile P (rev xs))"
    by (metis mset_append takeWhile_dropWhile_id)
  then show ?thesis by simp
qed

lemma rev_takeWhile_split:
  "xs = rev (dropWhile P (rev xs)) @ rev (takeWhile P (rev xs))"
  by (metis rev_append rev_rev_ident takeWhile_dropWhile_id)

lemma take_drop_while_block:
  assumes "\<And>x. x \<in> set xs \<Longrightarrow> P x \<longleftrightarrow> Q x" "ys = [] \<or> \<not> P (last ys)"
  shows "takeWhile P (rev xs @ rev ys) = takeWhile Q (rev xs) \<and>
         dropWhile P (rev xs @ rev ys) = dropWhile Q (rev xs) @ rev ys"
proof -
  have "takeWhile P (zs @ rev ys) = takeWhile Q zs \<and> dropWhile P (zs @ rev ys) = dropWhile Q zs @ rev ys"
    if "\<And>x. x \<in> set zs \<Longrightarrow> P x \<longleftrightarrow> Q x" for zs
    using that
  proof (induction zs)
    case Nil
    then show ?case using assms(2) by (cases ys rule: rev_cases) simp_all
  qed simp
  from this [of "rev xs"] show ?thesis using assms(1) by simp
qed

lemma sorted_split_at:
  fixes f :: "'a \<Rightarrow> 'b::linorder"
  assumes "sorted_wrt (\<lambda>a b. f a \<le> f b) xs"
  shows "\<forall>x \<in> set (dropWhile (\<lambda>x. k < f x) (rev xs)). f x \<le> k"
proof
  fix x assume x: "x \<in> set (dropWhile (\<lambda>x. k < f x) (rev xs))"
  let ?d = "dropWhile (\<lambda>x. k < f x) (rev xs)"
  have ne: "?d \<noteq> []" using x by (metis emptyE set_empty)
  have "sorted_wrt (\<lambda>a b. f b \<le> f a) (rev xs)" using assms by (simp add: sorted_wrt_rev)
  then have "sorted_wrt (\<lambda>a b. f b \<le> f a) ?d"
    by (metis sorted_wrt_append takeWhile_dropWhile_id)
  then have "f x \<le> f (hd ?d)" using x ne by (cases ?d) auto
  moreover have "f (hd ?d) \<le> k" using hd_dropWhile [OF ne] by simp
  ultimately show "f x \<le> k" by (rule order_trans)
qed

section \<open>Words\<close>

lemma of_nat_word_diff_Suc:
  "0 < n \<Longrightarrow> (of_nat n :: 'a::len word) - 1 = of_nat (n - 1)"
  by (simp add: of_nat_diff)

lemma and_not_mask: "(w :: 'a::len word) AND NOT (mask k) = w - take_bit k w"
proof -
  have "w AND NOT (mask k) = push_bit k (drop_bit k w)"
    by (rule bit_word_eqI) (auto simp: bit_simps)
  also have "\<dots> = w - take_bit k w" using bits_ident [of k w] by (simp add: algebra_simps)
  finally show ?thesis .
qed

lemma unat_word_of_nat_32:
  assumes "n < 2 ^ 32"
  shows "unat (word_of_nat n :: u32) = n"
proof -
  have "take_bit LENGTH(32) n = n" by (rule take_bit_nat_eq_self) (use assms in simp)
  then show ?thesis by (simp only: unsigned_of_nat of_nat_id)
qed

end
