(* ===== verification/KList.thy ===== *)
theory KList
  imports Prelude
begin

text \<open>
  The intrusive lists of \<^verbatim>\<open>include/linux/list.h\<close>, at the level of pointers. A
  \<^verbatim>\<open>struct list_head\<close> is an address, and the memory gives the \<^verbatim>\<open>next\<close> and \<^verbatim>\<open>prev\<close> field of
  every address; each operation is the sequence of stores of the C function, in its order.

  The relation \<open>dll m h xs\<close> says that the circular list with head \<open>h\<close> holds exactly the nodes
  \<open>xs\<close>. The theorems show that every operation has the effect its comment promises on
  \<open>xs\<close> and leaves every disjoint list alone. The component theories work with the
  \<open>xs\<close> that this relation gives.
\<close>

section \<open>Memory\<close>

record list_mem =
  next_of :: "nat \<Rightarrow> nat"
  prev_of :: "nat \<Rightarrow> nat"

definition set_next :: "nat \<Rightarrow> nat \<Rightarrow> list_mem \<Rightarrow> list_mem" where
  [list_mem_simps]: "set_next p v m = m\<lparr>next_of := (next_of m)(p := v)\<rparr>"

definition set_prev :: "nat \<Rightarrow> nat \<Rightarrow> list_mem \<Rightarrow> list_mem" where
  [list_mem_simps]: "set_prev p v m = m\<lparr>prev_of := (prev_of m)(p := v)\<rparr>"

definition LIST_POISON1 :: nat where "LIST_POISON1 = 0x00100100"

definition LIST_POISON2 :: nat where "LIST_POISON2 = 0x00200200"

section \<open>Operations\<close>

definition INIT_LIST_HEAD :: "nat \<Rightarrow> list_mem \<Rightarrow> list_mem" where
  "INIT_LIST_HEAD l m =
     (let m = set_next l l m;
          m = set_prev l l m
      in m)"

text \<open>\<^verbatim>\<open>__list_add\<close>\<close>

definition list_add_between :: "nat \<Rightarrow> nat \<Rightarrow> nat \<Rightarrow> list_mem \<Rightarrow> list_mem" where
  "list_add_between new prev nxt m =
     (let m = set_prev nxt new m;
          m = set_next new nxt m;
          m = set_prev new prev m;
          m = set_next prev new m
      in m)"

definition list_add :: "nat \<Rightarrow> nat \<Rightarrow> list_mem \<Rightarrow> list_mem" where
  "list_add new head m = list_add_between new head (next_of m head) m"

definition list_add_tail :: "nat \<Rightarrow> nat \<Rightarrow> list_mem \<Rightarrow> list_mem" where
  "list_add_tail new head m = list_add_between new (prev_of m head) head m"

text \<open>\<^verbatim>\<open>__list_del\<close>\<close>

definition list_del_between :: "nat \<Rightarrow> nat \<Rightarrow> list_mem \<Rightarrow> list_mem" where
  "list_del_between prev nxt m =
     (let m = set_prev nxt prev m;
          m = set_next prev nxt m
      in m)"

definition list_del :: "nat \<Rightarrow> list_mem \<Rightarrow> list_mem" where
  "list_del entry m =
     (let m = list_del_between (prev_of m entry) (next_of m entry) m;
          m = set_next entry LIST_POISON1 m;
          m = set_prev entry LIST_POISON2 m
      in m)"

definition list_replace :: "nat \<Rightarrow> nat \<Rightarrow> list_mem \<Rightarrow> list_mem" where
  "list_replace old new m =
     (let m = set_next new (next_of m old) m;
          m = set_prev (next_of m new) new m;
          m = set_prev new (prev_of m old) m;
          m = set_next (prev_of m new) new m
      in m)"

definition list_replace_init :: "nat \<Rightarrow> nat \<Rightarrow> list_mem \<Rightarrow> list_mem" where
  "list_replace_init old new m = INIT_LIST_HEAD old (list_replace old new m)"

definition list_del_init :: "nat \<Rightarrow> list_mem \<Rightarrow> list_mem" where
  "list_del_init entry m =
     INIT_LIST_HEAD entry (list_del_between (prev_of m entry) (next_of m entry) m)"

definition list_move :: "nat \<Rightarrow> nat \<Rightarrow> list_mem \<Rightarrow> list_mem" where
  "list_move l head m =
     list_add l head (list_del_between (prev_of m l) (next_of m l) m)"

definition list_move_tail :: "nat \<Rightarrow> nat \<Rightarrow> list_mem \<Rightarrow> list_mem" where
  "list_move_tail l head m =
     list_add_tail l head (list_del_between (prev_of m l) (next_of m l) m)"

definition list_is_last :: "nat \<Rightarrow> nat \<Rightarrow> list_mem \<Rightarrow> bool" where
  "list_is_last l head m \<longleftrightarrow> next_of m l = head"

definition list_empty :: "nat \<Rightarrow> list_mem \<Rightarrow> bool" where
  "list_empty head m \<longleftrightarrow> next_of m head = head"

definition list_empty_careful :: "nat \<Rightarrow> list_mem \<Rightarrow> bool" where
  "list_empty_careful head m \<longleftrightarrow>
     (let nxt = next_of m head in nxt = head \<and> nxt = prev_of m head)"

definition list_rotate_left :: "nat \<Rightarrow> list_mem \<Rightarrow> list_mem" where
  "list_rotate_left head m =
     (if \<not> list_empty head m then list_move_tail (next_of m head) head m else m)"

definition list_is_singular :: "nat \<Rightarrow> list_mem \<Rightarrow> bool" where
  "list_is_singular head m \<longleftrightarrow> \<not> list_empty head m \<and> next_of m head = prev_of m head"

text \<open>\<^verbatim>\<open>__list_cut_position\<close>\<close>

definition list_cut_at :: "nat \<Rightarrow> nat \<Rightarrow> nat \<Rightarrow> list_mem \<Rightarrow> list_mem" where
  "list_cut_at l head entry m =
     (let new_first = next_of m entry;
          m = set_next l (next_of m head) m;
          m = set_prev (next_of m l) l m;
          m = set_prev l entry m;
          m = set_next entry l m;
          m = set_next head new_first m;
          m = set_prev new_first head m
      in m)"

definition list_cut_position :: "nat \<Rightarrow> nat \<Rightarrow> nat \<Rightarrow> list_mem \<Rightarrow> list_mem" where
  "list_cut_position l head entry m =
     (if list_empty head m then m
      else if list_is_singular head m \<and> next_of m head \<noteq> entry \<and> head \<noteq> entry then m
      else if entry = head then INIT_LIST_HEAD l m
      else list_cut_at l head entry m)"

text \<open>\<^verbatim>\<open>__list_splice\<close>\<close>

definition list_splice_between :: "nat \<Rightarrow> nat \<Rightarrow> nat \<Rightarrow> list_mem \<Rightarrow> list_mem" where
  "list_splice_between l prev nxt m =
     (let first = next_of m l;
          last = prev_of m l;
          m = set_prev first prev m;
          m = set_next prev first m;
          m = set_next last nxt m;
          m = set_prev nxt last m
      in m)"

definition list_splice :: "nat \<Rightarrow> nat \<Rightarrow> list_mem \<Rightarrow> list_mem" where
  "list_splice l head m =
     (if \<not> list_empty l m then list_splice_between l head (next_of m head) m else m)"

definition list_splice_tail :: "nat \<Rightarrow> nat \<Rightarrow> list_mem \<Rightarrow> list_mem" where
  "list_splice_tail l head m =
     (if \<not> list_empty l m then list_splice_between l (prev_of m head) head m else m)"

definition list_splice_init :: "nat \<Rightarrow> nat \<Rightarrow> list_mem \<Rightarrow> list_mem" where
  "list_splice_init l head m =
     (if \<not> list_empty l m
      then INIT_LIST_HEAD l (list_splice_between l head (next_of m head) m) else m)"

definition list_splice_tail_init :: "nat \<Rightarrow> nat \<Rightarrow> list_mem \<Rightarrow> list_mem" where
  "list_splice_tail_init l head m =
     (if \<not> list_empty l m
      then INIT_LIST_HEAD l (list_splice_between l (prev_of m head) head m) else m)"

text \<open>
  The loop of \<^verbatim>\<open>list_for_each\<close> and \<^verbatim>\<open>list_for_each_prev\<close>, as the nodes the cursor visits
  before it comes back to the head; \<open>None\<close> when it never does.
\<close>

partial_function (option) list_walk :: "(nat \<Rightarrow> nat) \<Rightarrow> nat \<Rightarrow> nat \<Rightarrow> nat list option" where
  "list_walk succ head pos =
     (if pos = head then Some []
      else Option.bind (list_walk succ head (succ pos)) (\<lambda>ps. Some (pos # ps)))"

definition list_for_each :: "nat \<Rightarrow> list_mem \<Rightarrow> nat list option" where
  "list_for_each head m = list_walk (next_of m) head (next_of m head)"

definition list_for_each_prev :: "nat \<Rightarrow> list_mem \<Rightarrow> nat list option" where
  "list_for_each_prev head m = list_walk (prev_of m) head (prev_of m head)"

lemmas [list_mem_simps] =
  INIT_LIST_HEAD_def list_add_between_def list_del_between_def Let_def

section \<open>The list a memory holds\<close>

fun links :: "list_mem \<Rightarrow> nat list \<Rightarrow> bool" where
  "links m (a # b # ys) \<longleftrightarrow> next_of m a = b \<and> prev_of m b = a \<and> links m (b # ys)"
| "links m _ \<longleftrightarrow> True"

definition dll :: "list_mem \<Rightarrow> nat \<Rightarrow> nat list \<Rightarrow> bool" where
  "dll m h xs \<longleftrightarrow> distinct (h # xs) \<and> links m (h # xs @ [h])"

subsection \<open>Chains of links\<close>

lemma links_append:
  "links m (xs @ a # ys) \<longleftrightarrow> links m (xs @ [a]) \<and> links m (a # ys)"
  by (induction xs rule: links.induct [of _ m]) (cases ys; auto)+

lemma links_cong:
  "\<lbrakk>\<And>p. p \<in> set (butlast ys) \<Longrightarrow> next_of m' p = next_of m p;
    \<And>p. p \<in> set (tl ys) \<Longrightarrow> prev_of m' p = prev_of m p\<rbrakk> \<Longrightarrow> links m' ys = links m ys"
  by (induction m ys rule: links.induct) auto

lemma links_two: "links m (xs @ a # b # ys) \<longleftrightarrow>
    links m (xs @ [a]) \<and> next_of m a = b \<and> prev_of m b = a \<and> links m (b # ys)"
  by (subst links_append) simp

lemma links_set_next: "p \<notin> set (butlast ys) \<Longrightarrow> links (set_next p v m) ys = links m ys"
  by (rule links_cong) (auto simp: list_mem_simps)

lemma links_set_prev: "p \<notin> set (tl ys) \<Longrightarrow> links (set_prev p v m) ys = links m ys"
  by (rule links_cong) (auto simp: list_mem_simps)

lemma notin_butlast: "x \<notin> set xs \<Longrightarrow> x \<notin> set (butlast xs)"
  by (metis in_set_butlastD)

lemma notin_tl: "x \<notin> set xs \<Longrightarrow> x \<notin> set (tl xs)"
  by (cases xs) auto

lemma last_notin_butlast: "distinct (us @ [p]) \<Longrightarrow> p \<notin> set (butlast (us @ [p]))"
  by simp

lemma hd_notin_tl: "distinct (n # vs) \<Longrightarrow> n \<notin> set (tl (n # vs))"
  by simp

lemmas links_frame =
  links_set_next links_set_prev notin_butlast notin_tl last_notin_butlast hd_notin_tl

text \<open>A circular list read from any of its seams: the node before and the node after.\<close>

lemma dll_seam:
  assumes "us @ [p] = h # as" and "n # vs = bs @ [h]"
  shows "dll m h (as @ bs) \<longleftrightarrow> distinct (h # as @ bs) \<and>
    links m (us @ [p]) \<and> next_of m p = n \<and> prev_of m n = p \<and> links m (n # vs)"
proof -
  have "h # (as @ bs) @ [h] = us @ p # n # vs"
    using assms by (metis append.assoc append_Cons append_Nil)
  then show ?thesis by (simp add: dll_def links_two)
qed

lemma dll_cong:
  assumes "\<And>p. p \<in> set (h # xs) \<Longrightarrow> next_of m' p = next_of m p \<and> prev_of m' p = prev_of m p"
  shows "dll m' h xs = dll m h xs"
  unfolding dll_def using assms
  by (intro conj_cong refl links_cong) (auto simp: butlast_append)

lemma dll_distinct: "dll m h xs \<Longrightarrow> distinct xs \<and> h \<notin> set xs"
  by (simp add: dll_def)

lemma dll_ends:
  "dll m h xs \<Longrightarrow> next_of m h = hd (xs @ [h]) \<and> prev_of m h = last (h # xs)"
proof -
  assume d: "dll m h xs"
  from d have "next_of m h = hd (xs @ [h])" by (cases xs) (auto simp: dll_def)
  moreover have "prev_of m h = last (h # xs)"
    using d dll_seam [of "butlast (h # xs)" "last (h # xs)" h xs h "[]" "[]" m] by simp
  ultimately show ?thesis ..
qed

lemma dll_neighbours:
  assumes "dll m h (as @ x # bs)"
  shows "prev_of m x = last (h # as) \<and> next_of m x = hd (bs @ [h])"
proof -
  have "links m (butlast (h # as) @ last (h # as) # x # bs @ [h])"
    using assms unfolding dll_def
    by (metis (no_types, lifting) append.assoc append_Cons append_Nil append_butlast_last_id list.distinct(1))
  then show ?thesis by (cases bs) (auto simp: links_two)
qed

subsection \<open>Insertion and removal at a seam\<close>

lemma seam_disjoint:
  assumes us: "us @ [p] = h # as" and vs: "n # vs = bs @ [h]" and d: "distinct (h # as @ bs)"
  shows "distinct (us @ [p])" and "distinct (n # vs)"
    and "n \<notin> set (tl (us @ [p]))" and "p \<notin> set (butlast (n # vs))"
proof -
  have "n \<in> set bs \<union> {h}" using vs by (metis Un_insert_right list.set_intros(1) list.simps(15) set_append empty_set)
  moreover have "p \<in> set (h # as)" using us by (metis in_set_conv_decomp)
  ultimately show "distinct (us @ [p])" "distinct (n # vs)"
    "n \<notin> set (tl (us @ [p]))" "p \<notin> set (butlast (n # vs))"
    using d unfolding us vs by (auto simp: butlast_append)
qed

lemma dll_add_between:
  assumes d: "dll m h (as @ bs)" and x: "x \<notin> set (h # as @ bs)"
    and p: "p = last (h # as)" and n: "n = hd (bs @ [h])"
  shows "dll (list_add_between x p n m) h (as @ x # bs)"
proof -
  define us vs where "us = butlast (h # as)" and "vs = tl (bs @ [h])"
  have us: "us @ [p] = h # as" and vs: "n # vs = bs @ [h]"
    using p n by (simp_all add: us_def vs_def del: butlast.simps last.simps)
  have fresh: "x \<notin> set (us @ [p])" "x \<notin> set (n # vs)" using x unfolding us vs by auto
  have d0: "distinct (h # as @ bs)" using d by (simp add: dll_def)
  note dist = seam_disjoint [OF us vs d0] fresh
  let ?m = "list_add_between x p n m"
  have "links ?m (us @ [p])" "links ?m (n # vs)"
    using d dist unfolding dll_seam [OF us vs] list_add_between_def list_del_between_def Let_def
    by (simp_all only: links_frame conj_ac simp_thms)
  moreover have "next_of ?m p = x" "prev_of ?m n = x" "next_of ?m x = n" "prev_of ?m x = p"
    using dist by (auto simp: list_mem_simps)
  ultimately have "links ?m (us @ p # x # n # vs)" by (simp add: links_two)
  moreover have "us @ p # x # n # vs = h # (as @ x # bs) @ [h]"
    using us vs by (metis append.assoc append_Cons append_Nil)
  moreover have "distinct (h # as @ x # bs)" using d x by (auto simp: dll_def)
  ultimately show ?thesis by (simp add: dll_def)
qed

lemma dll_del_between:
  assumes d: "dll m h (as @ x # bs)"
  shows "dll (list_del_between (prev_of m x) (next_of m x) m) h (as @ bs)"
proof -
  define p n where "p = last (h # as)" and "n = hd (bs @ [h])"
  define us vs where "us = butlast (h # as)" and "vs = tl (bs @ [h])"
  have us: "us @ [p] = h # as" and vs: "n # vs = bs @ [h]"
    by (simp_all add: us_def vs_def p_def n_def del: butlast.simps last.simps)
  have d0: "distinct (h # as @ bs)" using d by (simp add: dll_def)
  note dist = seam_disjoint [OF us vs d0]
  have l: "links m (us @ [p])" "links m (n # vs)"
  proof -
    have "h # (as @ x # bs) @ [h] = us @ p # x # n # vs"
      using us vs by (metis append.assoc append_Cons append_Nil)
    then show "links m (us @ [p])" "links m (n # vs)"
      using d by (simp_all add: dll_def links_two)
  qed
  let ?m = "list_del_between p n m"
  have "links ?m (us @ [p])" "links ?m (n # vs)"
    using l dist
    unfolding list_add_between_def list_del_between_def Let_def
    by (simp_all only: links_frame conj_ac simp_thms)
  moreover have "next_of ?m p = n" "prev_of ?m n = p" by (auto simp: list_mem_simps)
  ultimately have "dll ?m h (as @ bs)"
    unfolding dll_seam [OF us vs] using d0 by blast
  then show ?thesis using dll_neighbours [OF d] by (simp add: p_def n_def)
qed

subsection \<open>The public operations\<close>

lemma dll_INIT_LIST_HEAD: "dll (INIT_LIST_HEAD h m) h []"
  by (simp add: dll_def list_mem_simps)

lemma dll_INIT_other: "x \<notin> set (h # xs) \<Longrightarrow> dll (INIT_LIST_HEAD x m) h xs = dll m h xs"
  by (rule dll_cong) (auto simp: list_mem_simps)

lemma dll_list_add:
  "dll m h xs \<Longrightarrow> x \<notin> set (h # xs) \<Longrightarrow> dll (list_add x h m) h (x # xs)"
  using dll_add_between [of m h "[]" xs x h "next_of m h"] dll_ends [of m h xs]
  by (simp add: list_add_def)

text \<open>Given a node instead of the head, the new entry goes behind that node.\<close>

lemma dll_list_add_behind:
  assumes d: "dll m h (as @ e # bs)" and x: "x \<notin> set (h # as @ e # bs)"
  shows "dll (list_add x e m) h (as @ e # x # bs)"
proof -
  have "next_of m e = hd (bs @ [h])" using dll_neighbours [OF d] ..
  then show ?thesis
    using dll_add_between [of m h "as @ [e]" bs x e "next_of m e"] d x
    by (simp add: list_add_def)
qed

lemma dll_list_add_tail:
  "dll m h xs \<Longrightarrow> x \<notin> set (h # xs) \<Longrightarrow> dll (list_add_tail x h m) h (xs @ [x])"
  using dll_add_between [of m h xs "[]" x "prev_of m h" h] dll_ends [of m h xs]
  by (simp add: list_add_tail_def)

lemma dll_list_add_tail_before:
  assumes d: "dll m h (as @ e # bs)" and x: "x \<notin> set (h # as @ e # bs)"
  shows "dll (list_add_tail x e m) h (as @ x # e # bs)"
proof -
  have "prev_of m e = last (h # as)" using dll_neighbours [OF d] ..
  then show ?thesis
    using dll_add_between [of m h as "e # bs" x "prev_of m e" e] d x
    by (simp add: list_add_tail_def)
qed

lemma dll_list_del_init:
  assumes d: "dll m h (as @ x # bs)"
  shows "dll (list_del_init x m) h (as @ bs)" and "dll (list_del_init x m) x []"
proof -
  have "x \<notin> set (h # as @ bs)" using d by (auto simp: dll_def)
  then show "dll (list_del_init x m) h (as @ bs)"
    unfolding list_del_init_def using dll_del_between [OF d] dll_INIT_other by simp
  show "dll (list_del_init x m) x []"
    unfolding list_del_init_def by (rule dll_INIT_LIST_HEAD)
qed

lemma dll_list_del:
  assumes d: "dll m h (as @ x # bs)"
  shows "dll (list_del x m) h (as @ bs)"
proof -
  let ?m = "list_del_between (prev_of m x) (next_of m x) m"
  have "x \<notin> set (h # as @ bs)" using d by (auto simp: dll_def)
  then have "dll (list_del x m) h (as @ bs) = dll ?m h (as @ bs)"
    unfolding list_del_def Let_def by (intro dll_cong) (auto simp: set_next_def set_prev_def)
  then show ?thesis using dll_del_between [OF d] by simp
qed

lemma dll_list_empty: "dll m h xs \<Longrightarrow> list_empty h m \<longleftrightarrow> xs = []"
  by (cases xs) (auto simp: dll_def list_empty_def)

lemma dll_list_empty_careful: "dll m h xs \<Longrightarrow> list_empty_careful h m \<longleftrightarrow> xs = []"
  using dll_ends [of m h xs] dll_list_empty [of m h xs]
  by (auto simp: list_empty_careful_def list_empty_def Let_def)

lemma dll_list_is_singular: "dll m h xs \<Longrightarrow> list_is_singular h m \<longleftrightarrow> length xs = 1"
proof -
  assume d: "dll m h xs"
  have "hd xs = last xs \<longleftrightarrow> length xs = 1" if "xs \<noteq> []"
    using that dll_distinct [OF d] by (cases xs) (auto simp: last_in_set)
  then show ?thesis
    using d dll_ends [OF d] dll_list_empty [OF d]
    by (cases "xs = []") (auto simp: list_is_singular_def)
qed

lemma dll_list_is_last:
  "dll m h (as @ x # bs) \<Longrightarrow> list_is_last x h m \<longleftrightarrow> bs = []"
  using dll_neighbours [of m h as x bs]
  by (cases bs) (auto simp: list_is_last_def dll_def)

lemma dll_list_move:
  assumes d: "dll m h (as @ x # bs)"
  shows "dll (list_move x h m) h (x # as @ bs)"
  unfolding list_move_def
  by (rule dll_list_add [OF dll_del_between [OF d]]) (use d in \<open>auto simp: dll_def\<close>)

lemma dll_list_move_tail:
  assumes d: "dll m h (as @ x # bs)"
  shows "dll (list_move_tail x h m) h (as @ bs @ [x])"
  unfolding list_move_tail_def
  using dll_list_add_tail [OF dll_del_between [OF d], of x] d
  by (auto simp: dll_def)

lemma dll_list_rotate_left: "dll m h xs \<Longrightarrow> dll (list_rotate_left h m) h (rotate1 xs)"
proof (cases xs)
  case (Cons x ys)
  moreover assume d: "dll m h xs"
  ultimately show ?thesis
    using dll_list_move_tail [of m h "[]" x ys] dll_list_empty [OF d] dll_ends [OF d]
    by (simp add: list_rotate_left_def)
qed (simp add: list_rotate_left_def dll_list_empty)

lemma list_replace_as_add:
  assumes "old \<noteq> new" "prev_of m old \<noteq> new" "next_of m old \<noteq> new" "next_of m old \<noteq> old"
  shows "list_replace old new m = list_add_between new (prev_of m old) (next_of m old)
     (list_del_between (prev_of m old) (next_of m old) m)"
  using assms by (auto simp: list_replace_def list_mem_simps fun_upd_twist)

lemma dll_list_replace:
  assumes d: "dll m h (as @ old # bs)" and x: "new \<notin> set (h # as @ old # bs)"
  shows "dll (list_replace old new m) h (as @ new # bs)"
proof -
  note nb = dll_neighbours [OF d]
  have p: "last (h # as) \<in> set (h # as)" and n: "hd (bs @ [h]) \<in> set (bs @ [h])"
    by (simp_all only: last_in_set hd_in_set list.distinct append_is_Nil_conv simp_thms)
  have "old \<noteq> new" "prev_of m old \<noteq> new" "next_of m old \<noteq> new" "next_of m old \<noteq> old"
    using nb p n x d by (auto simp: dll_def)
  moreover have "new \<notin> set (h # as @ bs)" using x by auto
  ultimately show ?thesis
    using dll_add_between [OF dll_del_between [OF d]] nb by (simp add: list_replace_as_add)
qed

lemma dll_list_replace_init:
  assumes d: "dll m h (as @ old # bs)" and x: "new \<notin> set (h # as @ old # bs)"
  shows "dll (list_replace_init old new m) h (as @ new # bs)"
    and "dll (list_replace_init old new m) old []"
proof -
  have "old \<notin> set (h # as @ new # bs)" using d x by (auto simp: dll_def)
  then show "dll (list_replace_init old new m) h (as @ new # bs)"
    unfolding list_replace_init_def using dll_list_replace [OF d x] dll_INIT_other by simp
  show "dll (list_replace_init old new m) old []"
    unfolding list_replace_init_def by (rule dll_INIT_LIST_HEAD)
qed

lemma dll_splice_between:
  assumes l: "dll m l ys" and ne: "ys \<noteq> []" and d: "dll m h (as @ bs)"
    and dj: "set (l # ys) \<inter> set (h # as @ bs) = {}"
    and p: "p = last (h # as)" and n: "n = hd (bs @ [h])"
  shows "dll (list_splice_between l p n m) h (as @ ys @ bs)"
proof -
  define us vs where "us = butlast (h # as)" and "vs = tl (bs @ [h])"
  have us: "us @ [p] = h # as" and vs: "n # vs = bs @ [h]"
    using p n by (simp_all add: us_def vs_def del: butlast.simps last.simps)
  have d0: "distinct (h # as @ bs)" and y0: "distinct ys" using d l by (simp_all add: dll_def)
  obtain f fs where yf: "ys = f # fs" using ne by (cases ys) auto
  obtain es e where ye: "ys = es @ [e]" using ne by (cases ys rule: rev_cases) auto
  have fe: "next_of m l = f" "prev_of m l = e"
    using dll_ends [OF l] by (simp add: yf, simp add: ye)
  have out: "p \<notin> set ys" "n \<notin> set ys" "f \<notin> set (us @ [p])" "e \<notin> set (us @ [p])"
      "f \<notin> set (n # vs)" "e \<notin> set (n # vs)"
  proof -
    have "p \<in> set (h # as)" "n \<in> set (bs @ [h])" "f \<in> set ys" "e \<in> set ys"
      unfolding us [symmetric] vs [symmetric] by (simp_all, simp add: yf, simp add: ye)
    then show "p \<notin> set ys" "n \<notin> set ys" "f \<notin> set (us @ [p])" "e \<notin> set (us @ [p])"
      "f \<notin> set (n # vs)" "e \<notin> set (n # vs)"
      using dj unfolding us vs by auto
  qed
  have "links m (l # ys @ [l])" using l by (simp add: dll_def)
  then have "links m ys"
    using links_append [of m "l # es" e "[l]"] links_append [of m "[l]" f fs]
    by (simp add: ye, simp add: yf flip: ye)
  moreover have "e \<notin> set (butlast ys)" "f \<notin> set (tl ys)"
    using y0 by (simp_all add: ye, simp add: yf flip: ye)
  moreover note out seam_disjoint [OF us vs d0] d [unfolded dll_seam [OF us vs]]
  ultimately have "links (list_splice_between l p n m) ys"
      "links (list_splice_between l p n m) (us @ [p])"
      "links (list_splice_between l p n m) (n # vs)"
    unfolding list_splice_between_def Let_def fe by (simp_all only: links_frame simp_thms)
  moreover have "next_of (list_splice_between l p n m) p = f"
      "prev_of (list_splice_between l p n m) f = p"
      "next_of (list_splice_between l p n m) e = n"
      "prev_of (list_splice_between l p n m) n = e"
    using out yf ye by (auto simp: list_splice_between_def list_mem_simps fe)
  ultimately have "links (list_splice_between l p n m) (us @ p # ys @ n # vs)"
    unfolding yf append_Cons links_two [of _ us p f]
    unfolding append_Cons [symmetric] yf [symmetric]
    by (simp add: ye links_two)
  moreover have "us @ p # ys @ n # vs = h # (as @ ys @ bs) @ [h]"
    using us vs by (metis append.assoc append_Cons append_Nil)
  moreover have "distinct (h # as @ ys @ bs)" using d0 y0 dj by auto
  ultimately show ?thesis by (simp add: dll_def)
qed

lemma dll_list_splice:
  assumes l: "dll m l ys" and d: "dll m h xs" and dj: "set (l # ys) \<inter> set (h # xs) = {}"
  shows "dll (list_splice l h m) h (ys @ xs)" and "dll (list_splice_tail l h m) h (xs @ ys)"
proof -
  note ends = dll_ends [OF d] and empty = dll_list_empty [OF l]
  show "dll (list_splice l h m) h (ys @ xs)"
    using dll_splice_between [OF l, of h "[]" xs h "next_of m h"] d dj ends empty
    by (cases "ys = []") (auto simp: list_splice_def)
  show "dll (list_splice_tail l h m) h (xs @ ys)"
    using dll_splice_between [OF l, of h xs "[]" "prev_of m h" h] d dj ends empty
    by (cases "ys = []") (auto simp: list_splice_tail_def)
qed

lemma list_splice_init_as_splice:
  "list_splice_init l h m =
     (if list_empty l m then m else INIT_LIST_HEAD l (list_splice l h m))"
  "list_splice_tail_init l h m =
     (if list_empty l m then m else INIT_LIST_HEAD l (list_splice_tail l h m))"
  by (simp_all add: list_splice_init_def list_splice_tail_init_def
      list_splice_def list_splice_tail_def)

lemma dll_list_splice_init:
  assumes l: "dll m l ys" and d: "dll m h xs" and dj: "set (l # ys) \<inter> set (h # xs) = {}"
  shows "dll (list_splice_init l h m) h (ys @ xs)" and "dll (list_splice_init l h m) l []"
    and "dll (list_splice_tail_init l h m) h (xs @ ys)" and "dll (list_splice_tail_init l h m) l []"
proof -
  have "l \<notin> set (h # ys @ xs)" "l \<notin> set (h # xs @ ys)" using l dj by (auto simp: dll_def)
  then show "dll (list_splice_init l h m) h (ys @ xs)" "dll (list_splice_tail_init l h m) h (xs @ ys)"
    using dll_list_splice [OF l d dj] d dll_list_empty [OF l]
    by (auto simp: list_splice_init_as_splice dll_INIT_other)
  show "dll (list_splice_init l h m) l []" "dll (list_splice_tail_init l h m) l []"
    using l dll_list_empty [OF l] by (auto simp: list_splice_init_as_splice dll_INIT_LIST_HEAD)
qed

lemma dll_list_cut_at:
  assumes d: "dll m h (as @ e # bs)" and l: "l \<notin> set (h # as @ e # bs)"
  shows "dll (list_cut_at l h e m) l (as @ [e])" and "dll (list_cut_at l h e m) h bs"
proof -
  let ?m = "list_cut_at l h e m"
  obtain f fs where f: "as @ [e] = f # fs" by (cases as) auto
  obtain n vs where vs: "bs @ [h] = n # vs" by (cases bs) auto
  have dist: "distinct (h # as @ e # bs)" using d by (simp add: dll_def)
  have ff: "f \<in> set (as @ [e])" and nn: "n \<in> set (bs @ [h])" by (simp_all add: f vs)
  have nh: "next_of m h = f" and ne: "next_of m e = n"
    using dll_ends [OF d] dll_neighbours [OF d] f vs by (cases as; simp)+
  have lk: "links m (as @ [e])" "links m (bs @ [h])"
    using d links_append [of m "h # as" e "bs @ [h]"] links_append [of m "[h]" f fs]
      links_append [of m "[e]" n vs]
    unfolding dll_def by (auto simp: f vs)
  have out: "h \<notin> set (butlast (as @ [e]))" "e \<notin> set (butlast (as @ [e]))" "l \<notin> set (as @ [e])"
      "f \<notin> set (tl (as @ [e]))" "n \<notin> set (as @ [e])" "l \<notin> set (bs @ [h])"
      "e \<notin> set (butlast (bs @ [h]))" "h \<notin> set (butlast (bs @ [h]))"
      "f \<notin> set (bs @ [h])" "n \<notin> set (tl (bs @ [h]))"
  proof -
    show "f \<notin> set (tl (as @ [e]))" using dist f by (cases as) auto
    show "n \<notin> set (tl (bs @ [h]))" using dist vs by (cases bs) auto
  qed (use dist l ff nn in auto)
  have eq: "?m = set_prev n h (set_next h n (set_next e l (set_prev l e (set_prev f l (set_next l f m)))))"
    by (simp add: list_cut_at_def list_mem_simps nh ne)
  have "links ?m (as @ [e])" "links ?m (bs @ [h])"
    using lk out unfolding eq by (simp_all only: links_frame simp_thms)
  moreover have "next_of ?m l = f" "prev_of ?m f = l" "prev_of ?m l = e" "next_of ?m e = l"
      "next_of ?m h = n" "prev_of ?m n = h"
    using dist l ff nn unfolding eq by (auto simp: list_mem_simps)
  moreover from calculation have "links ?m (as @ [e, l])" by (simp add: links_two)
  moreover have al: "as @ [e, l] = f # fs @ [l]" using f by (metis append.assoc append_Cons append_Nil)
  ultimately have "links ?m (l # as @ [e, l])" "links ?m (h # bs @ [h])"
    unfolding al vs by simp_all
  then show "dll ?m l (as @ [e])" "dll ?m h bs" using dist l by (auto simp: dll_def)
qed

lemma dll_list_cut_position:
  assumes d: "dll m h (as @ e # bs)" and l: "l \<notin> set (h # as @ e # bs)"
  shows "dll (list_cut_position l h e m) l (as @ [e])" and "dll (list_cut_position l h e m) h bs"
proof -
  have "\<not> list_empty h m" using dll_list_empty [OF d] by simp
  moreover have "\<not> (list_is_singular h m \<and> next_of m h \<noteq> e \<and> h \<noteq> e)"
  proof (cases "as = []")
    case True
    then show ?thesis using dll_ends [OF d] by simp
  next
    case False
    then show ?thesis using dll_list_is_singular [OF d] by (cases as) auto
  qed
  moreover have "e \<noteq> h" using d by (auto simp: dll_def)
  ultimately have "list_cut_position l h e m = list_cut_at l h e m"
    by (auto simp: list_cut_position_def)
  then show "dll (list_cut_position l h e m) l (as @ [e])" "dll (list_cut_position l h e m) h bs"
    using dll_list_cut_at [OF d l] by simp_all
qed

subsection \<open>Traversal\<close>

lemma list_walk_forward:
  "h \<notin> set xs \<Longrightarrow> links m (xs @ [h]) \<Longrightarrow> list_walk (next_of m) h (hd (xs @ [h])) = Some xs"
proof (induction xs)
  case (Cons x xs)
  then have "links m (xs @ [h])" "next_of m x = hd (xs @ [h])" by (cases xs; auto)+
  with Cons show ?case by (simp add: list_walk.simps [of _ h x])
qed (simp add: list_walk.simps)

lemma list_walk_backward:
  "h \<notin> set xs \<Longrightarrow> links m (h # xs) \<Longrightarrow> list_walk (prev_of m) h (last (h # xs)) = Some (rev xs)"
proof (induction xs rule: rev_induct)
  case (snoc x xs)
  have "links m (butlast (h # xs) @ last (h # xs) # [x])"
    using snoc.prems by (metis append_Cons append_butlast_last_id append.assoc append_Nil list.distinct(1))
  then have "links m (h # xs)" "prev_of m x = last (h # xs)"
    unfolding links_two by (simp_all del: butlast.simps last.simps)
  moreover have "h \<notin> set xs" "x \<noteq> h" "last (h # xs @ [x]) = x" using snoc.prems by auto
  ultimately show ?case using snoc.IH by (simp add: list_walk.simps [of _ h x] del: last.simps)
qed (simp add: list_walk.simps)

lemma dll_list_for_each: "dll m h xs \<Longrightarrow> list_for_each h m = Some xs"
proof -
  assume d: "dll m h xs"
  then have "links m (xs @ [h])" by (cases xs) (auto simp: dll_def)
  with d show ?thesis
    unfolding list_for_each_def dll_ends [OF d, THEN conjunct1]
    by (intro list_walk_forward) (auto simp: dll_def)
qed

lemma dll_list_for_each_prev: "dll m h xs \<Longrightarrow> list_for_each_prev h m = Some (rev xs)"
proof -
  assume d: "dll m h xs"
  then have "links m (h # xs)"
    using dll_seam [of "butlast (h # xs)" "last (h # xs)" h xs h "[]" "[]" m] by simp
  with d show ?thesis
    unfolding list_for_each_prev_def dll_ends [OF d, THEN conjunct2]
    by (intro list_walk_backward) (auto simp: dll_def)
qed

subsection \<open>Other lists are left alone\<close>

lemma dll_member_ends:
  "dll m h xs \<Longrightarrow> next_of m h \<in> set (h # xs) \<and> prev_of m h \<in> set (h # xs)"
  using dll_ends [of m h xs] by (cases xs) auto

lemma dll_member_neighbours:
  assumes "dll m h xs" and "x \<in> set xs"
  shows "next_of m x \<in> set (h # xs) \<and> prev_of m x \<in> set (h # xs)"
proof -
  obtain as bs where xs: "xs = as @ x # bs" using assms(2) by (meson split_list)
  have "last (h # as) \<in> set (h # as)" "hd (bs @ [h]) \<in> set (bs @ [h])"
    by (simp_all only: last_in_set hd_in_set list.distinct append_is_Nil_conv simp_thms)
  then show ?thesis using dll_neighbours [of m h as x bs] assms(1) xs by auto
qed

lemma dll_other_add:
  assumes d: "dll m h xs" and dj: "set (g # ys) \<inter> set (x # h # xs) = {}"
  shows "dll (list_add x h m) g ys = dll m g ys" and "dll (list_add_tail x h m) g ys = dll m g ys"
proof -
  note me = dll_member_ends [OF d]
  show "dll (list_add x h m) g ys = dll m g ys" "dll (list_add_tail x h m) g ys = dll m g ys"
    by (rule dll_cong; use me dj in \<open>auto simp: list_add_def list_add_tail_def list_mem_simps\<close>)+
qed

lemma dll_other_del_init:
  assumes d: "dll m h xs" and x: "x \<in> set xs" and dj: "set (g # ys) \<inter> set (h # xs) = {}"
  shows "dll (list_del_init x m) g ys = dll m g ys"
  by (rule dll_cong) (use dll_member_neighbours [OF d x] x dj in
      \<open>auto simp: list_del_init_def list_mem_simps\<close>)

section \<open>The interface\<close>

text \<open>
  What a component may assume of an intrusive list: where the two insertions and the removal
  put a node, that an empty list is recognised, that the loop visits the nodes in order, and
  that a disjoint list keeps its nodes.
\<close>

locale intrusive_list =
  fixes holds :: "'m \<Rightarrow> nat \<Rightarrow> nat list \<Rightarrow> bool"
    and add_head :: "nat \<Rightarrow> nat \<Rightarrow> 'm \<Rightarrow> 'm"
    and add_tail :: "nat \<Rightarrow> nat \<Rightarrow> 'm \<Rightarrow> 'm"
    and del :: "nat \<Rightarrow> 'm \<Rightarrow> 'm"
    and is_empty :: "nat \<Rightarrow> 'm \<Rightarrow> bool"
    and nodes :: "nat \<Rightarrow> 'm \<Rightarrow> nat list option"
  assumes holds_distinct: "holds m h xs \<Longrightarrow> distinct (h # xs)"
    and add_head: "holds m h xs \<Longrightarrow> x \<notin> set (h # xs) \<Longrightarrow> holds (add_head x h m) h (x # xs)"
    and add_tail: "holds m h xs \<Longrightarrow> x \<notin> set (h # xs) \<Longrightarrow> holds (add_tail x h m) h (xs @ [x])"
    and del: "holds m h xs \<Longrightarrow> x \<in> set xs \<Longrightarrow> holds (del x m) h (removeAll x xs)"
    and del_self: "holds m h xs \<Longrightarrow> x \<in> set xs \<Longrightarrow> holds (del x m) x []"
    and empty: "holds m h xs \<Longrightarrow> is_empty h m \<longleftrightarrow> xs = []"
    and nodes: "holds m h xs \<Longrightarrow> nodes h m = Some xs"
    and other_add: "holds m h xs \<Longrightarrow> set (g # ys) \<inter> set (x # h # xs) = {} \<Longrightarrow>
      holds (add_tail x h m) g ys = holds m g ys"
    and other_del: "holds m h xs \<Longrightarrow> x \<in> set xs \<Longrightarrow> set (g # ys) \<inter> set (h # xs) = {} \<Longrightarrow>
      holds (del x m) g ys = holds m g ys"
begin

lemma nodes_unique: "holds m h xs \<Longrightarrow> holds m h ys \<Longrightarrow> xs = ys"
  by (drule nodes, drule nodes) simp

text \<open>Nodes queued one after the other are visited in the order of their arrival.\<close>

lemma queue_all:
  "holds m h xs \<Longrightarrow> distinct (h # xs @ ys) \<Longrightarrow>
   holds (fold (\<lambda>y. add_tail y h) ys m) h (xs @ ys)"
proof (induction ys arbitrary: m xs)
  case (Cons y ys)
  then have "holds (add_tail y h m) h (xs @ [y])" by (intro add_tail) auto
  with Cons show ?case by fastforce
qed simp

text \<open>A move between two lists: unlink from one, append to the other.\<close>

lemma move_between:
  assumes "holds m h xs" "holds m g ys" "x \<in> set xs" "set (h # xs) \<inter> set (g # ys) = {}"
  shows "holds (add_tail x g (del x m)) h (removeAll x xs)"
    and "holds (add_tail x g (del x m)) g (ys @ [x])"
proof -
  have d: "holds (del x m) h (removeAll x xs)" "holds (del x m) g ys"
    using assms del [of m h xs x] other_del [of m h xs x g ys] by (auto simp: Int_commute)
  show "holds (add_tail x g (del x m)) g (ys @ [x])"
    by (rule add_tail) (use assms d in auto)
  have "set (h # removeAll x xs) \<inter> set (x # g # ys) = {}"
    using assms holds_distinct [OF assms(1)] by auto
  then show "holds (add_tail x g (del x m)) h (removeAll x xs)"
    using other_add [OF d(2), of h "removeAll x xs" x] d(1) by simp
qed

end

interpretation klist: intrusive_list dll list_add list_add_tail list_del_init list_empty list_for_each
proof (unfold_locales, goal_cases)
  case (1 m h xs) then show ?case by (simp add: dll_def)
next
  case (2 m h xs x) then show ?case by (rule dll_list_add)
next
  case (3 m h xs x) then show ?case by (rule dll_list_add_tail)
next
  case (4 m h xs x)
  obtain as bs where xs: "xs = as @ x # bs" using 4(2) by (meson split_list)
  have "distinct xs" using 4(1) by (simp add: dll_def)
  then show ?case using dll_list_del_init(1) [of m h as x bs] 4(1) unfolding xs
    by (simp only: removeAll_middle)
next
  case (5 m h xs x) then show ?case by (metis dll_list_del_init(2) split_list)
next
  case (6 m h xs) then show ?case by (rule dll_list_empty)
next
  case (7 m h xs) then show ?case by (rule dll_list_for_each)
next
  case (8 m h xs g ys x) then show ?case by (rule dll_other_add)
next
  case (9 m h xs x g ys) then show ?case by (rule dll_other_del_init)
qed

section \<open>Properties\<close>

text \<open>A memory with the list \<open>[1, 2]\<close> at head 10 and an empty list at head 20, for the examples.\<close>

definition sample_mem :: list_mem where
  "sample_mem = INIT_LIST_HEAD 20 (list_add_tail 2 10 (list_add_tail 1 10
     (INIT_LIST_HEAD 10 \<lparr>next_of = (\<lambda>_. 0), prev_of = (\<lambda>_. 0)\<rparr>)))"

lemma sample_mem: "dll sample_mem 10 [1, 2]" "dll sample_mem 20 []"
  by (simp_all add: sample_mem_def dll_def list_add_tail_def list_mem_simps)

text \<open>
  \<^verbatim>\<open>list_add\<close> puts a node that is on no list at the front of the list and
  \<^verbatim>\<open>list_add_tail\<close> puts it at the back; the loops \<^verbatim>\<open>list_for_each\<close> and \<^verbatim>\<open>list_for_each_prev\<close>
  then end and visit exactly the old nodes and the new one in that order, and a disjoint list
  is not changed.
\<close>

theorem list_add_correct:
  assumes "dll m h xs" and "x \<notin> set (h # xs)"
    and "dll m g ys" and "set (g # ys) \<inter> set (x # h # xs) = {}"
  shows "list_for_each h (list_add x h m) = Some (x # xs)
    \<and> list_for_each h (list_add_tail x h m) = Some (xs @ [x])
    \<and> list_for_each_prev h (list_add_tail x h m) = Some (x # rev xs)
    \<and> list_for_each g (list_add x h m) = Some ys
    \<and> list_for_each g (list_add_tail x h m) = Some ys"
  using dll_list_add [OF assms(1,2)] dll_list_add_tail [OF assms(1,2)] assms(3)
    dll_other_add [OF assms(1,4)]
  by (auto dest: dll_list_for_each dll_list_for_each_prev)

theorem list_add_correct_witness:
  "dll sample_mem 10 [1, 2] \<and> dll sample_mem 20 [] \<and>
   list_for_each 10 (list_add_tail 3 10 sample_mem) = Some [1, 2, 3] \<and>
   list_for_each 10 (list_add 3 10 sample_mem) = Some [3, 1, 2]"
  using sample_mem list_add_correct [OF sample_mem(1) _ sample_mem(2), of 3] by simp

text \<open>
  C16. \<^verbatim>\<open>list_del_init\<close> takes exactly the given node off the list it is on, whatever its place,
  keeps the order of the others, and leaves the node an empty list of its own, so that
  \<^verbatim>\<open>list_empty\<close> holds of it.
\<close>

theorem list_del_init_correct:
  assumes "dll m h xs" and "x \<in> set xs"
  shows "list_for_each h (list_del_init x m) = Some (removeAll x xs)
    \<and> list_for_each_prev h (list_del_init x m) = Some (rev (removeAll x xs))
    \<and> list_empty x (list_del_init x m)"
  using klist.del [OF assms] klist.del_self [OF assms]
  by (auto dest: dll_list_for_each dll_list_for_each_prev dll_list_empty)

theorem list_del_init_correct_witness:
  "dll sample_mem 10 [1, 2] \<and> list_for_each 10 (list_del_init 1 sample_mem) = Some [2]"
  using sample_mem(1) list_del_init_correct [OF sample_mem(1), of 1] by simp

text \<open>
  Cutting a list behind an entry with \<^verbatim>\<open>list_cut_position\<close> and splicing the part that was cut
  off back with \<^verbatim>\<open>list_splice_init\<close> gives the original list, and the list the part was held on
  is empty again.
\<close>

theorem list_cut_splice_roundtrip:
  assumes "dll m h (as @ e # bs)" and "l \<notin> set (h # as @ e # bs)"
  shows "dll (list_splice_init l h (list_cut_position l h e m)) h (as @ e # bs)
    \<and> list_empty l (list_splice_init l h (list_cut_position l h e m))"
proof -
  have "set (l # as @ [e]) \<inter> set (h # bs) = {}" using assms by (auto simp: dll_def)
  then show ?thesis
    using dll_list_splice_init(1,2) [OF dll_list_cut_position [OF assms]]
    by (auto dest: dll_list_empty)
qed

theorem list_cut_splice_roundtrip_witness:
  "dll sample_mem 10 ([] @ 1 # [2]) \<and>
   dll (list_splice_init 20 10 (list_cut_position 20 10 1 sample_mem)) 10 [1, 2]"
  using sample_mem(1) list_cut_splice_roundtrip [of sample_mem 10 "[]" 1 "[2]" 20] by simp

end
