(* ===== verification/HList.thy ===== *)
theory HList
  imports KList
begin

text \<open>
  The single-headed lists of \<^verbatim>\<open>include/linux/list.h\<close> that hash buckets are made of. A node keeps,
  besides \<^verbatim>\<open>next\<close>, the address of the pointer that points to it (\<^verbatim>\<open>pprev\<close>): the \<^verbatim>\<open>first\<close> field of
  a head or the \<^verbatim>\<open>next\<close> field of a node. \<open>hlist m h xs\<close> says that head \<open>h\<close> holds the nodes
  \<open>xs\<close>.
\<close>

datatype pprev = PNull | PFirst nat | PNext nat | PPoison nat

record hlist_mem =
  hfirst :: "nat \<Rightarrow> nat option"
  hnext :: "nat \<Rightarrow> nat option"
  hpprev :: "nat \<Rightarrow> pprev"

definition set_hfirst :: "nat \<Rightarrow> nat option \<Rightarrow> hlist_mem \<Rightarrow> hlist_mem" where
  [list_mem_simps]: "set_hfirst h v m = m\<lparr>hfirst := (hfirst m)(h := v)\<rparr>"

definition set_hnext :: "nat \<Rightarrow> nat option \<Rightarrow> hlist_mem \<Rightarrow> hlist_mem" where
  [list_mem_simps]: "set_hnext n v m = m\<lparr>hnext := (hnext m)(n := v)\<rparr>"

definition set_hpprev :: "nat \<Rightarrow> pprev \<Rightarrow> hlist_mem \<Rightarrow> hlist_mem" where
  [list_mem_simps]: "set_hpprev n v m = m\<lparr>hpprev := (hpprev m)(n := v)\<rparr>"

text \<open>Reading and writing through a \<^verbatim>\<open>pprev\<close>; a write through NULL or the poison is an oops.\<close>

fun deref :: "hlist_mem \<Rightarrow> pprev \<Rightarrow> nat option" where
  "deref m (PFirst h) = hfirst m h"
| "deref m (PNext n) = hnext m n"
| "deref m _ = None"

fun assign :: "pprev \<Rightarrow> nat option \<Rightarrow> hlist_mem \<Rightarrow> hlist_mem option" where
  "assign (PFirst h) v m = Some (set_hfirst h v m)"
| "assign (PNext n) v m = Some (set_hnext n v m)"
| "assign _ v m = None"

definition INIT_HLIST_HEAD :: "nat \<Rightarrow> hlist_mem \<Rightarrow> hlist_mem" where
  "INIT_HLIST_HEAD h m = set_hfirst h None m"

definition INIT_HLIST_NODE :: "nat \<Rightarrow> hlist_mem \<Rightarrow> hlist_mem" where
  "INIT_HLIST_NODE n m = set_hpprev n PNull (set_hnext n None m)"

definition hlist_unhashed :: "nat \<Rightarrow> hlist_mem \<Rightarrow> bool" where
  "hlist_unhashed n m \<longleftrightarrow> hpprev m n = PNull"

definition hlist_empty :: "nat \<Rightarrow> hlist_mem \<Rightarrow> bool" where
  "hlist_empty h m \<longleftrightarrow> hfirst m h = None"

text \<open>\<^verbatim>\<open>__hlist_del\<close>\<close>

definition hlist_unlink :: "nat \<Rightarrow> hlist_mem \<Rightarrow> hlist_mem option" where
  "hlist_unlink n m =
     (let nxt = hnext m n; pp = hpprev m n
      in do {
        m \<leftarrow> assign pp nxt m;
        Some (case nxt of None \<Rightarrow> m | Some x \<Rightarrow> set_hpprev x pp m)
      })"

definition hlist_del :: "nat \<Rightarrow> hlist_mem \<Rightarrow> hlist_mem option" where
  "hlist_del n m = do {
     m \<leftarrow> hlist_unlink n m;
     Some (set_hpprev n (PPoison LIST_POISON2) (set_hnext n (Some LIST_POISON1) m))
   }"

definition hlist_del_init :: "nat \<Rightarrow> hlist_mem \<Rightarrow> hlist_mem option" where
  "hlist_del_init n m =
     (if \<not> hlist_unhashed n m then do {
        m \<leftarrow> hlist_unlink n m;
        Some (INIT_HLIST_NODE n m)
      } else Some m)"

definition hlist_add_head :: "nat \<Rightarrow> nat \<Rightarrow> hlist_mem \<Rightarrow> hlist_mem" where
  "hlist_add_head n h m =
     (let first = hfirst m h;
          m = set_hnext n first m;
          m = (case first of None \<Rightarrow> m | Some f \<Rightarrow> set_hpprev f (PNext n) m);
          m = set_hfirst h (Some n) m
      in set_hpprev n (PFirst h) m)"

definition hlist_add_before :: "nat \<Rightarrow> nat \<Rightarrow> hlist_mem \<Rightarrow> hlist_mem option" where
  "hlist_add_before n nxt m =
     (let m = set_hpprev n (hpprev m nxt) m;
          m = set_hnext n (Some nxt) m;
          m = set_hpprev nxt (PNext n) m
      in assign (hpprev m n) (Some n) m)"

definition hlist_add_after :: "nat \<Rightarrow> nat \<Rightarrow> hlist_mem \<Rightarrow> hlist_mem" where
  "hlist_add_after n nxt m =
     (let m = set_hnext nxt (hnext m n) m;
          m = set_hnext n (Some nxt) m;
          m = set_hpprev nxt (PNext n) m
      in case hnext m nxt of None \<Rightarrow> m | Some x \<Rightarrow> set_hpprev x (PNext nxt) m)"

definition hlist_move_list :: "nat \<Rightarrow> nat \<Rightarrow> hlist_mem \<Rightarrow> hlist_mem" where
  "hlist_move_list old new m =
     (let m = set_hfirst new (hfirst m old) m;
          m = (case hfirst m new of None \<Rightarrow> m | Some f \<Rightarrow> set_hpprev f (PFirst new) m)
      in set_hfirst old None m)"

section \<open>The list a head holds\<close>

fun hchain :: "hlist_mem \<Rightarrow> pprev \<Rightarrow> nat list \<Rightarrow> bool" where
  "hchain m pp [] \<longleftrightarrow> deref m pp = None"
| "hchain m pp (x # xs) \<longleftrightarrow> deref m pp = Some x \<and> hpprev m x = pp \<and> hchain m (PNext x) xs"

definition hlist :: "hlist_mem \<Rightarrow> nat \<Rightarrow> nat list \<Rightarrow> bool" where
  "hlist m h xs \<longleftrightarrow> distinct xs \<and> hchain m (PFirst h) xs"

lemma hchain_cong:
  "\<lbrakk>deref m' pp = deref m pp;
    \<And>x. x \<in> set xs \<Longrightarrow> hpprev m' x = hpprev m x \<and> hnext m' x = hnext m x\<rbrakk>
   \<Longrightarrow> hchain m' pp xs = hchain m pp xs"
  by (induction xs arbitrary: pp) auto

lemma hchain_pprev:
  "hchain m pp (as @ x # bs) \<Longrightarrow>
     hpprev m x = (if as = [] then pp else PNext (last as)) \<and> deref m (hpprev m x) = Some x \<and>
     hnext m x = (case bs of [] \<Rightarrow> None | b # _ \<Rightarrow> Some b)"
proof (induction as arbitrary: pp)
  case Nil
  then show ?case by (cases bs) simp_all
next
  case (Cons a as)
  then have "hchain m (PNext a) (as @ x # bs)" by simp
  from Cons.IH [OF this] show ?case by (cases "as = []") (elim conjE; intro conjI; simp)+
qed

lemma hlist_hashed: "hlist m h xs \<Longrightarrow> x \<in> set xs \<Longrightarrow> \<not> hlist_unhashed x m"
  by (auto simp: hlist_def hlist_unhashed_def dest!: split_list hchain_pprev)

text \<open>
  The effect of unlinking, as equations on what the memory shows: the pointer to the node skips
  it, and its successor learns the new address of the pointer to it.
\<close>

lemma hchain_unlink:
  assumes "hchain m pp (as @ x # bs)" and "distinct (as @ x # bs)"
    and "pp \<notin> PNext ` set (as @ x # bs)"
    and next': "\<And>p. deref m' p = (if p = hpprev m x then hnext m x else deref m p)"
    and pprev': "\<And>y. hpprev m' y = (if hnext m x = Some y then hpprev m x else hpprev m y)"
  shows "hchain m' pp (as @ bs)"
  using assms(1-3)
proof (induction as arbitrary: pp)
  case Nil
  then have x: "hpprev m x = pp" "hchain m (PNext x) bs" by auto
  show ?case
  proof (cases bs)
    case Nil
    with x show ?thesis by (simp add: next')
  next
    case (Cons b cs)
    then have b: "hnext m x = Some b" using x by simp
    have "hchain m' (PNext b) cs = hchain m (PNext b) cs"
    proof (rule hchain_cong)
      show "deref m' (PNext b) = deref m (PNext b)" using Nil.prems Cons x next' [of "PNext b"] by auto
      fix y assume y: "y \<in> set cs"
      then have "hpprev m x \<noteq> PNext y" using Nil.prems Cons x by auto
      with y show "hpprev m' y = hpprev m y \<and> hnext m' y = hnext m y"
        using Nil.prems Cons x b next' [of "PNext y"] by (auto simp: pprev')
    qed
    with Cons x b show ?thesis by (simp add: next' pprev')
  qed
next
  case (Cons a as)
  have px: "hpprev m x \<in> PNext ` set (a # as)"
    using hchain_pprev [OF Cons.prems(1)] by auto
  then have "deref m' pp = Some a" using Cons.prems by (auto simp: next')
  moreover have "hpprev m' a = pp"
    using Cons.prems hchain_pprev [OF Cons.prems(1)] by (auto simp: pprev' split: list.splits)
  moreover have "hchain m' (PNext a) (as @ bs)"
    by (rule Cons.IH) (use Cons.prems in auto)
  ultimately show ?case by simp
qed

lemma assign_effect:
  assumes "assign pp v m = Some m'"
  shows "deref m' p = (if p = pp then v else deref m p)" and "hpprev m' y = hpprev m y"
  using assms by (cases pp; cases p; auto simp: list_mem_simps)+

lemma hlist_unlink_correct:
  assumes d: "hlist m h (as @ x # bs)"
  shows "\<exists>m'. hlist_unlink x m = Some m' \<and> hlist m' h (as @ bs) \<and>
    (\<forall>p. deref m' p = (if p = hpprev m x then hnext m x else deref m p)) \<and>
    (\<forall>y. hpprev m' y = (if hnext m x = Some y then hpprev m x else hpprev m y))"
proof -
  have c: "hchain m (PFirst h) (as @ x # bs)" "distinct (as @ x # bs)"
    using d by (auto simp: hlist_def)
  obtain m1 where m1: "assign (hpprev m x) (hnext m x) m = Some m1"
    using hchain_pprev [OF c(1)] by (cases "as = []") auto
  define m' where "m' = (case hnext m x of None \<Rightarrow> m1 | Some y \<Rightarrow> set_hpprev y (hpprev m x) m1)"
  have dm: "deref (set_hpprev y v m1) p = deref m1 p" for y v p
    by (cases p) (auto simp: list_mem_simps)
  have e: "deref m' p = (if p = hpprev m x then hnext m x else deref m p)"
      "hpprev m' y = (if hnext m x = Some y then hpprev m x else hpprev m y)" for p y
    by (auto simp: m'_def dm assign_effect [OF m1] split: option.splits)
      (auto simp: set_hpprev_def assign_effect [OF m1])
  have "hlist_unlink x m = Some m'" by (simp add: hlist_unlink_def m1 m'_def Let_def)
  moreover have "hlist m' h (as @ bs)"
    using hchain_unlink [OF c _ e] c(2) by (auto simp: hlist_def)
  ultimately show ?thesis using e by blast
qed

lemma hchain_frame:
  assumes "hchain m pp xs" and "deref m' pp = deref m pp"
    and "\<And>x. x \<in> set xs \<Longrightarrow> hpprev m' x = hpprev m x \<and> deref m' (PNext x) = deref m (PNext x)"
  shows "hchain m' pp xs"
  using assms hchain_cong [of m' pp m xs] by auto

lemma hlist_INIT_other: "x \<notin> set xs \<Longrightarrow> hlist m h xs \<Longrightarrow> hlist (INIT_HLIST_NODE x m) h xs"
  unfolding hlist_def by (auto elim!: hchain_frame simp: INIT_HLIST_NODE_def list_mem_simps)

lemma hlist_del_init_correct_at:
  assumes d: "hlist m h (as @ x # bs)"
  shows "\<exists>m'. hlist_del_init x m = Some m' \<and> hlist m' h (as @ bs) \<and> hlist_unhashed x m' \<and>
    (\<forall>g ys. g \<noteq> h \<longrightarrow> set ys \<inter> set (as @ x # bs) = {} \<longrightarrow> hlist m g ys \<longrightarrow> hlist m' g ys)"
proof -
  obtain m1 where m1: "hlist_unlink x m = Some m1" "hlist m1 h (as @ bs)"
      and e: "\<And>p. deref m1 p = (if p = hpprev m x then hnext m x else deref m p)"
        "\<And>y. hpprev m1 y = (if hnext m x = Some y then hpprev m x else hpprev m y)"
    using hlist_unlink_correct [OF d] by blast
  have c: "hchain m (PFirst h) (as @ x # bs)" "distinct (as @ x # bs)"
    using d by (auto simp: hlist_def)
  have other: "hlist (INIT_HLIST_NODE x m1) g ys"
    if "g \<noteq> h" "set ys \<inter> set (as @ x # bs) = {}" "hlist m g ys" for g ys
  proof (rule hlist_INIT_other)
    show "x \<notin> set ys" using that by auto
    have px: "hpprev m x \<in> insert (PFirst h) (PNext ` set as)"
      and nx: "hnext m x \<in> insert None (Some ` set bs)"
      using hchain_pprev [OF c(1)] by (auto split: list.splits)
    have "hchain m1 (PFirst g) ys"
      by (rule hchain_frame [of m]) (use that px nx in \<open>auto simp: hlist_def e simp del: deref.simps\<close>)
    then show "hlist m1 g ys" using that by (simp add: hlist_def)
  qed
  have "hlist_del_init x m = Some (INIT_HLIST_NODE x m1)"
    using m1 hlist_hashed [OF d, of x] by (simp add: hlist_del_init_def)
  moreover have "hlist (INIT_HLIST_NODE x m1) h (as @ bs)"
    by (rule hlist_INIT_other) (use m1 c in auto)
  moreover have "hlist_unhashed x (INIT_HLIST_NODE x m1)"
    by (simp add: hlist_unhashed_def INIT_HLIST_NODE_def list_mem_simps)
  ultimately show ?thesis using other by blast
qed

lemma hlist_add_head_correct_at:
  assumes d: "hlist m h xs" and x: "x \<notin> set xs"
  shows "hlist (hlist_add_head x h m) h (x # xs)"
    and "g \<noteq> h \<Longrightarrow> set ys \<inter> set (x # xs) = {} \<Longrightarrow> hlist m g ys \<Longrightarrow> hlist (hlist_add_head x h m) g ys"
proof -
  have c: "hchain m (PFirst h) xs" "distinct xs" using d by (auto simp: hlist_def)
  show "hlist (hlist_add_head x h m) h (x # xs)"
  proof (cases xs)
    case Nil
    with c show ?thesis by (auto simp: hlist_def hlist_add_head_def list_mem_simps Let_def)
  next
    case (Cons f fs)
    have "hchain (hlist_add_head x h m) (PNext f) fs = hchain m (PNext f) fs"
      by (rule hchain_cong) (use c x Cons in
          \<open>auto simp: hlist_add_head_def list_mem_simps Let_def\<close>)
    with Cons c x show ?thesis
      by (auto simp: hlist_def hlist_add_head_def list_mem_simps Let_def)
  qed
  have f: "hfirst m h \<in> insert None (Some ` set xs)" using c by (cases xs) auto
  show "hlist (hlist_add_head x h m) g ys"
    if "g \<noteq> h" "set ys \<inter> set (x # xs) = {}" "hlist m g ys"
  proof -
    have "hchain (hlist_add_head x h m) (PFirst g) ys = hchain m (PFirst g) ys"
      by (rule hchain_cong) (use that f in
          \<open>auto simp: hlist_add_head_def list_mem_simps Let_def split: option.splits\<close>)
    then show ?thesis using that by (simp add: hlist_def)
  qed
qed

lemma hlist_empty_correct: "hlist m h xs \<Longrightarrow> hlist_empty h m \<longleftrightarrow> xs = []"
  by (cases xs) (auto simp: hlist_def hlist_empty_def)

lemma hlist_move_list_correct:
  assumes d: "hlist m old xs" and "old \<noteq> new"
  shows "hlist (hlist_move_list old new m) new xs" and "hlist (hlist_move_list old new m) old []"
proof -
  show "hlist (hlist_move_list old new m) old []"
    by (simp add: hlist_def hlist_move_list_def list_mem_simps Let_def)
  have c: "hchain m (PFirst old) xs" "distinct xs" using d by (auto simp: hlist_def)
  show "hlist (hlist_move_list old new m) new xs"
  proof (cases xs)
    case Nil
    with c assms(2) show ?thesis by (auto simp: hlist_def hlist_move_list_def list_mem_simps Let_def)
  next
    case (Cons f fs)
    have "hchain (hlist_move_list old new m) (PNext f) fs = hchain m (PNext f) fs"
      by (rule hchain_cong) (use c Cons in \<open>auto simp: hlist_move_list_def list_mem_simps Let_def\<close>)
    with Cons c assms(2) show ?thesis
      by (auto simp: hlist_def hlist_move_list_def list_mem_simps Let_def)
  qed
qed

section \<open>Properties\<close>

text \<open>
  A node added to a bucket with \<^verbatim>\<open>hlist_add_head\<close> is its first entry, and \<^verbatim>\<open>hlist_del_init\<close>
  takes it off again: the bucket holds what it held before, the node counts as unhashed and
  every other bucket with other nodes is unchanged by both steps.
\<close>

theorem hlist_add_del_roundtrip:
  assumes "hlist m h xs" and "x \<notin> set xs" and "g \<noteq> h"
    and "hlist m g ys" and "set ys \<inter> set (x # xs) = {}"
  shows "hlist (hlist_add_head x h m) h (x # xs) \<and>
    (\<exists>m'. hlist_del_init x (hlist_add_head x h m) = Some m' \<and>
       hlist m' h xs \<and> hlist_unhashed x m' \<and> hlist m' g ys)"
proof -
  have a: "hlist (hlist_add_head x h m) h ([] @ x # xs)" "hlist (hlist_add_head x h m) g ys"
    using hlist_add_head_correct_at [OF assms(1,2)] assms(3-5) by simp_all
  then show ?thesis using hlist_del_init_correct_at [OF a(1)] assms(3,5) by fastforce
qed

theorem hlist_add_del_roundtrip_witness:
  "hlist \<lparr>hfirst = (\<lambda>_. None), hnext = (\<lambda>_. None), hpprev = (\<lambda>_. PNull)\<rparr> 7 [] \<and>
   hlist (hlist_add_head 1 7 \<lparr>hfirst = (\<lambda>_. None), hnext = (\<lambda>_. None), hpprev = (\<lambda>_. PNull)\<rparr>) 7 [1]"
  using hlist_add_del_roundtrip
    [of "\<lparr>hfirst = (\<lambda>_. None), hnext = (\<lambda>_. None), hpprev = (\<lambda>_. PNull)\<rparr>" 7 "[]" 1 8 "[]"]
  by (simp add: hlist_def)

end
