(* ===== verification/Blk.thy ===== *)
theory Blk
  imports Prelude
begin

text \<open>
  The data of the block layer: requests, bios, the request queue and the table of elevator
  operations, from \<^verbatim>\<open>include/linux/blkdev.h\<close>, \<^verbatim>\<open>include/linux/bio.h\<close> and
  \<^verbatim>\<open>include/linux/elevator.h\<close>, with the predicates and accessors that the headers define as
  macros and inline functions.

  A pointer to a request is a value of \<open>rqp\<close>; the three requests that are embedded in the queue
  for barrier handling have names of their own. The queue carries the memory of the requests
  (\<open>rqs\<close>). The members of an intrusive list are given as the list of its nodes in order, and
  unlinking a node is its removal from every list of the queue that links it through the same
  field: a request has one \<^verbatim>\<open>queuelist\<close> and one \<^verbatim>\<open>hash\<close> node, so it is on one list of each kind.
  The chain of bios from \<^verbatim>\<open>rq->bio\<close> to \<^verbatim>\<open>rq->biotail\<close> is a list of bios.
\<close>

section \<open>Bios\<close>

datatype bio_rw_flag =
    BIO_RW | BIO_RW_FAILFAST_DEV | BIO_RW_FAILFAST_TRANSPORT | BIO_RW_FAILFAST_DRIVER
  | BIO_RW_AHEAD | BIO_RW_BARRIER | BIO_RW_SYNCIO | BIO_RW_UNPLUG | BIO_RW_META
  | BIO_RW_DISCARD | BIO_RW_NOIDLE

fun bio_rw_bit :: "bio_rw_flag \<Rightarrow> nat" where
  "bio_rw_bit BIO_RW = 0"
| "bio_rw_bit BIO_RW_FAILFAST_DEV = 1"
| "bio_rw_bit BIO_RW_FAILFAST_TRANSPORT = 2"
| "bio_rw_bit BIO_RW_FAILFAST_DRIVER = 3"
| "bio_rw_bit BIO_RW_AHEAD = 4"
| "bio_rw_bit BIO_RW_BARRIER = 5"
| "bio_rw_bit BIO_RW_SYNCIO = 6"
| "bio_rw_bit BIO_RW_UNPLUG = 7"
| "bio_rw_bit BIO_RW_META = 8"
| "bio_rw_bit BIO_RW_DISCARD = 9"
| "bio_rw_bit BIO_RW_NOIDLE = 10"

record bio_vec =
  bv_page :: nat
  bv_len :: u32
  bv_offset :: u32

record bio =
  bi_sector :: sector_t
  bi_disk :: "nat option"
  bi_flags :: u32
  bi_rw :: u32
  bi_vcnt :: nat
  bi_idx :: nat
  bi_phys_segments :: u32
  bi_size :: u32
  bi_seg_front_size :: u32
  bi_seg_back_size :: u32
  bi_io_vec :: "bio_vec list"
  bi_integrity :: bool

definition bio_rw_flagged :: "bio \<Rightarrow> bio_rw_flag \<Rightarrow> bool" where
  "bio_rw_flagged b f \<longleftrightarrow> bi_rw b AND push_bit (bio_rw_bit f) 1 \<noteq> 0"

definition bio_sectors :: "bio \<Rightarrow> u32" where
  "bio_sectors b = drop_bit 9 (bi_size b)"

text \<open>READ is \<open>False\<close> and WRITE is \<open>True\<close>.\<close>

definition bio_data_dir :: "bio \<Rightarrow> bool" where
  "bio_data_dir b \<longleftrightarrow> bi_rw b AND 1 \<noteq> 0"

section \<open>Requests\<close>

datatype rqp = Rq nat | PreFlushRq | BarRq | PostFlushRq

datatype rq_cmd_type =
    REQ_TYPE_NONE | REQ_TYPE_FS | REQ_TYPE_BLOCK_PC | REQ_TYPE_SENSE | REQ_TYPE_PM_SUSPEND
  | REQ_TYPE_PM_RESUME | REQ_TYPE_PM_SHUTDOWN | REQ_TYPE_SPECIAL | REQ_TYPE_LINUX_BLOCK
  | REQ_TYPE_ATA_TASKFILE | REQ_TYPE_ATA_PC

datatype rq_flag =
    REQ_RW | REQ_FAILFAST_DEV | REQ_FAILFAST_TRANSPORT | REQ_FAILFAST_DRIVER | REQ_DISCARD
  | REQ_SORTED | REQ_SOFTBARRIER | REQ_HARDBARRIER | REQ_FUA | REQ_NOMERGE | REQ_STARTED
  | REQ_DONTPREP | REQ_QUEUED | REQ_ELVPRIV | REQ_FAILED | REQ_QUIET | REQ_PREEMPT
  | REQ_ORDERED_COLOR | REQ_RW_SYNC | REQ_ALLOCED | REQ_RW_META | REQ_COPY_USER
  | REQ_INTEGRITY | REQ_NOIDLE | REQ_IO_STAT | REQ_MIXED_MERGE

fun rq_flag_bit :: "rq_flag \<Rightarrow> nat" where
  "rq_flag_bit REQ_RW = 0"
| "rq_flag_bit REQ_FAILFAST_DEV = 1"
| "rq_flag_bit REQ_FAILFAST_TRANSPORT = 2"
| "rq_flag_bit REQ_FAILFAST_DRIVER = 3"
| "rq_flag_bit REQ_DISCARD = 4"
| "rq_flag_bit REQ_SORTED = 5"
| "rq_flag_bit REQ_SOFTBARRIER = 6"
| "rq_flag_bit REQ_HARDBARRIER = 7"
| "rq_flag_bit REQ_FUA = 8"
| "rq_flag_bit REQ_NOMERGE = 9"
| "rq_flag_bit REQ_STARTED = 10"
| "rq_flag_bit REQ_DONTPREP = 11"
| "rq_flag_bit REQ_QUEUED = 12"
| "rq_flag_bit REQ_ELVPRIV = 13"
| "rq_flag_bit REQ_FAILED = 14"
| "rq_flag_bit REQ_QUIET = 15"
| "rq_flag_bit REQ_PREEMPT = 16"
| "rq_flag_bit REQ_ORDERED_COLOR = 17"
| "rq_flag_bit REQ_RW_SYNC = 18"
| "rq_flag_bit REQ_ALLOCED = 19"
| "rq_flag_bit REQ_RW_META = 20"
| "rq_flag_bit REQ_COPY_USER = 21"
| "rq_flag_bit REQ_INTEGRITY = 22"
| "rq_flag_bit REQ_NOIDLE = 23"
| "rq_flag_bit REQ_IO_STAT = 24"
| "rq_flag_bit REQ_MIXED_MERGE = 25"

text \<open>The mask \<^verbatim>\<open>1 << __REQ_X\<close> of a flag, and the union of several masks.\<close>

definition REQ :: "rq_flag \<Rightarrow> u32" where
  "REQ f = push_bit (rq_flag_bit f) 1"

datatype rq_end_io = NoEndIo | PreFlushEndIo | BarEndIo | PostFlushEndIo | DriverEndIo nat

record request =
  cmd_flags :: u32
  cmd_type :: rq_cmd_type
  data_len :: u32
  sector :: sector_t
  bios :: "bio list"
  fifo_time :: u32
  rq_disk :: "nat option"
  nr_phys_segments :: "16 word"
  ioprio :: "16 word"
  ref_count :: int
  special :: "nat option"
  rq_tag :: int
  rq_errors :: int
  resid_len :: u32
  end_io :: rq_end_io
  next_rq :: "rqp option"

definition rq_flagged :: "request \<Rightarrow> rq_flag \<Rightarrow> bool" where
  "rq_flagged r f \<longleftrightarrow> cmd_flags r AND REQ f \<noteq> 0"

definition rq_set_flag :: "rq_flag \<Rightarrow> request \<Rightarrow> request" where
  "rq_set_flag f r = r\<lparr>cmd_flags := cmd_flags r OR REQ f\<rparr>"

definition rq_clear_flag :: "rq_flag \<Rightarrow> request \<Rightarrow> request" where
  "rq_clear_flag f r = r\<lparr>cmd_flags := cmd_flags r AND NOT (REQ f)\<rparr>"

definition blk_rq_pos :: "request \<Rightarrow> sector_t" where
  [rq_simps]: "blk_rq_pos r = sector r"

definition blk_rq_bytes :: "request \<Rightarrow> u32" where
  [rq_simps]: "blk_rq_bytes r = data_len r"

definition blk_rq_sectors :: "request \<Rightarrow> u32" where
  [rq_simps]: "blk_rq_sectors r = drop_bit 9 (blk_rq_bytes r)"

definition rq_end_sector :: "request \<Rightarrow> sector_t" where
  [rq_simps]: "rq_end_sector r = blk_rq_pos r + ucast (blk_rq_sectors r)"

definition blk_fs_request :: "request \<Rightarrow> bool" where
  "blk_fs_request r \<longleftrightarrow> cmd_type r = REQ_TYPE_FS"

definition blk_discard_rq :: "request \<Rightarrow> bool" where
  "blk_discard_rq r \<longleftrightarrow> rq_flagged r REQ_DISCARD"

definition blk_account_rq :: "request \<Rightarrow> bool" where
  "blk_account_rq r \<longleftrightarrow> rq_flagged r REQ_STARTED \<and> (blk_fs_request r \<or> blk_discard_rq r)"

definition blk_sorted_rq :: "request \<Rightarrow> bool" where
  "blk_sorted_rq r \<longleftrightarrow> rq_flagged r REQ_SORTED"

definition blk_barrier_rq :: "request \<Rightarrow> bool" where
  "blk_barrier_rq r \<longleftrightarrow> rq_flagged r REQ_HARDBARRIER"

definition blk_bidi_rq :: "request \<Rightarrow> bool" where
  "blk_bidi_rq r \<longleftrightarrow> next_rq r \<noteq> None"

definition rq_data_dir :: "request \<Rightarrow> bool" where
  "rq_data_dir r \<longleftrightarrow> cmd_flags r AND 1 \<noteq> 0"

definition rw_is_sync :: "u32 \<Rightarrow> bool" where
  "rw_is_sync rw \<longleftrightarrow> rw AND REQ REQ_RW = 0 \<or> rw AND REQ REQ_RW_SYNC \<noteq> 0"

definition rq_is_sync :: "request \<Rightarrow> bool" where
  "rq_is_sync r = rw_is_sync (cmd_flags r)"

definition RQ_NOMERGE_FLAGS :: u32 where
  "RQ_NOMERGE_FLAGS = REQ REQ_NOMERGE OR REQ REQ_STARTED OR REQ REQ_HARDBARRIER OR REQ REQ_SOFTBARRIER"

definition rq_mergeable :: "request \<Rightarrow> bool" where
  "rq_mergeable r \<longleftrightarrow>
     cmd_flags r AND RQ_NOMERGE_FLAGS = 0 \<and> (blk_discard_rq r \<or> blk_fs_request r)"

definition blk_integrity_rq :: "request \<Rightarrow> bool" where
  "blk_integrity_rq r = (case bios r of [] \<Rightarrow> False | b # _ \<Rightarrow> bi_integrity b)"

section \<open>The request queue\<close>

datatype queue_flag =
    QUEUE_FLAG_CLUSTER | QUEUE_FLAG_QUEUED | QUEUE_FLAG_STOPPED | QUEUE_FLAG_SYNCFULL
  | QUEUE_FLAG_ASYNCFULL | QUEUE_FLAG_DEAD | QUEUE_FLAG_REENTER | QUEUE_FLAG_PLUGGED
  | QUEUE_FLAG_ELVSWITCH | QUEUE_FLAG_BIDI | QUEUE_FLAG_NOMERGES | QUEUE_FLAG_SAME_COMP
  | QUEUE_FLAG_FAIL_IO | QUEUE_FLAG_STACKABLE | QUEUE_FLAG_NONROT | QUEUE_FLAG_IO_STAT
  | QUEUE_FLAG_DISCARD | QUEUE_FLAG_NOXMERGES

fun queue_flag_bit :: "queue_flag \<Rightarrow> nat" where
  "queue_flag_bit QUEUE_FLAG_CLUSTER = 0"
| "queue_flag_bit QUEUE_FLAG_QUEUED = 1"
| "queue_flag_bit QUEUE_FLAG_STOPPED = 2"
| "queue_flag_bit QUEUE_FLAG_SYNCFULL = 3"
| "queue_flag_bit QUEUE_FLAG_ASYNCFULL = 4"
| "queue_flag_bit QUEUE_FLAG_DEAD = 5"
| "queue_flag_bit QUEUE_FLAG_REENTER = 6"
| "queue_flag_bit QUEUE_FLAG_PLUGGED = 7"
| "queue_flag_bit QUEUE_FLAG_ELVSWITCH = 8"
| "queue_flag_bit QUEUE_FLAG_BIDI = 9"
| "queue_flag_bit QUEUE_FLAG_NOMERGES = 10"
| "queue_flag_bit QUEUE_FLAG_SAME_COMP = 11"
| "queue_flag_bit QUEUE_FLAG_FAIL_IO = 12"
| "queue_flag_bit QUEUE_FLAG_STACKABLE = 13"
| "queue_flag_bit QUEUE_FLAG_NONROT = 14"
| "queue_flag_bit QUEUE_FLAG_IO_STAT = 15"
| "queue_flag_bit QUEUE_FLAG_DISCARD = 16"
| "queue_flag_bit QUEUE_FLAG_NOXMERGES = 17"

text \<open>The tags of a queue; \<open>tag_index\<close> and \<open>tag_map\<close> are the two arrays.\<close>

record blk_queue_tag =
  tag_index :: "rqp option list"
  tag_map :: "bool list"
  tag_max_depth :: int
  real_max_depth :: int
  tag_refcnt :: int

text \<open>
  The last members: the state of the request pool per direction (starved, congested, how often a
  sleeper was woken), the tags with the list of tagged requests, the bios that have been ended,
  latest first, each with its error, and the function that prepares a flush, by its number.
\<close>

record 'd request_queue =
  queue_head :: "rqp list"
  last_merge :: "rqp option"
  elevator_data :: 'd
  elv_hash :: "nat \<Rightarrow> rqp list"
  rq_count :: "bool \<Rightarrow> int"
  elvpriv :: int
  end_sector :: sector_t
  boundary_rq :: "rqp option"
  unplug_timer :: bool
  unplug_work :: bool
  unplug_thresh :: int
  queue_flags :: u32
  nr_sorted :: u32
  in_flight :: "bool \<Rightarrow> u32"
  ordered :: u32
  next_ordered :: u32
  ordseq :: u32
  orderr :: int
  ordcolor :: bool
  orig_bar_rq :: "rqp option"
  rqs :: "rqp \<Rightarrow> request"
  starved :: "bool \<Rightarrow> bool"
  congested :: "bool \<Rightarrow> bool"
  wakeups :: "bool \<Rightarrow> nat"
  queue_tags :: "blk_queue_tag option"
  tag_busy_list :: "rqp list"
  ended_bios :: "(bio \<times> int) list"
  prepare_flush_fn :: "nat option"

definition rq_upd :: "rqp \<Rightarrow> (request \<Rightarrow> request) \<Rightarrow> 'd request_queue \<Rightarrow> 'd request_queue" where
  [rq_simps]: "rq_upd p f q = q\<lparr>rqs := (rqs q)(p := f (rqs q p))\<rparr>"

definition queue_flag_test :: "queue_flag \<Rightarrow> 'd request_queue \<Rightarrow> bool" where
  "queue_flag_test f q \<longleftrightarrow> bit (queue_flags q) (queue_flag_bit f)"

definition queue_flag_set :: "queue_flag \<Rightarrow> 'd request_queue \<Rightarrow> 'd request_queue" where
  "queue_flag_set f q = q\<lparr>queue_flags := set_bit (queue_flag_bit f) (queue_flags q)\<rparr>"

definition queue_flag_clear :: "queue_flag \<Rightarrow> 'd request_queue \<Rightarrow> 'd request_queue" where
  "queue_flag_clear f q = q\<lparr>queue_flags := unset_bit (queue_flag_bit f) (queue_flags q)\<rparr>"

definition queue_flag_test_and_clear ::
    "queue_flag \<Rightarrow> 'd request_queue \<Rightarrow> bool \<times> 'd request_queue" where
  "queue_flag_test_and_clear f q =
     (if queue_flag_test f q then (True, queue_flag_clear f q) else (False, q))"

definition queue_flag_test_and_set ::
    "queue_flag \<Rightarrow> 'd request_queue \<Rightarrow> bool \<times> 'd request_queue" where
  "queue_flag_test_and_set f q =
     (if \<not> queue_flag_test f q then (False, queue_flag_set f q) else (True, q))"

definition queue_in_flight :: "'d request_queue \<Rightarrow> u32" where
  "queue_in_flight q = in_flight q False + in_flight q True"

abbreviation blk_queue_plugged :: "'d request_queue \<Rightarrow> bool" where
  "blk_queue_plugged q \<equiv> queue_flag_test QUEUE_FLAG_PLUGGED q"

abbreviation blk_queue_stopped :: "'d request_queue \<Rightarrow> bool" where
  "blk_queue_stopped q \<equiv> queue_flag_test QUEUE_FLAG_STOPPED q"

abbreviation blk_queue_nomerges :: "'d request_queue \<Rightarrow> bool" where
  "blk_queue_nomerges q \<equiv> queue_flag_test QUEUE_FLAG_NOMERGES q"

abbreviation blk_queue_noxmerges :: "'d request_queue \<Rightarrow> bool" where
  "blk_queue_noxmerges q \<equiv> queue_flag_test QUEUE_FLAG_NOXMERGES q"

abbreviation blk_queue_nonrot :: "'d request_queue \<Rightarrow> bool" where
  "blk_queue_nonrot q \<equiv> queue_flag_test QUEUE_FLAG_NONROT q"

text \<open>
  The neighbours of a request through \<^verbatim>\<open>rq->queuelist\<close>, for a scheduler whose own list is \<open>own\<close>.
  Off every list the node points to itself; next to the head of the dispatch list there is no
  request, and reading one there is the stop \<open>None\<close>.
\<close>

fun prev_in :: "'a list \<Rightarrow> 'a \<Rightarrow> 'a option" where
  "prev_in (x # y # ys) r = (if y = r then Some x else prev_in (y # ys) r)"
| "prev_in _ r = None"

definition queuelist_prev :: "rqp list \<Rightarrow> 'd request_queue \<Rightarrow> rqp \<Rightarrow> rqp option option" where
  "queuelist_prev own q rq =
     (if rq \<in> set own then Some (prev_in own rq)
      else if rq \<in> set (queue_head q) then map_option Some (prev_in (queue_head q) rq)
      else Some (Some rq))"

definition queuelist_next :: "rqp list \<Rightarrow> 'd request_queue \<Rightarrow> rqp \<Rightarrow> rqp option option" where
  "queuelist_next own q rq =
     (if rq \<in> set own then Some (prev_in (rev own) rq)
      else if rq \<in> set (queue_head q) then map_option Some (prev_in (rev (queue_head q)) rq)
      else Some (Some rq))"

section \<open>The table of elevator operations\<close>

datatype elv_merge_ret = ELEVATOR_NO_MERGE | ELEVATOR_FRONT_MERGE | ELEVATOR_BACK_MERGE

datatype elv_mqueue = ELV_MQUEUE_MAY | ELV_MQUEUE_NO | ELV_MQUEUE_MUST

record 'd elevator_ops =
  elevator_merge_fn :: "('d request_queue \<Rightarrow> bio \<Rightarrow> (elv_merge_ret \<times> rqp option) option) option"
  elevator_merged_fn :: "('d request_queue \<Rightarrow> rqp \<Rightarrow> elv_merge_ret \<Rightarrow> 'd request_queue option) option"
  elevator_merge_req_fn :: "('d request_queue \<Rightarrow> rqp \<Rightarrow> rqp \<Rightarrow> 'd request_queue option) option"
  elevator_allow_merge_fn :: "('d request_queue \<Rightarrow> rqp \<Rightarrow> bio \<Rightarrow> bool) option"
  elevator_dispatch_fn :: "'d request_queue \<Rightarrow> bool \<Rightarrow> (bool \<times> 'd request_queue) option"
  elevator_add_req_fn :: "'d request_queue \<Rightarrow> rqp \<Rightarrow> 'd request_queue option"
  elevator_activate_req_fn :: "('d request_queue \<Rightarrow> rqp \<Rightarrow> 'd request_queue) option"
  elevator_deactivate_req_fn :: "('d request_queue \<Rightarrow> rqp \<Rightarrow> 'd request_queue) option"
  elevator_queue_empty_fn :: "('d request_queue \<Rightarrow> bool) option"
  elevator_completed_req_fn :: "('d request_queue \<Rightarrow> rqp \<Rightarrow> 'd request_queue) option"
  elevator_former_req_fn :: "('d request_queue \<Rightarrow> rqp \<Rightarrow> rqp option option) option"
  elevator_latter_req_fn :: "('d request_queue \<Rightarrow> rqp \<Rightarrow> rqp option option) option"
  elevator_set_req_fn :: "('d request_queue \<Rightarrow> rqp \<Rightarrow> int \<times> 'd request_queue) option"
  elevator_put_req_fn :: "('d request_queue \<Rightarrow> rqp \<Rightarrow> 'd request_queue) option"
  elevator_may_queue_fn :: "('d request_queue \<Rightarrow> u32 \<Rightarrow> elv_mqueue) option"
  elevator_init_fn :: "bool \<Rightarrow> 'd option"
  elevator_exit_fn :: "('d \<Rightarrow> unit option) option"

text \<open>
  The argument of \<open>elevator_init_fn\<close> says whether the allocator had memory for the private data;
  \<open>None\<close> as its result is the NULL it returns without.
\<close>

section \<open>Flags\<close>

lemma rq_flag_bit_less: "rq_flag_bit f < 32"
  by (cases f) simp_all

lemma rq_flag_bit_inject [simp]: "rq_flag_bit f = rq_flag_bit g \<longleftrightarrow> f = g"
  by (cases f; cases g; simp)

lemma queue_flag_bit_less: "queue_flag_bit f < 32"
  by (cases f) simp_all

lemma queue_flag_bit_inject [simp]: "queue_flag_bit f = queue_flag_bit g \<longleftrightarrow> f = g"
  by (cases f; cases g; simp)

lemma and_mask_bit: "(w :: u32) AND push_bit n 1 \<noteq> 0 \<longleftrightarrow> n < 32 \<and> bit w n"
proof -
  have "bit (w AND push_bit n 1) k \<longleftrightarrow> k = n \<and> n < 32 \<and> bit w n" for k
    by (auto simp: bit_and_iff bit_exp_iff dest: bit_imp_le_length)
  then show ?thesis by (metis bit_0_eq bot_apply bot_bool_def bit_eqI)
qed

lemma rq_flagged_bit: "rq_flagged r f \<longleftrightarrow> bit (cmd_flags r) (rq_flag_bit f)"
  using rq_flag_bit_less [of f] unfolding rq_flagged_def REQ_def and_mask_bit by blast

lemma bit_REQ: "bit (REQ f) n \<longleftrightarrow> n = rq_flag_bit f"
  using rq_flag_bit_less [of f] by (auto simp: REQ_def bit_simps)

lemma rq_flagged_set [simp]: "rq_flagged (rq_set_flag f r) g \<longleftrightarrow> f = g \<or> rq_flagged r g"
  by (auto simp: rq_flagged_bit rq_set_flag_def bit_or_iff bit_REQ)

lemma rq_flagged_clear [simp]: "rq_flagged (rq_clear_flag f r) g \<longleftrightarrow> f \<noteq> g \<and> rq_flagged r g"
  using rq_flag_bit_less [of g]
  by (auto simp: rq_flagged_bit rq_clear_flag_def bit_and_iff bit_not_iff bit_REQ)

lemma rq_set_flag_fields [simp]:
  "sector (rq_set_flag f r) = sector r" "data_len (rq_set_flag f r) = data_len r"
  "cmd_type (rq_set_flag f r) = cmd_type r" "bios (rq_set_flag f r) = bios r"
  by (simp_all add: rq_set_flag_def)

lemma and_or_zero: "(w :: u32) AND (a OR b) = 0 \<longleftrightarrow> w AND a = 0 \<and> w AND b = 0"
  by (auto simp: bit_eq_iff bit_simps)

lemma rq_mergeable_iff:
  "rq_mergeable r \<longleftrightarrow> \<not> rq_flagged r REQ_NOMERGE \<and> \<not> rq_flagged r REQ_STARTED \<and>
     \<not> rq_flagged r REQ_HARDBARRIER \<and> \<not> rq_flagged r REQ_SOFTBARRIER \<and>
     (blk_discard_rq r \<or> blk_fs_request r)"
  unfolding rq_mergeable_def RQ_NOMERGE_FLAGS_def and_or_zero rq_flagged_def by blast

lemma rq_data_dir_flag: "rq_data_dir r \<longleftrightarrow> rq_flagged r REQ_RW"
  by (simp add: rq_data_dir_def rq_flagged_def REQ_def)

lemma queue_flag_test_set [simp]:
  "queue_flag_test f (queue_flag_set g q) \<longleftrightarrow> f = g \<or> queue_flag_test f q"
  using queue_flag_bit_less [of g]
  by (auto simp: queue_flag_test_def queue_flag_set_def bit_set_bit_iff)

lemma queue_flag_test_clear [simp]:
  "queue_flag_test f (queue_flag_clear g q) \<longleftrightarrow> f \<noteq> g \<and> queue_flag_test f q"
  by (auto simp: queue_flag_test_def queue_flag_clear_def bit_unset_bit_iff)

text \<open>An empty request and an empty bio, from which the examples are built.\<close>

definition rq_zero :: request where
  "rq_zero = \<lparr>cmd_flags = 0, cmd_type = REQ_TYPE_NONE, data_len = 0, sector = 0, bios = [],
     fifo_time = 0, rq_disk = None, nr_phys_segments = 0, ioprio = 0, ref_count = 0,
     special = None, rq_tag = 0, rq_errors = 0, resid_len = 0, end_io = NoEndIo, next_rq = None\<rparr>"

definition bio_zero :: bio where
  "bio_zero = \<lparr>bi_sector = 0, bi_disk = None, bi_flags = 0, bi_rw = 0, bi_vcnt = 0, bi_idx = 0,
     bi_phys_segments = 0, bi_size = 0, bi_seg_front_size = 0, bi_seg_back_size = 0,
     bi_io_vec = [], bi_integrity = False\<rparr>"

definition queue_zero :: "'d \<Rightarrow> 'd request_queue" where
  "queue_zero d = \<lparr>queue_head = [], last_merge = None, elevator_data = d, elv_hash = (\<lambda>_. []),
     rq_count = (\<lambda>_. 0), elvpriv = 0, end_sector = 0, boundary_rq = None, unplug_timer = False,
     unplug_work = False, unplug_thresh = 0, queue_flags = 0, nr_sorted = 0, in_flight = (\<lambda>_. 0),
     ordered = 0, next_ordered = 0, ordseq = 0, orderr = 0, ordcolor = False, orig_bar_rq = None,
     rqs = (\<lambda>_. rq_zero), starved = (\<lambda>_. False), congested = (\<lambda>_. False), wakeups = (\<lambda>_. 0),
     queue_tags = None, tag_busy_list = [], ended_bios = [], prepare_flush_fn = None\<rparr>"

end
