(* ===== verification/Ordered_Seq.thy ===== *)
theory Ordered_Seq
  imports Blk
begin

text \<open>
  The positions of the ordered (barrier) sequence of \<^verbatim>\<open>block/blk-barrier.c\<close>: which step a queue has
  reached and which step a request belongs to. The elevator needs them to requeue and to complete
  requests while a sequence runs; the sequence itself is in the theory \<open>Barrier\<close>.
\<close>

definition QUEUE_ORDSEQ_STARTED :: u32 where "QUEUE_ORDSEQ_STARTED = 0x01"
definition QUEUE_ORDSEQ_DRAIN :: u32 where "QUEUE_ORDSEQ_DRAIN = 0x02"
definition QUEUE_ORDSEQ_PREFLUSH :: u32 where "QUEUE_ORDSEQ_PREFLUSH = 0x04"
definition QUEUE_ORDSEQ_BAR :: u32 where "QUEUE_ORDSEQ_BAR = 0x08"
definition QUEUE_ORDSEQ_POSTFLUSH :: u32 where "QUEUE_ORDSEQ_POSTFLUSH = 0x10"
definition QUEUE_ORDSEQ_DONE :: u32 where "QUEUE_ORDSEQ_DONE = 0x20"

lemmas QUEUE_ORDSEQ_defs =
  QUEUE_ORDSEQ_STARTED_def QUEUE_ORDSEQ_DRAIN_def QUEUE_ORDSEQ_PREFLUSH_def
  QUEUE_ORDSEQ_BAR_def QUEUE_ORDSEQ_POSTFLUSH_def QUEUE_ORDSEQ_DONE_def

text \<open>The number of the lowest zero bit.\<close>

definition ffz :: "u32 \<Rightarrow> nat" where
  "ffz w = length (takeWhile (bit w) [0..<32])"

definition blk_ordered_cur_seq :: "'d request_queue \<Rightarrow> u32" where
  "blk_ordered_cur_seq q =
     (if ordseq q = 0 then 0 else push_bit (ffz (ordseq q)) 1)"

definition blk_ordered_req_seq :: "'d request_queue \<Rightarrow> rqp \<Rightarrow> u32 option" where
  "blk_ordered_req_seq q rq =
     (if ordseq q = 0 then None
      else if rq = PreFlushRq then Some QUEUE_ORDSEQ_PREFLUSH
      else if rq = BarRq then Some QUEUE_ORDSEQ_BAR
      else if rq = PostFlushRq then Some QUEUE_ORDSEQ_POSTFLUSH
      else if \<not> blk_fs_request (rqs q rq) then Some QUEUE_ORDSEQ_DRAIN
      else case orig_bar_rq q of
        None \<Rightarrow> None
      | Some b \<Rightarrow>
          Some (if cmd_flags (rqs q rq) AND REQ REQ_ORDERED_COLOR =
                   cmd_flags (rqs q b) AND REQ REQ_ORDERED_COLOR
                then QUEUE_ORDSEQ_DRAIN else QUEUE_ORDSEQ_DONE))"

end
