(* ===== verification/Elevator.thy ===== *)
theory Elevator
  imports Ordered_Seq
begin

text \<open>
  The elevator core of \<^verbatim>\<open>block/elevator.c\<close>: the hash that finds back merges, the sorted insertion
  into the dispatch list, the merge decisions, the four insertion points, requeueing and draining;
  with the plugging functions of \<^verbatim>\<open>block/blk-core.c\<close> that it calls. The operations of the attached
  I/O scheduler are the argument \<open>ops\<close>, as \<^verbatim>\<open>q->elevator->ops\<close> is in the code; the driver's
  \<^verbatim>\<open>request_fn\<close> is the argument \<open>request_fn\<close>.
\<close>

section \<open>The merge hash\<close>

definition GOLDEN_RATIO_PRIME_32 :: u32 where "GOLDEN_RATIO_PRIME_32 = 0x9e370001"

definition hash_32 :: "u32 \<Rightarrow> nat \<Rightarrow> u32" where
  "hash_32 val bits = drop_bit (32 - bits) (val * GOLDEN_RATIO_PRIME_32)"

definition elv_hash_shift :: nat where "elv_hash_shift = 6"

definition ELV_HASH_BLOCK :: "sector_t \<Rightarrow> sector_t" where
  "ELV_HASH_BLOCK sec = drop_bit 3 sec"

definition ELV_HASH_FN :: "sector_t \<Rightarrow> nat" where
  "ELV_HASH_FN sec = unat (hash_32 (ucast (ELV_HASH_BLOCK sec)) elv_hash_shift)"

definition ELV_HASH_ENTRIES :: nat where "ELV_HASH_ENTRIES = 2 ^ elv_hash_shift"

definition rq_hash_key :: "request \<Rightarrow> sector_t" where
  "rq_hash_key r = blk_rq_pos r + ucast (blk_rq_sectors r)"

definition ELV_ON_HASH :: "'d request_queue \<Rightarrow> rqp \<Rightarrow> bool" where
  "ELV_ON_HASH q rq = list_ex (\<lambda>i. rq \<in> set (elv_hash q i)) [0..<ELV_HASH_ENTRIES]"

text \<open>\<^verbatim>\<open>__elv_rqhash_del\<close>: \<^verbatim>\<open>hlist_del_init\<close> of the hash node, whatever bucket it is in.\<close>

definition elv_rqhash_unlink :: "'d request_queue \<Rightarrow> rqp \<Rightarrow> 'd request_queue" where
  "elv_rqhash_unlink q rq = q\<lparr>elv_hash := (\<lambda>i. removeAll rq (elv_hash q i))\<rparr>"

definition elv_rqhash_del :: "'d request_queue \<Rightarrow> rqp \<Rightarrow> 'd request_queue" where
  "elv_rqhash_del q rq = (if ELV_ON_HASH q rq then elv_rqhash_unlink q rq else q)"

definition elv_rqhash_add :: "'d request_queue \<Rightarrow> rqp \<Rightarrow> 'd request_queue option" where
  "elv_rqhash_add q rq =
     (if ELV_ON_HASH q rq then None
      else let i = ELV_HASH_FN (rq_hash_key (rqs q rq))
           in Some (q\<lparr>elv_hash := (elv_hash q)(i := rq # elv_hash q i)\<rparr>))"

definition elv_rqhash_reposition :: "'d request_queue \<Rightarrow> rqp \<Rightarrow> 'd request_queue option" where
  "elv_rqhash_reposition q rq = elv_rqhash_add (elv_rqhash_unlink q rq) rq"

fun elv_rqhash_scan ::
    "sector_t \<Rightarrow> rqp list \<Rightarrow> 'd request_queue \<Rightarrow> (rqp option \<times> 'd request_queue) option" where
  "elv_rqhash_scan offset [] q = Some (None, q)"
| "elv_rqhash_scan offset (rq # rest) q =
     (if \<not> ELV_ON_HASH q rq then None
      else if \<not> rq_mergeable (rqs q rq)
        then elv_rqhash_scan offset rest (elv_rqhash_unlink q rq)
      else if rq_hash_key (rqs q rq) = offset then Some (Some rq, q)
      else elv_rqhash_scan offset rest q)"

definition elv_rqhash_find ::
    "'d request_queue \<Rightarrow> sector_t \<Rightarrow> (rqp option \<times> 'd request_queue) option" where
  "elv_rqhash_find q offset = elv_rqhash_scan offset (elv_hash q (ELV_HASH_FN offset)) q"

section \<open>Merge decisions\<close>

definition elv_iosched_allow_merge ::
    "'d elevator_ops \<Rightarrow> 'd request_queue \<Rightarrow> rqp \<Rightarrow> bio \<Rightarrow> bool" where
  "elv_iosched_allow_merge ops q rq b =
     (case elevator_allow_merge_fn ops of Some f \<Rightarrow> f q rq b | None \<Rightarrow> True)"

definition elv_rq_merge_ok ::
    "'d elevator_ops \<Rightarrow> 'd request_queue \<Rightarrow> rqp \<Rightarrow> bio \<Rightarrow> bool option" where
  "elv_rq_merge_ok ops q rq b =
     (let r = rqs q rq
      in if \<not> rq_mergeable r then Some False
         else case bios r of
           [] \<Rightarrow> None
         | rb # _ \<Rightarrow>
             Some (if bio_rw_flagged b BIO_RW_DISCARD \<noteq> bio_rw_flagged rb BIO_RW_DISCARD then False
                   else if bio_data_dir b \<noteq> rq_data_dir r then False
                   else if rq_disk r \<noteq> bi_disk b \<or> special r \<noteq> None then False
                   else if bi_integrity b \<noteq> blk_integrity_rq r then False
                   else if \<not> elv_iosched_allow_merge ops q rq b then False
                   else True))"

definition elv_try_merge ::
    "'d elevator_ops \<Rightarrow> 'd request_queue \<Rightarrow> rqp \<Rightarrow> bio \<Rightarrow> elv_merge_ret option" where
  "elv_try_merge ops q rq b = do {
     ok \<leftarrow> elv_rq_merge_ok ops q rq b;
     Some (if ok then
             (let r = rqs q rq
              in if blk_rq_pos r + ucast (blk_rq_sectors r) = bi_sector b then ELEVATOR_BACK_MERGE
                 else if blk_rq_pos r - ucast (bio_sectors b) = bi_sector b then ELEVATOR_FRONT_MERGE
                 else ELEVATOR_NO_MERGE)
           else ELEVATOR_NO_MERGE)
   }"

text \<open>The part of \<^verbatim>\<open>elv_merge\<close> behind the one-hit cache: the hash, then the scheduler.\<close>

definition elv_merge_lookup ::
    "'d elevator_ops \<Rightarrow> 'd request_queue \<Rightarrow> bio \<Rightarrow>
     (elv_merge_ret \<times> rqp option \<times> 'd request_queue) option" where
  "elv_merge_lookup ops q b =
     (if blk_queue_noxmerges q then Some (ELEVATOR_NO_MERGE, None, q)
      else do {
        (found, q) \<leftarrow> elv_rqhash_find q (bi_sector b);
        ok \<leftarrow> (case found of None \<Rightarrow> Some False | Some rq \<Rightarrow> elv_rq_merge_ok ops q rq b);
        if ok then Some (ELEVATOR_BACK_MERGE, found, q)
        else case elevator_merge_fn ops of
          Some f \<Rightarrow> do { (ret, req) \<leftarrow> f q b; Some (ret, req, q) }
        | None \<Rightarrow> Some (ELEVATOR_NO_MERGE, None, q)
      })"

definition elv_merge ::
    "'d elevator_ops \<Rightarrow> 'd request_queue \<Rightarrow> bio \<Rightarrow>
     (elv_merge_ret \<times> rqp option \<times> 'd request_queue) option" where
  "elv_merge ops q b =
     (if blk_queue_nomerges q then Some (ELEVATOR_NO_MERGE, None, q)
      else case last_merge q of
        Some rq \<Rightarrow> do {
          ret \<leftarrow> elv_try_merge ops q rq b;
          if ret \<noteq> ELEVATOR_NO_MERGE then Some (ret, Some rq, q)
          else elv_merge_lookup ops q b
        }
      | None \<Rightarrow> elv_merge_lookup ops q b)"

definition elv_merged_request ::
    "'d elevator_ops \<Rightarrow> 'd request_queue \<Rightarrow> rqp \<Rightarrow> elv_merge_ret \<Rightarrow> 'd request_queue option" where
  "elv_merged_request ops q rq type = do {
     q \<leftarrow> (case elevator_merged_fn ops of Some f \<Rightarrow> f q rq type | None \<Rightarrow> Some q);
     q \<leftarrow> (if type = ELEVATOR_BACK_MERGE then elv_rqhash_reposition q rq else Some q);
     Some (q\<lparr>last_merge := Some rq\<rparr>)
   }"

definition elv_merge_requests ::
    "'d elevator_ops \<Rightarrow> 'd request_queue \<Rightarrow> rqp \<Rightarrow> rqp \<Rightarrow> 'd request_queue option" where
  "elv_merge_requests ops q rq nxt = do {
     q \<leftarrow> (case elevator_merge_req_fn ops of Some f \<Rightarrow> f q rq nxt | None \<Rightarrow> Some q);
     q \<leftarrow> elv_rqhash_reposition q rq;
     let q = elv_rqhash_del q nxt;
     Some (q\<lparr>nr_sorted := nr_sorted q - 1, last_merge := Some rq\<rparr>)
   }"

section \<open>Dispatch\<close>

definition forget_last_merge :: "'d request_queue \<Rightarrow> rqp \<Rightarrow> 'd request_queue" where
  "forget_last_merge q rq = (if last_merge q = Some rq then q\<lparr>last_merge := None\<rparr> else q)"

text \<open>
  The body of the backward loop of \<^verbatim>\<open>elv_dispatch_sort\<close>: whether the scan breaks at the entry
  \<open>pos\<close>, behind which the request then goes.
\<close>

definition dispatch_sort_break :: "sector_t \<Rightarrow> request \<Rightarrow> request \<Rightarrow> bool" where
  "dispatch_sort_break boundary rq pos =
     (if blk_discard_rq rq \<noteq> blk_discard_rq pos then True
      else if rq_data_dir rq \<noteq> rq_data_dir pos then True
      else if cmd_flags pos AND
              (REQ REQ_SOFTBARRIER OR REQ REQ_HARDBARRIER OR REQ REQ_STARTED) \<noteq> 0 then True
      else if blk_rq_pos rq \<ge> boundary \<and> blk_rq_pos pos < boundary then False
      else if \<not> blk_rq_pos rq \<ge> boundary \<and> blk_rq_pos pos \<ge> boundary then True
      else blk_rq_pos rq \<ge> blk_rq_pos pos)"

definition elv_dispatch_sort :: "'d request_queue \<Rightarrow> rqp \<Rightarrow> 'd request_queue" where
  "elv_dispatch_sort q rq =
     (let q = forget_last_merge q rq;
          q = elv_rqhash_del q rq;
          q = q\<lparr>nr_sorted := nr_sorted q - 1\<rparr>;
          passed = (\<lambda>pos. \<not> dispatch_sort_break (end_sector q) (rqs q rq) (rqs q pos));
          back = rev (queue_head q)
      in q\<lparr>queue_head := rev (dropWhile passed back) @ rq # rev (takeWhile passed back)\<rparr>)"

definition elv_dispatch_add_tail :: "'d request_queue \<Rightarrow> rqp \<Rightarrow> 'd request_queue" where
  "elv_dispatch_add_tail q rq =
     (let q = forget_last_merge q rq;
          q = elv_rqhash_del q rq;
          q = q\<lparr>nr_sorted := nr_sorted q - 1\<rparr>;
          q = q\<lparr>end_sector := rq_end_sector (rqs q rq)\<rparr>;
          q = q\<lparr>boundary_rq := Some rq\<rparr>
      in q\<lparr>queue_head := queue_head q @ [rq]\<rparr>)"

text \<open>
  The loop of \<^verbatim>\<open>elv_drain_elevator\<close>, which runs as long as the scheduler hands out requests; the
  message it may print when \<^verbatim>\<open>nr_sorted\<close> is not 0 afterwards is left out.
\<close>

partial_function (option) elv_drain_elevator ::
    "'d elevator_ops \<Rightarrow> 'd request_queue \<Rightarrow> 'd request_queue option" where
  "elv_drain_elevator ops q =
     Option.bind (elevator_dispatch_fn ops q True)
       (\<lambda>(more, q). if more then elv_drain_elevator ops q else Some q)"

section \<open>Plugging and running a queue\<close>

definition elv_queue_empty :: "'d elevator_ops \<Rightarrow> 'd request_queue \<Rightarrow> bool" where
  "elv_queue_empty ops q =
     (if queue_head q \<noteq> [] then False
      else case elevator_queue_empty_fn ops of Some f \<Rightarrow> f q | None \<Rightarrow> True)"

definition blk_plug_device :: "'d request_queue \<Rightarrow> 'd request_queue" where
  "blk_plug_device q =
     (if blk_queue_stopped q then q
      else case queue_flag_test_and_set QUEUE_FLAG_PLUGGED q of
        (was, q) \<Rightarrow> if \<not> was then q\<lparr>unplug_timer := True\<rparr> else q)"

definition blk_remove_plug :: "'d request_queue \<Rightarrow> bool \<times> 'd request_queue" where
  "blk_remove_plug q =
     (case queue_flag_test_and_clear QUEUE_FLAG_PLUGGED q of
        (was, q) \<Rightarrow> if \<not> was then (False, q) else (True, q\<lparr>unplug_timer := False\<rparr>))"

text \<open>\<^verbatim>\<open>__generic_unplug_device\<close>\<close>

definition generic_unplug_device_locked ::
    "('d request_queue \<Rightarrow> 'd request_queue option) \<Rightarrow> 'd request_queue \<Rightarrow> 'd request_queue option" where
  "generic_unplug_device_locked request_fn q =
     (if blk_queue_stopped q then Some q
      else case blk_remove_plug q of
        (removed, q) \<Rightarrow> if \<not> removed \<and> \<not> blk_queue_nonrot q then Some q else request_fn q)"

definition generic_unplug_device ::
    "('d request_queue \<Rightarrow> 'd request_queue option) \<Rightarrow> 'd request_queue \<Rightarrow> 'd request_queue option" where
  "generic_unplug_device request_fn q =
     (if blk_queue_plugged q then generic_unplug_device_locked request_fn q else Some q)"

text \<open>\<^verbatim>\<open>__blk_run_queue\<close>\<close>

definition blk_run_queue ::
    "'d elevator_ops \<Rightarrow> ('d request_queue \<Rightarrow> 'd request_queue option) \<Rightarrow>
     'd request_queue \<Rightarrow> 'd request_queue option" where
  "blk_run_queue ops request_fn q =
     (let q = snd (blk_remove_plug q)
      in if blk_queue_stopped q then Some q
         else if elv_queue_empty ops q then Some q
         else case queue_flag_test_and_set QUEUE_FLAG_REENTER q of
           (was, q) \<Rightarrow>
             if \<not> was then do {
               q \<leftarrow> request_fn q;
               Some (queue_flag_clear QUEUE_FLAG_REENTER q)
             } else Some ((queue_flag_set QUEUE_FLAG_PLUGGED q)\<lparr>unplug_work := True\<rparr>))"

definition blk_start_queue ::
    "'d elevator_ops \<Rightarrow> ('d request_queue \<Rightarrow> 'd request_queue option) \<Rightarrow>
     'd request_queue \<Rightarrow> 'd request_queue option" where
  "blk_start_queue ops request_fn q =
     blk_run_queue ops request_fn (queue_flag_clear QUEUE_FLAG_STOPPED q)"

definition blk_stop_queue :: "'d request_queue \<Rightarrow> 'd request_queue" where
  "blk_stop_queue q = queue_flag_set QUEUE_FLAG_STOPPED (snd (blk_remove_plug q))"

section \<open>Insertion\<close>

datatype elv_where =
    ELEVATOR_INSERT_FRONT | ELEVATOR_INSERT_BACK | ELEVATOR_INSERT_SORT | ELEVATOR_INSERT_REQUEUE

text \<open>
  The forward loop of the requeue case: the request goes before the first entry whose place in
  the ordered sequence is not earlier than its own.
\<close>

fun requeue_in_seq ::
    "'d request_queue \<Rightarrow> rqp \<Rightarrow> u32 \<Rightarrow> rqp list \<Rightarrow> rqp list option" where
  "requeue_in_seq q rq seq [] = Some [rq]"
| "requeue_in_seq q rq seq (pos # rest) = do {
     pseq \<leftarrow> blk_ordered_req_seq q pos;
     if seq \<le> pseq then Some (rq # pos # rest)
     else do { rest \<leftarrow> requeue_in_seq q rq seq rest; Some (pos # rest) }
   }"

definition elv_insert_at ::
    "'d elevator_ops \<Rightarrow> ('d request_queue \<Rightarrow> 'd request_queue option) \<Rightarrow>
     'd request_queue \<Rightarrow> rqp \<Rightarrow> elv_where \<Rightarrow> 'd request_queue option" where
  "elv_insert_at ops request_fn q rq w =
     (case w of
        ELEVATOR_INSERT_FRONT \<Rightarrow>
          (let q = rq_upd rq (rq_set_flag REQ_SOFTBARRIER) q
           in Some (q\<lparr>queue_head := rq # queue_head q\<rparr>))
      | ELEVATOR_INSERT_BACK \<Rightarrow> do {
          let q = rq_upd rq (rq_set_flag REQ_SOFTBARRIER) q;
          q \<leftarrow> elv_drain_elevator ops q;
          blk_run_queue ops request_fn (q\<lparr>queue_head := queue_head q @ [rq]\<rparr>)
        }
      | ELEVATOR_INSERT_SORT \<Rightarrow>
          (if \<not> blk_fs_request (rqs q rq) \<and> \<not> blk_discard_rq (rqs q rq) then None
           else do {
             let q = rq_upd rq (rq_set_flag REQ_SORTED) q;
             let q = q\<lparr>nr_sorted := nr_sorted q + 1\<rparr>;
             q \<leftarrow> (if rq_mergeable (rqs q rq) then do {
                    q \<leftarrow> elv_rqhash_add q rq;
                    Some (if last_merge q = None then q\<lparr>last_merge := Some rq\<rparr> else q)
                  } else Some q);
             elevator_add_req_fn ops q rq
           })
      | ELEVATOR_INSERT_REQUEUE \<Rightarrow>
          (let q = rq_upd rq (rq_set_flag REQ_SOFTBARRIER) q
           in if ordseq q = 0 then Some (q\<lparr>queue_head := rq # queue_head q\<rparr>)
              else do {
                seq \<leftarrow> blk_ordered_req_seq q rq;
                qh \<leftarrow> requeue_in_seq q rq seq (queue_head q);
                Some (q\<lparr>queue_head := qh\<rparr>)
              }))"

definition elv_insert ::
    "'d elevator_ops \<Rightarrow> ('d request_queue \<Rightarrow> 'd request_queue option) \<Rightarrow>
     'd request_queue \<Rightarrow> rqp \<Rightarrow> elv_where \<Rightarrow> 'd request_queue option" where
  "elv_insert ops request_fn q rq w = do {
     let unplug_it = (w \<noteq> ELEVATOR_INSERT_REQUEUE);
     q \<leftarrow> elv_insert_at ops request_fn q rq w;
     if unplug_it \<and> blk_queue_plugged q then
       (let nrq = rq_count q True + rq_count q False - sint (queue_in_flight q)
        in if nrq \<ge> unplug_thresh q then generic_unplug_device_locked request_fn q else Some q)
     else Some q
   }"

text \<open>\<^verbatim>\<open>__elv_add_request\<close>\<close>

definition elv_add_request ::
    "'d elevator_ops \<Rightarrow> ('d request_queue \<Rightarrow> 'd request_queue option) \<Rightarrow>
     'd request_queue \<Rightarrow> rqp \<Rightarrow> elv_where \<Rightarrow> bool \<Rightarrow> 'd request_queue option" where
  "elv_add_request ops request_fn q rq w plug =
     (let q = (if ordcolor q then rq_upd rq (rq_set_flag REQ_ORDERED_COLOR) q else q);
          (q, w) =
            (if cmd_flags (rqs q rq) AND (REQ REQ_SOFTBARRIER OR REQ REQ_HARDBARRIER) \<noteq> 0 then
               (let q = (if blk_barrier_rq (rqs q rq) then q\<lparr>ordcolor := \<not> ordcolor q\<rparr> else q);
                    w = (if w = ELEVATOR_INSERT_SORT then ELEVATOR_INSERT_BACK else w);
                    q = (if blk_fs_request (rqs q rq) \<or> blk_discard_rq (rqs q rq)
                         then q\<lparr>end_sector := rq_end_sector (rqs q rq), boundary_rq := Some rq\<rparr>
                         else q)
                in (q, w))
             else if cmd_flags (rqs q rq) AND REQ REQ_ELVPRIV = 0 \<and> w = ELEVATOR_INSERT_SORT
               then (q, ELEVATOR_INSERT_BACK)
             else (q, w));
          q = (if plug then blk_plug_device q else q)
      in elv_insert ops request_fn q rq w)"

definition elv_deactivate_rq :: "'d elevator_ops \<Rightarrow> 'd request_queue \<Rightarrow> rqp \<Rightarrow> 'd request_queue" where
  "elv_deactivate_rq ops q rq =
     (case elevator_deactivate_req_fn ops of Some f \<Rightarrow> f q rq | None \<Rightarrow> q)"

definition elv_activate_rq :: "'d elevator_ops \<Rightarrow> 'd request_queue \<Rightarrow> rqp \<Rightarrow> 'd request_queue" where
  "elv_activate_rq ops q rq =
     (case elevator_activate_req_fn ops of Some f \<Rightarrow> f q rq | None \<Rightarrow> q)"

definition elv_requeue_request ::
    "'d elevator_ops \<Rightarrow> ('d request_queue \<Rightarrow> 'd request_queue option) \<Rightarrow>
     'd request_queue \<Rightarrow> rqp \<Rightarrow> 'd request_queue option" where
  "elv_requeue_request ops request_fn q rq =
     (let r = rqs q rq;
          q = (if blk_account_rq r then
                 (let q = q\<lparr>in_flight := (in_flight q)(rq_is_sync r := in_flight q (rq_is_sync r) - 1)\<rparr>
                  in if blk_sorted_rq r then elv_deactivate_rq ops q rq else q)
               else q);
          q = rq_upd rq (rq_clear_flag REQ_STARTED) q
      in elv_insert ops request_fn q rq ELEVATOR_INSERT_REQUEUE)"

section \<open>Queries passed on to the scheduler\<close>

definition elv_latter_request :: "'d elevator_ops \<Rightarrow> 'd request_queue \<Rightarrow> rqp \<Rightarrow> rqp option option" where
  "elv_latter_request ops q rq =
     (case elevator_latter_req_fn ops of Some f \<Rightarrow> f q rq | None \<Rightarrow> Some None)"

definition elv_former_request :: "'d elevator_ops \<Rightarrow> 'd request_queue \<Rightarrow> rqp \<Rightarrow> rqp option option" where
  "elv_former_request ops q rq =
     (case elevator_former_req_fn ops of Some f \<Rightarrow> f q rq | None \<Rightarrow> Some None)"

definition elv_set_request :: "'d elevator_ops \<Rightarrow> 'd request_queue \<Rightarrow> rqp \<Rightarrow> int \<times> 'd request_queue" where
  "elv_set_request ops q rq =
     (case elevator_set_req_fn ops of Some f \<Rightarrow> f q rq | None \<Rightarrow> (0, q))"

definition elv_put_request :: "'d elevator_ops \<Rightarrow> 'd request_queue \<Rightarrow> rqp \<Rightarrow> 'd request_queue" where
  "elv_put_request ops q rq =
     (case elevator_put_req_fn ops of Some f \<Rightarrow> f q rq | None \<Rightarrow> q)"

definition elv_may_queue :: "'d elevator_ops \<Rightarrow> 'd request_queue \<Rightarrow> u32 \<Rightarrow> elv_mqueue" where
  "elv_may_queue ops q rw =
     (case elevator_may_queue_fn ops of Some f \<Rightarrow> f q rw | None \<Rightarrow> ELV_MQUEUE_MAY)"

section \<open>The hash keeps its shape\<close>

lemma ELV_HASH_FN_less: "ELV_HASH_FN sec < ELV_HASH_ENTRIES"
proof -
  have "unat (drop_bit 26 (w :: u32)) < 64" for w
  proof -
    have "unat (drop_bit 26 w) = unat w div 2 ^ 26" 
      unfolding unat_drop_bit_eq by (rule drop_bit_eq_div)
    moreover have "unat w < 2 ^ 32" using unsigned_less [of w] by simp
    ultimately show ?thesis by simp
  qed
  then show ?thesis
    by (simp add: ELV_HASH_FN_def hash_32_def elv_hash_shift_def ELV_HASH_ENTRIES_def)
qed

text \<open>
  Every hashed request is in the bucket of its end sector, once. In \<open>elv_hash_ok_but\<close> one request
  may be in a stale bucket, as it is between growing at its end and being repositioned.
\<close>

definition elv_hash_ok_but :: "rqp set \<Rightarrow> 'd request_queue \<Rightarrow> bool" where
  "elv_hash_ok_but X q \<longleftrightarrow>
     (\<forall>i. distinct (elv_hash q i) \<and>
          (\<forall>rq \<in> set (elv_hash q i). i < ELV_HASH_ENTRIES \<and>
             (rq \<notin> X \<longrightarrow> i = ELV_HASH_FN (rq_hash_key (rqs q rq)))))"

abbreviation elv_hash_ok :: "'d request_queue \<Rightarrow> bool" where
  "elv_hash_ok \<equiv> elv_hash_ok_but {}"

definition hashed :: "'d request_queue \<Rightarrow> rqp set" where
  "hashed q = (\<Union>i \<in> {..<ELV_HASH_ENTRIES}. set (elv_hash q i))"

lemma ELV_ON_HASH_iff: "ELV_ON_HASH q rq \<longleftrightarrow> rq \<in> hashed q"
  by (auto simp: ELV_ON_HASH_def hashed_def list_ex_iff)

lemma hashed_bucket:
  "elv_hash_ok q \<Longrightarrow> rq \<in> hashed q \<longleftrightarrow> rq \<in> set (elv_hash q (ELV_HASH_FN (rq_hash_key (rqs q rq))))"
  using ELV_HASH_FN_less by (auto simp: elv_hash_ok_but_def hashed_def)

lemma hashed_unlink [simp]: "hashed (elv_rqhash_unlink q rq) = hashed q - {rq}"
  by (auto simp: hashed_def elv_rqhash_unlink_def)

lemma unlink_fields [elv_frame]:
  "queue_head (elv_rqhash_unlink q rq) = queue_head q"
  "elevator_data (elv_rqhash_unlink q rq) = elevator_data q"
  "rqs (elv_rqhash_unlink q rq) = rqs q"
  "nr_sorted (elv_rqhash_unlink q rq) = nr_sorted q"
  "end_sector (elv_rqhash_unlink q rq) = end_sector q"
  "last_merge (elv_rqhash_unlink q rq) = last_merge q"
  by (simp_all add: elv_rqhash_unlink_def)

lemma rqhash_del_fields [elv_frame]:
  "queue_head (elv_rqhash_del q rq) = queue_head q"
  "elevator_data (elv_rqhash_del q rq) = elevator_data q"
  "rqs (elv_rqhash_del q rq) = rqs q"
  "nr_sorted (elv_rqhash_del q rq) = nr_sorted q"
  "end_sector (elv_rqhash_del q rq) = end_sector q"
  "last_merge (elv_rqhash_del q rq) = last_merge q"
  by (simp_all add: elv_rqhash_del_def elv_frame)

lemma unlink_ok: "elv_hash_ok_but (insert rq X) q \<Longrightarrow> elv_hash_ok_but X (elv_rqhash_unlink q rq)"
  by (auto simp: elv_hash_ok_but_def elv_rqhash_unlink_def distinct_removeAll)

lemma hash_ok_but_mono: "elv_hash_ok_but X q \<Longrightarrow> X \<subseteq> Y \<Longrightarrow> elv_hash_ok_but Y q"
  unfolding elv_hash_ok_but_def by blast

lemma rqhash_del_ok: "elv_hash_ok_but X q \<Longrightarrow> elv_hash_ok_but X (elv_rqhash_del q rq)"
  using unlink_ok [of rq X q] hash_ok_but_mono [of X q "insert rq X"]
  by (auto simp: elv_rqhash_del_def)

lemma hashed_del [simp]: "hashed (elv_rqhash_del q rq) = hashed q - {rq}"
  by (auto simp: elv_rqhash_del_def ELV_ON_HASH_iff)

lemma rqhash_add_spec:
  assumes "elv_hash_ok_but X q" "rq \<notin> hashed q"
  shows "\<exists>q'. elv_rqhash_add q rq = Some q' \<and> elv_hash_ok_but X q' \<and>
              hashed q' = insert rq (hashed q) \<and> q' = q\<lparr>elv_hash := elv_hash q'\<rparr>"
proof -
  let ?i = "ELV_HASH_FN (rq_hash_key (rqs q rq))"
  let ?q = "q\<lparr>elv_hash := (elv_hash q)(?i := rq # elv_hash q ?i)\<rparr>"
  have i: "?i < ELV_HASH_ENTRIES" by (rule ELV_HASH_FN_less)
  have fresh: "rq \<notin> set (elv_hash q ?i)" using assms(2) i by (auto simp: hashed_def)
  have "elv_rqhash_add q rq = Some ?q"
    using assms(2) by (simp add: elv_rqhash_add_def ELV_ON_HASH_iff Let_def)
  moreover have "elv_hash_ok_but X ?q"
    using assms(1) i fresh unfolding elv_hash_ok_but_def by auto
  moreover have "hashed ?q = insert rq (hashed q)"
    using i by (auto simp: hashed_def split: if_splits)
  ultimately show ?thesis by auto
qed

lemma rqhash_reposition_spec:
  assumes "elv_hash_ok_but (insert rq X) q"
  shows "\<exists>q'. elv_rqhash_reposition q rq = Some q' \<and> elv_hash_ok_but X q' \<and>
              hashed q' = insert rq (hashed q) \<and> q' = q\<lparr>elv_hash := elv_hash q'\<rparr>"
proof -
  obtain q' where "elv_rqhash_reposition q rq = Some q'" "elv_hash_ok_but X q'"
      "hashed q' = insert rq (hashed q - {rq})"
      "q' = (elv_rqhash_unlink q rq)\<lparr>elv_hash := elv_hash q'\<rparr>"
    using rqhash_add_spec [OF unlink_ok [OF assms], of rq] by (auto simp: elv_rqhash_reposition_def)
  then show ?thesis by (simp add: elv_rqhash_unlink_def)
qed

text \<open>
  A lookup returns the first mergeable request of the bucket with the wanted end sector, and takes
  the requests that can no longer be merged off the hash on its way.
\<close>

lemma rqhash_scan_spec:
  assumes "set xs \<subseteq> hashed q" "distinct xs"
  shows "\<exists>r q'. elv_rqhash_scan off xs q = Some (r, q') \<and> q' = q\<lparr>elv_hash := elv_hash q'\<rparr> \<and>
     r = List.find (\<lambda>rq. rq_mergeable (rqs q rq) \<and> rq_hash_key (rqs q rq) = off) xs \<and>
     (\<forall>X. elv_hash_ok_but X q \<longrightarrow> elv_hash_ok_but X q') \<and>
     hashed q' \<subseteq> hashed q \<and> (\<forall>p \<in> hashed q - hashed q'. \<not> rq_mergeable (rqs q p))"
  using assms
proof (induction xs arbitrary: q)
  case (Cons x xs)
  have on: "ELV_ON_HASH q x" using Cons.prems(1) by (simp add: ELV_ON_HASH_iff)
  show ?case
  proof (cases "rq_mergeable (rqs q x)")
    case True
    then show ?thesis using on Cons.IH [of q] Cons.prems by auto
  next
    case False
    let ?u = "elv_rqhash_unlink q x"
    have "set xs \<subseteq> hashed ?u" "distinct xs" using Cons.prems by auto
    from Cons.IH [OF this] obtain r q' where q':
        "elv_rqhash_scan off xs ?u = Some (r, q')" "q' = ?u\<lparr>elv_hash := elv_hash q'\<rparr>"
        "r = List.find (\<lambda>rq. rq_mergeable (rqs q rq) \<and> rq_hash_key (rqs q rq) = off) xs"
        "\<And>X. elv_hash_ok_but X ?u \<Longrightarrow> elv_hash_ok_but X q'"
        "hashed q' \<subseteq> hashed q - {x}"
        "\<forall>p \<in> hashed q - {x} - hashed q'. \<not> rq_mergeable (rqs q p)"
      by (auto simp: elv_frame)
    have "elv_hash_ok_but X q'" if "elv_hash_ok_but X q" for X
      using q'(4) rqhash_del_ok [OF that, of x] on by (simp add: elv_rqhash_del_def)
    moreover have "q' = q\<lparr>elv_hash := elv_hash q'\<rparr>"
      using q'(2) by (simp add: elv_rqhash_unlink_def)
    ultimately show ?thesis using q'(1,3,5,6) on False by auto
  qed
qed simp

lemma rqhash_find_spec:
  assumes "elv_hash_ok q"
  shows "\<exists>r q'. elv_rqhash_find q off = Some (r, q') \<and> q' = q\<lparr>elv_hash := elv_hash q'\<rparr> \<and>
     elv_hash_ok q' \<and> hashed q' \<subseteq> hashed q \<and>
     (\<forall>p \<in> hashed q - hashed q'. \<not> rq_mergeable (rqs q p)) \<and>
     (case r of
        Some rq \<Rightarrow> rq \<in> hashed q \<and> rq_mergeable (rqs q rq) \<and> rq_hash_key (rqs q rq) = off
      | None \<Rightarrow> \<forall>rq \<in> hashed q. rq_mergeable (rqs q rq) \<longrightarrow> rq_hash_key (rqs q rq) \<noteq> off)"
proof -
  let ?xs = "elv_hash q (ELV_HASH_FN off)"
  let ?P = "\<lambda>rq. rq_mergeable (rqs q rq) \<and> rq_hash_key (rqs q rq) = off"
  have sub: "set ?xs \<subseteq> hashed q" using ELV_HASH_FN_less [of off] by (auto simp: hashed_def)
  have "distinct ?xs" using assms by (simp add: elv_hash_ok_but_def)
  from rqhash_scan_spec [OF sub this, of off] obtain q' where q':
      "elv_rqhash_find q off = Some (List.find ?P ?xs, q')" "q' = q\<lparr>elv_hash := elv_hash q'\<rparr>"
      "elv_hash_ok q'" "hashed q' \<subseteq> hashed q" "\<forall>p \<in> hashed q - hashed q'. \<not> rq_mergeable (rqs q p)"
    using assms by (auto simp: elv_rqhash_find_def)
  have "case List.find ?P ?xs of
        Some rq \<Rightarrow> rq \<in> hashed q \<and> ?P rq
      | None \<Rightarrow> \<forall>rq \<in> hashed q. rq_mergeable (rqs q rq) \<longrightarrow> rq_hash_key (rqs q rq) \<noteq> off"
  proof (cases "List.find ?P ?xs")
    case None
    then have "\<forall>rq \<in> hashed q. rq_mergeable (rqs q rq) \<longrightarrow> rq_hash_key (rqs q rq) \<noteq> off"
      using hashed_bucket [OF assms] by (auto simp: find_None_iff)
    then show ?thesis by (simp add: None)
  next
    case (Some rq)
    then have "rq \<in> set ?xs \<and> ?P rq" by (metis (mono_tags, lifting) find_Some_iff nth_mem)
    then show ?thesis using Some sub by auto
  qed
  then show ?thesis using q' by blast
qed

section \<open>Sorted insertion into the dispatch list\<close>

text \<open>
  Two requests are compared only when they have the same direction and kind and the listed one is
  not a barrier or started. The comparison with the boundary is the order of the distances from
  it, measured upwards and around the end of the 64-bit sector space.
\<close>

definition sort_stops_at :: "request \<Rightarrow> request \<Rightarrow> bool" where
  "sort_stops_at rq pos \<longleftrightarrow>
     blk_discard_rq rq \<noteq> blk_discard_rq pos \<or> rq_data_dir rq \<noteq> rq_data_dir pos \<or>
     rq_flagged pos REQ_SOFTBARRIER \<or> rq_flagged pos REQ_HARDBARRIER \<or> rq_flagged pos REQ_STARTED"

definition sweep_dist :: "sector_t \<Rightarrow> request \<Rightarrow> sector_t" where
  "sweep_dist boundary r = blk_rq_pos r - boundary"

lemma cyclic_order:
  fixes a b c :: "'a::len word"
  shows "(if a \<ge> c \<and> b < c then False else if \<not> a \<ge> c \<and> b \<ge> c then True else a \<ge> b) \<longleftrightarrow> b - c \<le> a - c"
proof -
  have ints: "(if C \<le> A \<and> B < C then False else if \<not> C \<le> A \<and> C \<le> B then True else B \<le> A) \<longleftrightarrow>
      (if C \<le> B then B - C else B - C + N) \<le> (if C \<le> A then A - C else A - C + N)"
    if "0 \<le> A" "A < N" "0 \<le> B" "B < N" "0 \<le> C" "C < N" for A B C N :: int
    using that by auto
  show ?thesis
    unfolding word_le_def word_less_def uint_sub_if'
    by (rule ints) simp_all
qed

lemma dispatch_sort_break_iff:
  "dispatch_sort_break boundary rq pos \<longleftrightarrow>
     sort_stops_at rq pos \<or> sweep_dist boundary pos \<le> sweep_dist boundary rq"
proof -
  have "cmd_flags pos AND (REQ REQ_SOFTBARRIER OR REQ REQ_HARDBARRIER OR REQ REQ_STARTED) \<noteq> 0 \<longleftrightarrow>
        rq_flagged pos REQ_SOFTBARRIER \<or> rq_flagged pos REQ_HARDBARRIER \<or> rq_flagged pos REQ_STARTED"
    by (auto simp: rq_flagged_def and_or_zero)
  then show ?thesis
    unfolding dispatch_sort_break_def sort_stops_at_def sweep_dist_def cyclic_order by auto
qed

lemma forget_last_merge_fields [elv_frame]:
  "queue_head (forget_last_merge q rq) = queue_head q"
  "elevator_data (forget_last_merge q rq) = elevator_data q"
  "rqs (forget_last_merge q rq) = rqs q"
  "nr_sorted (forget_last_merge q rq) = nr_sorted q"
  "end_sector (forget_last_merge q rq) = end_sector q"
  "elv_hash (forget_last_merge q rq) = elv_hash q"
  by (simp_all add: forget_last_merge_def)

lemma dispatch_sort_fields [elv_frame]:
  "elevator_data (elv_dispatch_sort q rq) = elevator_data q"
  "rqs (elv_dispatch_sort q rq) = rqs q"
  "nr_sorted (elv_dispatch_sort q rq) = nr_sorted q - 1"
  "end_sector (elv_dispatch_sort q rq) = end_sector q"
  by (simp_all add: elv_dispatch_sort_def Let_def elv_frame)

lemma dispatch_sort_mset:
  "mset (queue_head (elv_dispatch_sort q rq)) = add_mset rq (mset (queue_head q))"
  using takeWhile_dropWhile_rev_mset
  by (simp add: elv_dispatch_sort_def Let_def elv_frame)

lemma dispatch_sort_run:
  assumes "queue_head q = pre @ run"
    and compat: "\<forall>p \<in> set run. \<not> sort_stops_at (rqs q rq) (rqs q p)"
    and stop: "pre = [] \<or> sort_stops_at (rqs q rq) (rqs q (last pre))"
    and sorted: "sorted_wrt (\<lambda>a b. sweep_dist (end_sector q) (rqs q a) \<le> sweep_dist (end_sector q) (rqs q b)) run"
  shows "\<exists>us vs. run = us @ vs \<and> queue_head (elv_dispatch_sort q rq) = pre @ us @ rq # vs \<and>
     (\<forall>p \<in> set us. sweep_dist (end_sector q) (rqs q p) \<le> sweep_dist (end_sector q) (rqs q rq)) \<and>
     (\<forall>p \<in> set vs. sweep_dist (end_sector q) (rqs q rq) < sweep_dist (end_sector q) (rqs q p))"
proof -
  let ?d = "\<lambda>p. sweep_dist (end_sector q) (rqs q p)"
  let ?P = "\<lambda>p. \<not> dispatch_sort_break (end_sector q) (rqs q rq) (rqs q p)"
  let ?Q = "\<lambda>p. ?d rq < ?d p"
  let ?us = "rev (dropWhile ?Q (rev run))" and ?vs = "rev (takeWhile ?Q (rev run))"
  have "takeWhile ?P (rev run @ rev pre) = takeWhile ?Q (rev run) \<and>
        dropWhile ?P (rev run @ rev pre) = dropWhile ?Q (rev run) @ rev pre"
    by (rule take_drop_while_block) (use compat stop in \<open>auto simp: dispatch_sort_break_iff\<close>)
  then have "queue_head (elv_dispatch_sort q rq) = pre @ ?us @ rq # ?vs"
    using assms(1) by (simp add: elv_dispatch_sort_def Let_def elv_frame)
  moreover have "\<forall>p \<in> set ?us. ?d p \<le> ?d rq" using sorted_split_at [OF sorted] by simp
  moreover have "\<forall>p \<in> set ?vs. ?d rq < ?d p" by (auto dest: set_takeWhileD)
  ultimately show ?thesis using rev_takeWhile_split by blast
qed

lemma dispatch_sort_hash_ok: "elv_hash_ok q \<Longrightarrow> elv_hash_ok (elv_dispatch_sort q rq)"
  using rqhash_del_ok [of "{}" "forget_last_merge q rq" rq]
  by (simp add: elv_dispatch_sort_def Let_def elv_hash_ok_but_def elv_frame)

lemma dispatch_sort_unhashed: "hashed (elv_dispatch_sort q rq) = hashed q - {rq}"
  using hashed_del [of "forget_last_merge q rq" rq]
  by (simp add: elv_dispatch_sort_def Let_def hashed_def elv_frame)

lemma dispatch_sort_last_merge: "last_merge (elv_dispatch_sort q rq) \<noteq> Some rq"
  by (simp add: elv_dispatch_sort_def Let_def elv_frame forget_last_merge_def)

lemma dispatch_add_tail_fields [elv_frame]:
  "elevator_data (elv_dispatch_add_tail q rq) = elevator_data q"
  "rqs (elv_dispatch_add_tail q rq) = rqs q"
  "nr_sorted (elv_dispatch_add_tail q rq) = nr_sorted q - 1"
  "queue_head (elv_dispatch_add_tail q rq) = queue_head q @ [rq]"
  by (simp_all add: elv_dispatch_add_tail_def Let_def elv_frame)

end
