(* ===== verification/Iosched.thy ===== *)
theory Iosched
  imports Elevator
begin

text \<open>
  The contract between the elevator core and an I/O scheduler. A scheduler holds a multiset of
  pending requests; it dispatches one of them at a time, never loses or invents one, and keeps an
  invariant of its own. The lemmas of the core that rest on the contract are proved here once:
  draining ends and empties the scheduler, a back insertion puts a request behind everything
  that was pending, a sorted insertion keeps the account of sorted requests.
\<close>

section \<open>What a dispatch and an insertion may change\<close>

text \<open>The request is unchanged up to flags other than the data direction.\<close>

definition rq_similar :: "request \<Rightarrow> request \<Rightarrow> bool" where
  "rq_similar r r' \<longleftrightarrow> r' = r\<lparr>cmd_flags := cmd_flags r'\<rparr> \<and> rq_data_dir r' = rq_data_dir r"

text \<open>One request went to the dispatch list; the rest of the queue is as it was.\<close>

definition dispatched :: "rqp \<Rightarrow> 'd request_queue \<Rightarrow> 'd request_queue \<Rightarrow> bool" where
  "dispatched rq q q' \<longleftrightarrow>
     mset (queue_head q') = add_mset rq (mset (queue_head q)) \<and>
     nr_sorted q' = nr_sorted q - 1 \<and> rqs q' = rqs q \<and> hashed q' = hashed q - {rq} \<and>
     (elv_hash_ok q \<longrightarrow> elv_hash_ok q') \<and> queue_flags q' = queue_flags q \<and>
     ordseq q' = ordseq q \<and> in_flight q' = in_flight q \<and> rq_count q' = rq_count q \<and>
     elvpriv q' = elvpriv q"

text \<open>The scheduler took a request, and may have sent others to the dispatch list.\<close>

definition took :: "('d request_queue \<Rightarrow> rqp multiset) \<Rightarrow> rqp \<Rightarrow> 'd request_queue \<Rightarrow> 'd request_queue \<Rightarrow> bool"
where
  "took pending rq q q' \<longleftrightarrow>
     mset (queue_head q') + pending q' = add_mset rq (mset (queue_head q) + pending q) \<and>
     nr_sorted q' + of_nat (size (pending q)) + 1 = nr_sorted q + of_nat (size (pending q')) \<and>
     (elv_hash_ok q \<longrightarrow> elv_hash_ok q') \<and> queue_flags q' = queue_flags q"

lemma rq_similar_refl [simp]: "rq_similar r r"
  by (simp add: rq_similar_def)

lemma rq_similar_bios:
  assumes "rq_similar r r'"
  shows "bios r' = bios r" "sector r' = sector r" "data_len r' = data_len r"
proof -
  have eq: "r' = r\<lparr>cmd_flags := cmd_flags r'\<rparr>" using assms by (simp add: rq_similar_def)
  show "bios r' = bios r" "sector r' = sector r" "data_len r' = data_len r"
    by (subst eq, simp)+
qed

lemma rq_similar_set_flag [simp]: "f \<noteq> REQ_RW \<Longrightarrow> rq_similar r (rq_set_flag f r)"
  by (auto simp: rq_similar_def rq_data_dir_flag) (simp add: rq_set_flag_def)

lemma dispatched_sort: "dispatched rq q (elv_dispatch_sort q rq)"
  using dispatch_sort_hash_ok [of q rq]
  unfolding dispatched_def dispatch_sort_mset dispatch_sort_unhashed
  by (simp add: elv_frame)
    (simp add: elv_dispatch_sort_def Let_def forget_last_merge_def elv_rqhash_del_def elv_rqhash_unlink_def)

lemma dispatched_add_tail: "dispatched rq q (elv_dispatch_add_tail q rq)"
proof -
  let ?q = "elv_rqhash_del (forget_last_merge q rq) rq"
  have hash: "elv_hash (elv_dispatch_add_tail q rq) = elv_hash ?q"
    by (simp add: elv_dispatch_add_tail_def Let_def)
  have "elv_hash_ok (elv_dispatch_add_tail q rq)" if "elv_hash_ok q"
  proof -
    have "elv_hash_ok (forget_last_merge q rq)"
      using that by (simp add: elv_hash_ok_but_def elv_frame)
    then have "elv_hash_ok ?q" by (rule rqhash_del_ok)
    then show ?thesis by (simp add: elv_hash_ok_but_def hash elv_frame)
  qed
  moreover have "hashed (elv_dispatch_add_tail q rq) = hashed q - {rq}"
  proof -
    have "hashed (elv_dispatch_add_tail q rq) = hashed ?q" by (simp add: hashed_def hash)
    also have "\<dots> = hashed (forget_last_merge q rq) - {rq}" by simp
    finally show ?thesis by (simp add: hashed_def elv_frame)
  qed
  ultimately show ?thesis
    unfolding dispatched_def
    by (simp add: elv_frame)
      (simp add: elv_dispatch_add_tail_def Let_def forget_last_merge_def elv_rqhash_del_def elv_rqhash_unlink_def)
qed

lemma dispatched_data [simp]:
  "dispatched rq q (q'\<lparr>elevator_data := d\<rparr>) = dispatched rq q q'"
  "dispatched rq (q\<lparr>elevator_data := d\<rparr>) q' = dispatched rq q q'"
  by (simp_all add: dispatched_def elv_hash_ok_but_def hashed_def)

lemma dispatch_sort_data_commute:
  "elv_dispatch_sort (q\<lparr>elevator_data := d\<rparr>) rq = (elv_dispatch_sort q rq)\<lparr>elevator_data := d\<rparr>"
  by (simp add: elv_dispatch_sort_def Let_def forget_last_merge_def elv_rqhash_del_def
      elv_rqhash_unlink_def ELV_ON_HASH_def)

lemma took_add:
  assumes "pending (q\<lparr>elevator_data := d\<rparr>) = add_mset rq (pending q)"
  shows "took pending rq q (q\<lparr>elevator_data := d\<rparr>)"
  using assms by (simp add: took_def elv_hash_ok_but_def)

lemma hash_ok_rqs_cong:
  assumes "elv_hash_ok_but X q" "elv_hash q' = elv_hash q"
    and "\<And>p. p \<notin> X \<Longrightarrow> rq_hash_key (rqs q' p) = rq_hash_key (rqs q p)"
  shows "elv_hash_ok_but X q'"
  using assms by (auto simp: elv_hash_ok_but_def)

lemma rq_hash_key_set_flag [simp]: "rq_hash_key (rq_set_flag f r) = rq_hash_key r"
  by (simp add: rq_hash_key_def rq_simps)

text \<open>What a sorted insertion has done when it calls the scheduler: the request is flagged, counted and hashed.\<close>

definition sort_prepared :: "'d request_queue \<Rightarrow> rqp \<Rightarrow> (nat \<Rightarrow> rqp list) \<Rightarrow> rqp option \<Rightarrow> 'd request_queue" where
  "sort_prepared q rq h l = q\<lparr>rqs := (rqs q)(rq := rq_set_flag REQ_SORTED (rqs q rq)), nr_sorted := nr_sorted q + 1,
     elv_hash := h, last_merge := l\<rparr>"

lemma insert_sort_prepared:
  fixes q :: "'d request_queue"
  assumes hash: "elv_hash_ok q" and fresh: "rq \<notin> hashed q" and fs: "blk_fs_request (rqs q rq) \<or> blk_discard_rq (rqs q rq)"
  shows "\<exists>h. let l = if rq_mergeable (rqs q rq) \<and> last_merge q = None then Some rq else last_merge q;
                 q2 = sort_prepared q rq h l
             in elv_insert_at ops request_fn q rq ELEVATOR_INSERT_SORT = elevator_add_req_fn ops q2 rq \<and> elv_hash_ok q2 \<and>
                hashed q2 = (if rq_mergeable (rqs q rq) then insert rq (hashed q) else hashed q)"
proof -
  let ?q = "q\<lparr>rqs := (rqs q)(rq := rq_set_flag REQ_SORTED (rqs q rq)), nr_sorted := nr_sorted q + 1\<rparr>"
  have m: "rq_mergeable (rq_set_flag REQ_SORTED (rqs q rq)) = rq_mergeable (rqs q rq)"
    by (simp add: rq_mergeable_iff blk_discard_rq_def blk_fs_request_def)
  have red: "elv_insert_at ops request_fn q rq ELEVATOR_INSERT_SORT =
      (if rq_mergeable (rqs q rq)
       then do { q \<leftarrow> elv_rqhash_add ?q rq; elevator_add_req_fn ops (if last_merge q = None then q\<lparr>last_merge := Some rq\<rparr> else q) rq }
       else elevator_add_req_fn ops ?q rq)"
    using fs m by (cases "elv_rqhash_add ?q rq") (auto simp: elv_insert_at_def Let_def rq_upd_def)
  have same: "?q\<lparr>elv_hash := h\<rparr> = sort_prepared q rq h (last_merge q)" for h
    by (cases q) (simp add: sort_prepared_def)
  have prepared: "(sort_prepared q rq h l)\<lparr>last_merge := l'\<rparr> = sort_prepared q rq h l'" "last_merge (sort_prepared q rq h l) = l"
      "elv_hash (sort_prepared q rq h l) = h" "rqs (sort_prepared q rq h l) = (rqs q)(rq := rq_set_flag REQ_SORTED (rqs q rq))" for h l l'
    by (simp_all add: sort_prepared_def)
  have hash0: "elv_hash_ok ?q" by (rule hash_ok_rqs_cong [OF hash]) simp_all
  have unhashed: "rq \<notin> hashed ?q" using fresh by (simp add: hashed_def)
  show ?thesis
  proof (cases "rq_mergeable (rqs q rq)")
    case True
    from rqhash_add_spec [OF hash0 unhashed] obtain h where
      h: "elv_rqhash_add ?q rq = Some (?q\<lparr>elv_hash := h\<rparr>)" "elv_hash_ok (?q\<lparr>elv_hash := h\<rparr>)"
        "hashed (?q\<lparr>elv_hash := h\<rparr>) = insert rq (hashed ?q)" by metis
    show ?thesis using True h by (intro exI [of _ h]) (simp add: red Let_def same [of h] prepared hashed_def elv_hash_ok_but_def)
  next
    case False
    then show ?thesis using hash0 same [of "elv_hash q"]
      by (intro exI [of _ "elv_hash q"]) (simp add: red Let_def hashed_def elv_hash_ok_but_def sort_prepared_def)
  qed
qed

text \<open>A run of dispatches, with the requests the scheduler gives up, in order.\<close>

inductive serves ::
    "'d elevator_ops \<Rightarrow> ('d request_queue \<Rightarrow> rqp multiset) \<Rightarrow>
     'd request_queue \<Rightarrow> rqp list \<Rightarrow> 'd request_queue \<Rightarrow> bool"
  for ops :: "'d elevator_ops" and pending :: "'d request_queue \<Rightarrow> rqp multiset" where
  serves_nil: "serves ops pending q [] q"
| serves_step: "\<lbrakk>elevator_dispatch_fn ops q force = Some (True, q1);
      pending q = add_mset rq (pending q1); serves ops pending q1 xs q'\<rbrakk>
    \<Longrightarrow> serves ops pending q (rq # xs) q'"

inductive_cases serves_NilE [elim!]: "serves ops pending q [] q'"
inductive_cases serves_ConsE: "serves ops pending q (rq # xs) q'"

section \<open>The contract\<close>

locale iosched =
  fixes ops :: "'d elevator_ops"
    and pending :: "'d request_queue \<Rightarrow> rqp multiset"
    and sched_ok :: "'d request_queue \<Rightarrow> bool"
    and acceptable :: "request \<Rightarrow> bool"
  assumes frame: "\<lbrakk>sched_ok q; elevator_data q' = elevator_data q;
        \<And>p. p \<in># pending q \<Longrightarrow> rq_similar (rqs q p) (rqs q' p)\<rbrakk>
      \<Longrightarrow> sched_ok q' \<and> pending q' = pending q"
    and dispatch_none: "\<lbrakk>sched_ok q; pending q = {#}\<rbrakk>
      \<Longrightarrow> elevator_dispatch_fn ops q force = Some (False, q)"
    and dispatch_one: "\<lbrakk>sched_ok q; pending q \<noteq> {#}\<rbrakk>
      \<Longrightarrow> \<exists>rq q'. elevator_dispatch_fn ops q force = Some (True, q') \<and> rq \<in># pending q \<and>
            pending q' = pending q - {#rq#} \<and> dispatched rq q q' \<and> sched_ok q'"
    and add_req: "\<lbrakk>sched_ok q; rq \<notin># pending q; acceptable (rqs q rq)\<rbrakk>
      \<Longrightarrow> \<exists>q'. elevator_add_req_fn ops q rq = Some q' \<and> took pending rq q q' \<and> sched_ok q'"
    and acceptable_flags: "rq_similar r r' \<Longrightarrow> acceptable r \<Longrightarrow> acceptable r'"
    and queue_empty: "sched_ok q
      \<Longrightarrow> \<exists>f. elevator_queue_empty_fn ops = Some f \<and> f q = (pending q = {#})"
begin

text \<open>The account: \<^verbatim>\<open>nr_sorted\<close> counts the requests the scheduler holds.\<close>

definition accounted :: "'d request_queue \<Rightarrow> bool" where
  "accounted q \<longleftrightarrow> nr_sorted q = of_nat (size (pending q))"

lemma elv_queue_empty_iff:
  "sched_ok q \<Longrightarrow> elv_queue_empty ops q \<longleftrightarrow> mset (queue_head q) + pending q = {#}"
  using queue_empty [of q] by (auto simp: elv_queue_empty_def)

lemma drain_spec:
  assumes "sched_ok q"
  shows "\<exists>q'. elv_drain_elevator ops q = Some q' \<and> sched_ok q' \<and> pending q' = {#} \<and>
     mset (queue_head q') = mset (queue_head q) + pending q \<and>
     nr_sorted q' = nr_sorted q - of_nat (size (pending q)) \<and> rqs q' = rqs q \<and>
     hashed q' = hashed q - set_mset (pending q) \<and> (elv_hash_ok q \<longrightarrow> elv_hash_ok q') \<and>
     queue_flags q' = queue_flags q \<and> elvpriv q' = elvpriv q"
  using assms
proof (induction "size (pending q)" arbitrary: q)
  case 0
  then show ?case using dispatch_none [of q True]
    by (subst elv_drain_elevator.simps) simp
next
  case (Suc n)
  then have "pending q \<noteq> {#}" by auto
  from dispatch_one [OF Suc.prems this, of True] obtain rq q1 where one:
      "elevator_dispatch_fn ops q True = Some (True, q1)" "rq \<in># pending q"
      "pending q1 = pending q - {#rq#}" "dispatched rq q q1" "sched_ok q1"
    by blast
  obtain M where M: "pending q = add_mset rq M" using one(2) by (metis mset_add)
  have "n = size (pending q1)" using Suc.hyps(2) one(3) M by simp
  from Suc.hyps(1) [OF this one(5)] obtain q' where
      "elv_drain_elevator ops q1 = Some q'" "sched_ok q'" "pending q' = {#}"
      "mset (queue_head q') = mset (queue_head q1) + pending q1"
      "nr_sorted q' = nr_sorted q1 - of_nat (size (pending q1))" "rqs q' = rqs q1"
      "hashed q' = hashed q1 - set_mset (pending q1)" "elv_hash_ok q1 \<longrightarrow> elv_hash_ok q'"
      "queue_flags q' = queue_flags q1" "elvpriv q' = elvpriv q1"
    by auto
  then show ?case
    using one(1,3,4) M unfolding dispatched_def
    by (subst elv_drain_elevator.simps) (auto simp: algebra_simps)
qed

lemma serves_all:
  assumes "sched_ok q"
  shows "\<exists>xs q'. serves ops pending q xs q' \<and> mset xs = pending q \<and> pending q' = {#} \<and>
     elv_drain_elevator ops q = Some q'"
  using assms
proof (induction "size (pending q)" arbitrary: q)
  case 0
  then show ?case using dispatch_none [of q True] serves_nil [of ops pending q]
    by (intro exI [of _ "[]"] exI [of _ q]) (simp add: elv_drain_elevator.simps [of ops q])
next
  case (Suc n)
  then have "pending q \<noteq> {#}" by auto
  from dispatch_one [OF Suc.prems this, of True] obtain rq q1 where one:
      "elevator_dispatch_fn ops q True = Some (True, q1)" "rq \<in># pending q"
      "pending q1 = pending q - {#rq#}" "sched_ok q1"
    by blast
  then have M: "pending q = add_mset rq (pending q1)" by simp
  then have "n = size (pending q1)" using Suc.hyps(2) by simp
  from Suc.hyps(1) [OF this one(4)] obtain xs q' where xs: "serves ops pending q1 xs q'"
      "mset xs = pending q1" "pending q' = {#}" "elv_drain_elevator ops q1 = Some q'" by auto
  have "serves ops pending q (rq # xs) q'" using serves_step [OF one(1) M xs(1)] .
  moreover have "elv_drain_elevator ops q = Some q'"
    using one(1) xs(4) by (simp add: elv_drain_elevator.simps [of ops q])
  ultimately show ?case using xs M by (intro exI [of _ "rq # xs"] exI [of _ q']) simp
qed

lemma drain_accounted:
  assumes "sched_ok q" "accounted q"
  shows "\<exists>q'. elv_drain_elevator ops q = Some q' \<and> sched_ok q' \<and> accounted q' \<and> nr_sorted q' = 0"
  using drain_spec [OF assms(1)] assms(2) by (auto simp: accounted_def)

lemma frame_fields:
  assumes "sched_ok q" "elevator_data q' = elevator_data q" "rqs q' = rqs q"
  shows "sched_ok q' \<and> pending q' = pending q"
  using frame [OF assms(1,2)] assms(3) by simp

lemma frame_set_flag:
  assumes "sched_ok q" "f \<noteq> REQ_RW"
  shows "sched_ok (rq_upd rq (rq_set_flag f) q) \<and> pending (rq_upd rq (rq_set_flag f) q) = pending q"
  using frame [OF assms(1), of "rq_upd rq (rq_set_flag f) q"] assms(2) by (simp add: rq_upd_def)

text \<open>A back insertion: everything that was pending is in front of the request.\<close>

lemma insert_back_spec:
  assumes "sched_ok q"
  shows "\<exists>q1. elv_insert_at ops request_fn q rq ELEVATOR_INSERT_BACK = blk_run_queue ops request_fn q1 \<and>
     (\<exists>front. queue_head q1 = front @ [rq] \<and> mset front = mset (queue_head q) + pending q) \<and>
     pending q1 = {#} \<and> sched_ok q1 \<and> rq_flagged (rqs q1 rq) REQ_SOFTBARRIER \<and>
     (accounted q \<longrightarrow> accounted q1)"
proof -
  let ?q = "rq_upd rq (rq_set_flag REQ_SOFTBARRIER) q"
  have ok: "sched_ok ?q" and pend: "pending ?q = pending q"
    using frame_set_flag [OF assms, of REQ_SOFTBARRIER rq] by auto
  from drain_spec [OF ok] obtain q' where q':
      "elv_drain_elevator ops ?q = Some q'" "sched_ok q'" "pending q' = {#}"
      "mset (queue_head q') = mset (queue_head ?q) + pending q"
      "nr_sorted q' = nr_sorted ?q - of_nat (size (pending q))" "rqs q' = rqs ?q"
    unfolding pend by blast
  let ?q1 = "q'\<lparr>queue_head := queue_head q' @ [rq]\<rparr>"
  have q1: "sched_ok ?q1" "pending ?q1 = {#}" using frame_fields [OF q'(2), of ?q1] q'(3) by simp_all
  show ?thesis
  proof (intro exI conjI)
    show "elv_insert_at ops request_fn q rq ELEVATOR_INSERT_BACK = blk_run_queue ops request_fn ?q1"
      using q'(1) by (simp add: elv_insert_at_def Let_def)
    show "queue_head ?q1 = queue_head q' @ [rq]" by simp
    show "mset (queue_head q') = mset (queue_head q) + pending q" using q'(4) by (simp add: rq_upd_def)
    show "rq_flagged (rqs ?q1 rq) REQ_SOFTBARRIER" using q'(6) by (simp add: rq_upd_def)
    show "accounted q \<longrightarrow> accounted ?q1"
      using q'(5) q1(2) by (simp add: accounted_def rq_upd_def)
  qed (use q1 in simp_all)
qed

text \<open>A sorted insertion: the scheduler takes the request and the account is kept.\<close>

lemma insert_sort_spec:
  assumes ok: "sched_ok q" and hash: "elv_hash_ok q" and fresh: "rq \<notin> hashed q" "rq \<notin># pending q"
    and acc: "acceptable (rqs q rq)" and fs: "blk_fs_request (rqs q rq) \<or> blk_discard_rq (rqs q rq)"
  shows "\<exists>q'. elv_insert_at ops request_fn q rq ELEVATOR_INSERT_SORT = Some q' \<and> sched_ok q' \<and>
     elv_hash_ok q' \<and> mset (queue_head q') + pending q' = add_mset rq (mset (queue_head q) + pending q) \<and>
     (accounted q \<longrightarrow> accounted q')"
proof -
  from insert_sort_prepared [OF hash fresh(1) fs, of ops request_fn] obtain h l where
    q2: "elv_insert_at ops request_fn q rq ELEVATOR_INSERT_SORT = elevator_add_req_fn ops (sort_prepared q rq h l) rq"
      "elv_hash_ok (sort_prepared q rq h l)" unfolding Let_def by blast
  let ?q2 = "sort_prepared q rq h l"
  have fields: "elevator_data ?q2 = elevator_data q" "queue_head ?q2 = queue_head q" "nr_sorted ?q2 = nr_sorted q + 1"
    by (simp_all add: sort_prepared_def)
  have sim: "rq_similar (rqs q p) (rqs ?q2 p)" for p by (simp add: sort_prepared_def)
  have ok2: "sched_ok ?q2" "pending ?q2 = pending q" using frame [OF ok fields(1)] sim by auto
  have "acceptable (rqs ?q2 rq)" using acceptable_flags [OF sim acc] .
  then obtain q' where q': "elevator_add_req_fn ops ?q2 rq = Some q'" "took pending rq ?q2 q'" "sched_ok q'"
    using add_req [OF ok2(1), of rq] ok2(2) fresh(2) by auto
  then show ?thesis
    using q2 fields ok2(2) by (auto simp: took_def accounted_def algebra_simps)
qed

end

section \<open>Schedulers that dispatch through the sorted insertion\<close>

locale sorting_iosched = iosched +
  assumes dispatch_sorts: "\<lbrakk>sched_ok q; pending q \<noteq> {#}; elevator_dispatch_fn ops q force = Some (b, q')\<rbrakk>
      \<Longrightarrow> \<exists>rq d. q' = (elv_dispatch_sort q rq)\<lparr>elevator_data := d\<rparr>"
begin

definition one_kind :: "'a request_queue \<Rightarrow> bool" where
  "one_kind q \<longleftrightarrow> (\<forall>p r. p \<in># mset (queue_head q) + pending q \<longrightarrow> r \<in># mset (queue_head q) + pending q \<longrightarrow>
     \<not> sort_stops_at (rqs q p) (rqs q r))"

definition swept :: "'a request_queue \<Rightarrow> bool" where
  "swept q \<longleftrightarrow> sorted_wrt (\<lambda>x y. sweep_dist (end_sector q) (rqs q x) \<le> sweep_dist (end_sector q) (rqs q y)) (queue_head q)"

lemma dispatch_swept:
  assumes "sched_ok q" "pending q \<noteq> {#}" "one_kind q" "swept q"
    and "elevator_dispatch_fn ops q force = Some (b, q')"
  shows "sched_ok q' \<and> one_kind q' \<and> swept q' \<and> size (pending q') < size (pending q) \<and> b"
proof -
  from dispatch_one [OF assms(1,2), of force] assms(5) obtain rq where one: "b" "rq \<in># pending q"
      "pending q' = pending q - {#rq#}" "dispatched rq q q'" "sched_ok q'"
    by auto
  obtain M where M: "pending q = add_mset rq M" using one(2) by (metis mset_add)
  from dispatch_sorts [OF assms(1,2,5)] obtain rq' d where
      q': "q' = (elv_dispatch_sort q rq')\<lparr>elevator_data := d\<rparr>"
    by blast
  then have "add_mset rq' (mset (queue_head q)) = add_mset rq (mset (queue_head q))"
    using one(4) by (simp add: dispatched_def dispatch_sort_mset)
  then have [simp]: "rq' = rq" by simp
  have total: "mset (queue_head q') + pending q' = mset (queue_head q) + pending q"
    using one(3,4) M by (simp add: dispatched_def)
  have rqs': "rqs q' = rqs q" using one(4) by (simp add: dispatched_def)
  have "\<forall>p \<in> set (queue_head q). \<not> sort_stops_at (rqs q rq) (rqs q p)"
    using assms(3) one(2) unfolding one_kind_def by auto
  from dispatch_sort_run [of q "[]" "queue_head q" rq, simplified, OF this] assms(4)
  obtain us vs where uv: "queue_head q = us @ vs" "queue_head (elv_dispatch_sort q rq) = us @ rq # vs"
      "\<forall>p \<in> set us. sweep_dist (end_sector q) (rqs q p) \<le> sweep_dist (end_sector q) (rqs q rq)"
      "\<forall>p \<in> set vs. sweep_dist (end_sector q) (rqs q rq) < sweep_dist (end_sector q) (rqs q p)"
    unfolding swept_def by auto
  have "swept q'"
    using assms(4) uv by (auto simp: swept_def q' sorted_wrt_append elv_frame less_imp_le)
  moreover have "one_kind q'" using assms(3) unfolding one_kind_def total rqs' .
  ultimately show ?thesis using one M by simp
qed

lemma drain_swept:
  assumes "sched_ok q" "one_kind q" "swept q"
  shows "\<exists>q'. elv_drain_elevator ops q = Some q' \<and> swept q'"
  using assms
proof (induction "size (pending q)" arbitrary: q rule: less_induct)
  case less
  show ?case
  proof (cases "pending q = {#}")
    case True
    then show ?thesis using dispatch_none [of q True] less.prems
      by (subst elv_drain_elevator.simps) simp
  next
    case False
    then obtain b q1 where q1: "elevator_dispatch_fn ops q True = Some (b, q1)"
      using dispatch_one [OF less.prems(1) False, of True] by blast
    note step = dispatch_swept [OF less.prems(1) False less.prems(2,3) q1]
    then show ?thesis using less.hyps [of q1] q1
      by (subst elv_drain_elevator.simps) auto
  qed
qed

end

end
