(* ===== verification/Look.thy ===== *)
theory Look
  imports Iosched
begin

text \<open>
  The LOOK I/O scheduler of \<^verbatim>\<open>block/look-iosched.c\<close>. It keeps the requests in arrival order
  together with the position of the disk head and the direction of its motion; a dispatch scans
  the list for the nearest request in that direction and turns around when there is none. The
  messages it logs are left out.

  The theory shows that the scheduler satisfies the contract of the elevator core, that a dispatch
  is the nearest request ahead of the head, and that a run of dispatches with no arrivals is one
  ascending sweep followed by one descending sweep.
\<close>

record look_data =
  look_queue :: "rqp list"
  cur_pos :: sector_t
  look_dir :: u32

definition look_merged_requests ::
    "look_data request_queue \<Rightarrow> rqp \<Rightarrow> rqp \<Rightarrow> look_data request_queue option" where
  "look_merged_requests q rq nxt =
     Some (q\<lparr>elevator_data := (elevator_data q)\<lparr>look_queue := removeAll nxt (look_queue (elevator_data q))\<rparr>\<rparr>)"

text \<open>The body of the scan, for one request of the list: the candidates above and below the head.\<close>

definition look_scan_step ::
    "(rqp \<Rightarrow> request) \<Rightarrow> sector_t \<Rightarrow> rqp option \<times> rqp option \<Rightarrow> rqp \<Rightarrow> rqp option \<times> rqp option" where
  "look_scan_step mem cur = (\<lambda>(higher, lower) rq.
     let higher =
           (if blk_rq_pos (mem rq) \<ge> cur then
              (case higher of
                 Some h \<Rightarrow> if blk_rq_pos (mem rq) < blk_rq_pos (mem h) then Some rq else higher
               | None \<Rightarrow> Some rq)
            else higher);
         lower =
           (if blk_rq_pos (mem rq) \<le> cur then
              (case lower of
                 Some l \<Rightarrow> if blk_rq_pos (mem rq) > blk_rq_pos (mem l) then Some rq else lower
               | None \<Rightarrow> Some rq)
            else lower)
     in (higher, lower))"

definition look_scan ::
    "(rqp \<Rightarrow> request) \<Rightarrow> sector_t \<Rightarrow> rqp list \<Rightarrow> rqp option \<times> rqp option" where
  "look_scan mem cur = foldl (look_scan_step mem cur) (None, None)"

text \<open>One arm of the dispatch: the head moves to the end of the first bio of the request.\<close>

definition look_dispatch_rq ::
    "look_data request_queue \<Rightarrow> rqp option \<Rightarrow> look_data request_queue option" where
  "look_dispatch_rq q target =
     (case target of
        None \<Rightarrow> None
      | Some rq \<Rightarrow>
          (case bios (rqs q rq) of
             [] \<Rightarrow> None
           | b # _ \<Rightarrow>
               (let nd = elevator_data q;
                    nd = nd\<lparr>cur_pos := bi_sector b + ucast (bio_sectors b)\<rparr>;
                    nd = nd\<lparr>look_queue := removeAll rq (look_queue nd)\<rparr>
                in Some (elv_dispatch_sort (q\<lparr>elevator_data := nd\<rparr>) rq))))"

definition look_dispatch ::
    "look_data request_queue \<Rightarrow> bool \<Rightarrow> (bool \<times> look_data request_queue) option" where
  "look_dispatch q force =
     (let nd = elevator_data q
      in if look_queue nd \<noteq> [] then
           (case look_scan (rqs q) (cur_pos nd) (look_queue nd) of
              (higher, lower) \<Rightarrow>
                (let nd = (if look_dir nd = 1 \<and> higher = None then nd\<lparr>look_dir := 0\<rparr> else nd);
                     nd = (if look_dir nd = 0 \<and> lower = None then nd\<lparr>look_dir := 1\<rparr> else nd);
                     q = q\<lparr>elevator_data := nd\<rparr>
                 in do {
                   q \<leftarrow> (if look_dir (elevator_data q) = 1 then look_dispatch_rq q higher else Some q);
                   q \<leftarrow> (if look_dir (elevator_data q) = 0 then look_dispatch_rq q lower else Some q);
                   Some (True, q)
                 }))
         else Some (False, q))"

definition look_add_request ::
    "look_data request_queue \<Rightarrow> rqp \<Rightarrow> look_data request_queue option" where
  "look_add_request q rq =
     (let nd = elevator_data q
      in Some (q\<lparr>elevator_data := nd\<lparr>look_queue := look_queue nd @ [rq]\<rparr>\<rparr>))"

definition look_queue_empty :: "look_data request_queue \<Rightarrow> bool" where
  "look_queue_empty q \<longleftrightarrow> look_queue (elevator_data q) = []"

definition look_former_request :: "look_data request_queue \<Rightarrow> rqp \<Rightarrow> rqp option option" where
  "look_former_request q rq = queuelist_prev (look_queue (elevator_data q)) q rq"

definition look_latter_request :: "look_data request_queue \<Rightarrow> rqp \<Rightarrow> rqp option option" where
  "look_latter_request q rq = queuelist_next (look_queue (elevator_data q)) q rq"

definition look_init_queue :: "bool \<Rightarrow> look_data option" where
  "look_init_queue mem =
     (if \<not> mem then None else Some \<lparr>look_queue = [], cur_pos = 0, look_dir = 1\<rparr>)"

definition look_exit_queue :: "look_data \<Rightarrow> unit option" where
  "look_exit_queue nd = (if look_queue nd \<noteq> [] then None else Some ())"

definition elevator_look :: "look_data elevator_ops" where
  "elevator_look = \<lparr>
     elevator_merge_fn = None, elevator_merged_fn = None,
     elevator_merge_req_fn = Some look_merged_requests, elevator_allow_merge_fn = None,
     elevator_dispatch_fn = look_dispatch, elevator_add_req_fn = look_add_request,
     elevator_activate_req_fn = None, elevator_deactivate_req_fn = None,
     elevator_queue_empty_fn = Some look_queue_empty, elevator_completed_req_fn = None,
     elevator_former_req_fn = Some look_former_request,
     elevator_latter_req_fn = Some look_latter_request, elevator_set_req_fn = None,
     elevator_put_req_fn = None, elevator_may_queue_fn = None,
     elevator_init_fn = look_init_queue, elevator_exit_fn = Some look_exit_queue\<rparr>"

section \<open>The scan\<close>

text \<open>
  What the scan promises of a candidate: it is in the list, on its side of the head, and no
  request on that side is nearer; there is none only when the side is empty.
\<close>

definition nearest_above :: "(rqp \<Rightarrow> request) \<Rightarrow> sector_t \<Rightarrow> rqp list \<Rightarrow> rqp option \<Rightarrow> bool" where
  "nearest_above mem cur xs h \<longleftrightarrow>
     (case h of
        None \<Rightarrow> \<forall>p \<in> set xs. blk_rq_pos (mem p) < cur
      | Some rq \<Rightarrow> rq \<in> set xs \<and> cur \<le> blk_rq_pos (mem rq) \<and>
          (\<forall>p \<in> set xs. cur \<le> blk_rq_pos (mem p) \<longrightarrow> blk_rq_pos (mem rq) \<le> blk_rq_pos (mem p)))"

definition nearest_below :: "(rqp \<Rightarrow> request) \<Rightarrow> sector_t \<Rightarrow> rqp list \<Rightarrow> rqp option \<Rightarrow> bool" where
  "nearest_below mem cur xs l \<longleftrightarrow>
     (case l of
        None \<Rightarrow> \<forall>p \<in> set xs. cur < blk_rq_pos (mem p)
      | Some rq \<Rightarrow> rq \<in> set xs \<and> blk_rq_pos (mem rq) \<le> cur \<and>
          (\<forall>p \<in> set xs. blk_rq_pos (mem p) \<le> cur \<longrightarrow> blk_rq_pos (mem p) \<le> blk_rq_pos (mem rq)))"

lemma look_scan_step_nearest:
  assumes "nearest_above mem cur xs (fst hl)" "nearest_below mem cur xs (snd hl)"
  shows "nearest_above mem cur (xs @ [rq]) (fst (look_scan_step mem cur hl rq)) \<and>
         nearest_below mem cur (xs @ [rq]) (snd (look_scan_step mem cur hl rq))"
  using assms
  by (cases hl; cases "fst hl"; cases "snd hl")
    (auto simp: look_scan_step_def nearest_above_def nearest_below_def Let_def)

lemma look_scan_nearest:
  "nearest_above mem cur xs (fst (look_scan mem cur xs)) \<and>
   nearest_below mem cur xs (snd (look_scan mem cur xs))"
proof (induction xs rule: rev_induct)
  case Nil
  show ?case by (simp add: look_scan_def nearest_above_def nearest_below_def)
next
  case (snoc x xs)
  then show ?case using look_scan_step_nearest by (simp add: look_scan_def)
qed

section \<open>A dispatch\<close>

definition look_pending :: "look_data request_queue \<Rightarrow> rqp multiset" where
  "look_pending q = mset (look_queue (elevator_data q))"

definition look_ok :: "look_data request_queue \<Rightarrow> bool" where
  "look_ok q \<longleftrightarrow> distinct (look_queue (elevator_data q)) \<and> look_dir (elevator_data q) \<in> {0, 1} \<and>
     (\<forall>rq \<in> set (look_queue (elevator_data q)). bios (rqs q rq) \<noteq> [])"

text \<open>The direction a dispatch serves: the current one unless nothing is left ahead.\<close>

definition look_goes_up :: "look_data request_queue \<Rightarrow> bool" where
  "look_goes_up q =
     (let nd = elevator_data q
      in if look_dir nd = 1 then list_ex (\<lambda>p. cur_pos nd \<le> blk_rq_pos (rqs q p)) (look_queue nd)
         else \<not> list_ex (\<lambda>p. blk_rq_pos (rqs q p) \<le> cur_pos nd) (look_queue nd))"

definition look_target :: "look_data request_queue \<Rightarrow> rqp \<Rightarrow> bool" where
  "look_target q rq \<longleftrightarrow>
     (let nd = elevator_data q
      in if look_goes_up q then nearest_above (rqs q) (cur_pos nd) (look_queue nd) (Some rq)
         else nearest_below (rqs q) (cur_pos nd) (look_queue nd) (Some rq))"

definition bio_end :: "bio \<Rightarrow> sector_t" where
  "bio_end b = bi_sector b + ucast (bio_sectors b)"

lemma look_target_mem: "look_target q rq \<Longrightarrow> rq \<in> set (look_queue (elevator_data q))"
  by (auto simp: look_target_def Let_def nearest_above_def nearest_below_def split: if_splits)

lemma look_target_bios:
  "look_ok q \<Longrightarrow> look_target q rq \<Longrightarrow> \<exists>b bs. bios (rqs q rq) = b # bs"
  using look_target_mem [of q rq] by (auto simp: look_ok_def neq_Nil_conv)

lemma look_scan_up:
  assumes "look_queue (elevator_data q) \<noteq> []" "look_dir (elevator_data q) \<in> {0, 1}"
    and scan: "look_scan (rqs q) (cur_pos (elevator_data q)) (look_queue (elevator_data q)) = (higher, lower)"
  shows "look_goes_up q \<longleftrightarrow> higher \<noteq> None \<and> (look_dir (elevator_data q) = 1 \<or> lower = None)"
    and "\<not> look_goes_up q \<longleftrightarrow> lower \<noteq> None \<and> (look_dir (elevator_data q) = 0 \<or> higher = None)"
proof -
  let ?nd = "elevator_data q"
  let ?pos = "\<lambda>p. blk_rq_pos (rqs q p)"
  have above: "nearest_above (rqs q) (cur_pos ?nd) (look_queue ?nd) higher"
    and below: "nearest_below (rqs q) (cur_pos ?nd) (look_queue ?nd) lower"
    using look_scan_nearest [of "rqs q" "cur_pos ?nd" "look_queue ?nd"] scan by simp_all
  have h: "higher \<noteq> None \<longleftrightarrow> list_ex (\<lambda>p. cur_pos ?nd \<le> ?pos p) (look_queue ?nd)"
    using above by (cases higher) (auto simp: nearest_above_def list_ex_iff not_le)
  have l: "lower \<noteq> None \<longleftrightarrow> list_ex (\<lambda>p. ?pos p \<le> cur_pos ?nd) (look_queue ?nd)"
    using below by (cases lower) (auto simp: nearest_below_def list_ex_iff not_le)
  have "higher \<noteq> None \<or> lower \<noteq> None"
    using assms(1) unfolding h l by (cases "look_queue ?nd") (auto simp: linear)
  then show "look_goes_up q \<longleftrightarrow> higher \<noteq> None \<and> (look_dir ?nd = 1 \<or> lower = None)"
    and "\<not> look_goes_up q \<longleftrightarrow> lower \<noteq> None \<and> (look_dir ?nd = 0 \<or> higher = None)"
    using assms(2) unfolding look_goes_up_def Let_def h [symmetric] l [symmetric] by auto
qed

lemma look_dispatch_rq_Some:
  assumes "bios (rqs q rq) = b # bs"
  shows "look_dispatch_rq (q\<lparr>elevator_data := nd\<rparr>) (Some rq) =
     Some ((elv_dispatch_sort q rq)\<lparr>elevator_data :=
       nd\<lparr>look_queue := removeAll rq (look_queue nd), cur_pos := bio_end b\<rparr>\<rparr>)"
  using assms by (simp add: look_dispatch_rq_def Let_def dispatch_sort_data_commute bio_end_def)

lemma look_dispatch_spec:
  assumes ok: "look_ok q" and ne: "look_queue (elevator_data q) \<noteq> []"
  shows "\<exists>rq b bs. look_target q rq \<and> bios (rqs q rq) = b # bs \<and>
     look_dispatch q force = Some (True, (elv_dispatch_sort q rq)\<lparr>elevator_data :=
       \<lparr>look_queue = removeAll rq (look_queue (elevator_data q)), cur_pos = bio_end b,
        look_dir = (if look_goes_up q then 1 else 0)\<rparr>\<rparr>)"
proof -
  let ?nd = "elevator_data q"
  obtain higher lower where
      scan: "look_scan (rqs q) (cur_pos ?nd) (look_queue ?nd) = (higher, lower)" by fastforce
  have dir: "look_dir ?nd \<in> {0, 1}" using ok by (simp add: look_ok_def)
  note up = look_scan_up [OF ne dir scan]
  have above: "nearest_above (rqs q) (cur_pos ?nd) (look_queue ?nd) higher"
    and below: "nearest_below (rqs q) (cur_pos ?nd) (look_queue ?nd) lower"
    using look_scan_nearest [of "rqs q" "cur_pos ?nd" "look_queue ?nd"] scan by simp_all
  show ?thesis
  proof (cases "look_goes_up q")
    case True
    then obtain rq where rq: "higher = Some rq" using up(1) by blast
    then have target: "look_target q rq" using above True by (simp add: look_target_def Let_def)
    then obtain b bs where b: "bios (rqs q rq) = b # bs"
      using look_target_bios [OF ok] by blast
    have "look_dispatch q force = Some (True, (elv_dispatch_sort q rq)\<lparr>elevator_data :=
        ?nd\<lparr>look_dir := 1, look_queue := removeAll rq (look_queue ?nd), cur_pos := bio_end b\<rparr>\<rparr>)"
      using ne dir up(1) True scan rq look_dispatch_rq_Some [OF b]
      by (auto simp: look_dispatch_def Let_def)
    then show ?thesis using target b True by auto
  next
    case False
    then obtain rq where rq: "lower = Some rq" using up(2) by blast
    then have target: "look_target q rq" using below False by (simp add: look_target_def Let_def)
    then obtain b bs where b: "bios (rqs q rq) = b # bs"
      using look_target_bios [OF ok] by blast
    have "look_dispatch q force = Some (True, (elv_dispatch_sort q rq)\<lparr>elevator_data :=
        ?nd\<lparr>look_dir := 0, look_queue := removeAll rq (look_queue ?nd), cur_pos := bio_end b\<rparr>\<rparr>)"
      using ne dir up(2) False scan rq look_dispatch_rq_Some [OF b]
      by (auto simp: look_dispatch_def Let_def)
    then show ?thesis using target b False by auto
  qed
qed

lemma look_dispatch_empty:
  "look_queue (elevator_data q) = [] \<Longrightarrow> look_dispatch q force = Some (False, q)"
  by (simp add: look_dispatch_def Let_def)

interpretation look: sorting_iosched elevator_look look_pending look_ok "\<lambda>r. bios r \<noteq> []"
proof unfold_locales
  fix q :: "look_data request_queue" and force
  assume ok: "look_ok q" and "look_pending q \<noteq> {#}"
  then have ne: "look_queue (elevator_data q) \<noteq> []" by (simp add: look_pending_def)
  from look_dispatch_spec [OF ok ne, of force] obtain rq b bs where rq: "look_target q rq"
      "bios (rqs q rq) = b # bs"
      "look_dispatch q force = Some (True, (elv_dispatch_sort q rq)\<lparr>elevator_data :=
         \<lparr>look_queue = removeAll rq (look_queue (elevator_data q)), cur_pos = bio_end b,
          look_dir = (if look_goes_up q then 1 else 0)\<rparr>\<rparr>)"
    by blast
  show "\<exists>rq q'. elevator_dispatch_fn elevator_look q force = Some (True, q') \<and> rq \<in># look_pending q \<and>
          look_pending q' = look_pending q - {#rq#} \<and> dispatched rq q q' \<and> look_ok q'"
    using rq(3) look_target_mem [OF rq(1)] ok
    by (intro exI [of _ rq])
      (auto simp: elevator_look_def look_pending_def look_ok_def dispatched_sort elv_frame
        mset_removeAll_distinct distinct_removeAll)
  show "\<exists>rq d. q' = (elv_dispatch_sort q rq)\<lparr>elevator_data := d\<rparr>"
    if "elevator_dispatch_fn elevator_look q force = Some (b, q')" for b q'
    using that rq(3) by (auto simp: elevator_look_def)
next
  fix q :: "look_data request_queue" and rq
  assume "look_ok q" "rq \<notin># look_pending q" "bios (rqs q rq) \<noteq> []"
  then show "\<exists>q'. elevator_add_req_fn elevator_look q rq = Some q' \<and> took look_pending rq q q' \<and> look_ok q'"
    by (auto simp: elevator_look_def look_add_request_def Let_def look_ok_def look_pending_def
        intro!: took_add)
next
  fix q q' :: "look_data request_queue"
  assume ok: "look_ok q" and data: "elevator_data q' = elevator_data q"
    and sim: "\<And>p. p \<in># look_pending q \<Longrightarrow> rq_similar (rqs q p) (rqs q' p)"
  have "bios (rqs q' p) = bios (rqs q p)" if "p \<in> set (look_queue (elevator_data q))" for p
    using rq_similar_bios [OF sim] that by (simp add: look_pending_def)
  then show "look_ok q' \<and> look_pending q' = look_pending q"
    using ok data by (simp add: look_ok_def look_pending_def)
next
  show "bios r' \<noteq> []" if "rq_similar r r'" "bios r \<noteq> []" for r r' :: request
    using rq_similar_bios [OF that(1)] that(2) by simp
qed (auto simp: look_ok_def look_pending_def elevator_look_def look_dispatch_empty look_queue_empty_def)

section \<open>Runs of dispatches\<close>

text \<open>No request wraps around the end of the sector space: the head never moves behind its start.\<close>

definition look_forward :: "look_data request_queue \<Rightarrow> bool" where
  "look_forward q =
     list_all (\<lambda>rq. case bios (rqs q rq) of [] \<Rightarrow> True | b # _ \<Rightarrow> blk_rq_pos (rqs q rq) \<le> bio_end b)
       (look_queue (elevator_data q))"

abbreviation look_pos :: "look_data request_queue \<Rightarrow> rqp \<Rightarrow> sector_t" where
  "look_pos q rq \<equiv> blk_rq_pos (rqs q rq)"

lemma look_step:
  assumes "elevator_dispatch_fn elevator_look q force = Some (True, q1)" "look_ok q"
    and "look_pending q = add_mset rq (look_pending q1)"
  shows "look_target q rq \<and> rqs q1 = rqs q \<and> look_ok q1 \<and>
     look_queue (elevator_data q1) = removeAll rq (look_queue (elevator_data q)) \<and>
     look_dir (elevator_data q1) = (if look_goes_up q then 1 else 0) \<and>
     (look_forward q \<longrightarrow> look_forward q1 \<and> look_pos q rq \<le> cur_pos (elevator_data q1))"
proof -
  have ne: "look_queue (elevator_data q) \<noteq> []" using assms(3) by (auto simp: look_pending_def)
  from look_dispatch_spec [OF assms(2) ne, of force] assms(1) obtain r b bs where r:
      "look_target q r" "bios (rqs q r) = b # bs"
      "q1 = (elv_dispatch_sort q r)\<lparr>elevator_data :=
         \<lparr>look_queue = removeAll r (look_queue (elevator_data q)), cur_pos = bio_end b,
          look_dir = (if look_goes_up q then 1 else 0)\<rparr>\<rparr>"
    by (auto simp: elevator_look_def)
  have mem: "r \<in> set (look_queue (elevator_data q))" using look_target_mem [OF r(1)] .
  have dist: "distinct (look_queue (elevator_data q))" using assms(2) by (simp add: look_ok_def)
  have "look_pending q1 = look_pending q - {#r#}"
    using r(3) dist by (simp add: look_pending_def mset_removeAll_distinct)
  moreover have "r \<in># look_pending q" using mem by (simp add: look_pending_def)
  ultimately have "add_mset r (look_pending q1) = add_mset rq (look_pending q1)"
    using assms(3) by (metis insert_DiffM)
  then have [simp]: "r = rq" by simp
  have f: "rqs q1 = rqs q" "look_queue (elevator_data q1) = removeAll rq (look_queue (elevator_data q))"
      "cur_pos (elevator_data q1) = bio_end b" "look_dir (elevator_data q1) = (if look_goes_up q then 1 else 0)"
    using r(3) by (simp_all add: elv_frame)
  have "look_ok q1" using assms(2) by (simp add: look_ok_def f distinct_removeAll)
  moreover have "look_forward q1 \<and> look_pos q rq \<le> bio_end b" if "look_forward q"
    using that mem r(2) by (force simp: look_forward_def list_all_iff f split: list.splits)
  ultimately show ?thesis using r(1) f by simp
qed

lemma look_serves_down:
  "serves elevator_look look_pending q xs q' \<Longrightarrow> look_ok q \<Longrightarrow> look_forward q \<Longrightarrow>
   look_dir (elevator_data q) = 0 \<Longrightarrow>
   \<forall>p \<in> set (look_queue (elevator_data q)). look_pos q p \<le> cur_pos (elevator_data q) \<Longrightarrow>
   set xs \<subseteq> set (look_queue (elevator_data q)) \<and> sorted_wrt (\<lambda>a b. look_pos q b \<le> look_pos q a) xs"
proof (induction rule: serves.induct)
  case (serves_step q force q1 rq xs q')
  note step = look_step [OF serves_step.hyps(1) serves_step.prems(1) serves_step.hyps(2)]
  have mem: "rq \<in> set (look_queue (elevator_data q))" using step look_target_mem by blast
  have down: "\<not> look_goes_up q"
    using mem serves_step.prems(3,4) by (auto simp: look_goes_up_def Let_def list_ex_iff)
  then have top: "\<forall>p \<in> set (look_queue (elevator_data q)). look_pos q p \<le> look_pos q rq"
    using step serves_step.prems(4) by (auto simp: look_target_def Let_def nearest_below_def)
  have le: "look_pos q rq \<le> cur_pos (elevator_data q1)" using step serves_step.prems(2) by blast
  have "\<forall>p \<in> set (look_queue (elevator_data q1)). look_pos q1 p \<le> cur_pos (elevator_data q1)"
    using step top le by (auto intro: order_trans)
  then have IH: "set xs \<subseteq> set (look_queue (elevator_data q1))"
      "sorted_wrt (\<lambda>a b. look_pos q1 b \<le> look_pos q1 a) xs"
    using serves_step.IH step down serves_step.prems(2) by simp_all
  then show ?case using step mem top by auto
qed simp

lemma look_serves_up:
  "serves elevator_look look_pending q xs q' \<Longrightarrow> look_ok q \<Longrightarrow> look_forward q \<Longrightarrow>
   look_dir (elevator_data q) = 1 \<Longrightarrow>
   set xs \<subseteq> set (look_queue (elevator_data q)) \<and>
   (\<exists>ups downs. xs = ups @ downs \<and> sorted_wrt (\<lambda>a b. look_pos q a \<le> look_pos q b) ups \<and>
     sorted_wrt (\<lambda>a b. look_pos q b \<le> look_pos q a) downs \<and>
     (\<forall>p \<in> set ups. cur_pos (elevator_data q) \<le> look_pos q p))"
proof (induction rule: serves.induct)
  case (serves_nil q)
  then show ?case by auto
next
  case (serves_step q force q1 rq xs q')
  note step = look_step [OF serves_step.hyps(1) serves_step.prems(1) serves_step.hyps(2)]
  have mem: "rq \<in> set (look_queue (elevator_data q))" using step look_target_mem by blast
  have le: "look_pos q rq \<le> cur_pos (elevator_data q1)" using step serves_step.prems(2) by blast
  show ?case
  proof (cases "look_goes_up q")
    case True
    then have near: "cur_pos (elevator_data q) \<le> look_pos q rq"
      using step by (auto simp: look_target_def Let_def nearest_above_def)
    have "look_dir (elevator_data q1) = 1" using step True by simp
    then obtain ups downs where IH: "set xs \<subseteq> set (look_queue (elevator_data q1))" "xs = ups @ downs"
        "sorted_wrt (\<lambda>a b. look_pos q a \<le> look_pos q b) ups"
        "sorted_wrt (\<lambda>a b. look_pos q b \<le> look_pos q a) downs"
        "\<forall>p \<in> set ups. cur_pos (elevator_data q1) \<le> look_pos q p"
      using serves_step.IH step serves_step.prems(2) by auto
    have "\<forall>p \<in> set ups. look_pos q rq \<le> look_pos q p" using IH(5) le by (auto intro: order_trans)
    then show ?thesis using IH step mem near
      by (intro conjI exI [of _ "rq # ups"] exI [of _ downs]) (auto intro: order_trans)
  next
    case False
    then have all: "\<forall>p \<in> set (look_queue (elevator_data q)). look_pos q p < cur_pos (elevator_data q)"
      using serves_step.prems(3) by (auto simp: look_goes_up_def Let_def list_ex_iff not_le)
    then have top: "\<forall>p \<in> set (look_queue (elevator_data q)). look_pos q p \<le> look_pos q rq"
      using step False by (auto simp: look_target_def Let_def nearest_below_def less_imp_le)
    have "\<forall>p \<in> set (look_queue (elevator_data q1)). look_pos q1 p \<le> cur_pos (elevator_data q1)"
      using step top le by (auto intro: order_trans)
    then have "set xs \<subseteq> set (look_queue (elevator_data q1))"
        "sorted_wrt (\<lambda>a b. look_pos q1 b \<le> look_pos q1 a) xs"
      using look_serves_down [OF serves_step.hyps(3)] step False serves_step.prems(2) by simp_all
    then show ?thesis using step mem top
      by (intro conjI exI [of _ "[]"] exI [of _ "rq # xs"]) auto
  qed
qed

section \<open>Properties\<close>

text \<open>Three requests of eight sectors at 50, 10 and 70, with the head at 40 and moving up.\<close>

definition look_sample_rq :: "sector_t \<Rightarrow> request" where
  "look_sample_rq s = rq_zero\<lparr>cmd_type := REQ_TYPE_FS, sector := s, data_len := 4096,
     bios := [bio_zero\<lparr>bi_sector := s, bi_size := 4096\<rparr>]\<rparr>"

definition look_sample :: "look_data request_queue" where
  "look_sample = (queue_zero \<lparr>look_queue = [Rq 7, Rq 8, Rq 9], cur_pos = 40, look_dir = 1\<rparr>)
     \<lparr>nr_sorted := 3,
      rqs := (\<lambda>_. rq_zero)(Rq 7 := look_sample_rq 50, Rq 8 := look_sample_rq 10, Rq 9 := look_sample_rq 70)\<rparr>"

lemma look_sample_simps:
  "elevator_data look_sample = \<lparr>look_queue = [Rq 7, Rq 8, Rq 9], cur_pos = 40, look_dir = 1\<rparr>"
  "rqs look_sample (Rq 7) = look_sample_rq 50" "rqs look_sample (Rq 8) = look_sample_rq 10"
  "rqs look_sample (Rq 9) = look_sample_rq 70" "queue_head look_sample = []"
  "bios (look_sample_rq s) = [bio_zero\<lparr>bi_sector := s, bi_size := 4096\<rparr>]"
  "blk_rq_pos (look_sample_rq s) = s" "nr_sorted look_sample = 3"
  "blk_fs_request (look_sample_rq s)" "elv_hash look_sample i = []"
  "cmd_flags (look_sample_rq s) = 0"
  by (simp_all add: look_sample_def queue_zero_def look_sample_rq_def rq_simps blk_fs_request_def rq_zero_def)

lemma look_sample_ok: "look_ok look_sample" "look_forward look_sample"
  by (simp_all add: look_ok_def look_forward_def look_sample_simps bio_end_def bio_sectors_def bio_zero_def)

text \<open>
  C5. A dispatch of the LOOK scheduler succeeds whenever a request is pending. It serves the current
  direction if some request lies ahead of the head and turns around otherwise; the request it
  takes is pending, lies ahead in the served direction, and none that does is nearer. The request
  is moved to the dispatch list and the head to the end of its first bio.
\<close>

theorem look_dispatch_nearest:
  assumes "look_ok q" "look_queue (elevator_data q) \<noteq> []"
  shows "\<exists>rq b bs q'. look_dispatch q force = Some (True, q') \<and> bios (rqs q rq) = b # bs \<and>
     rq \<in> set (look_queue (elevator_data q)) \<and>
     (if look_goes_up q
      then cur_pos (elevator_data q) \<le> look_pos q rq \<and>
           (\<forall>p \<in> set (look_queue (elevator_data q)).
              cur_pos (elevator_data q) \<le> look_pos q p \<longrightarrow> look_pos q rq \<le> look_pos q p)
      else look_pos q rq \<le> cur_pos (elevator_data q) \<and>
           (\<forall>p \<in> set (look_queue (elevator_data q)).
              look_pos q p \<le> cur_pos (elevator_data q) \<longrightarrow> look_pos q p \<le> look_pos q rq)) \<and>
     elevator_data q' = \<lparr>look_queue = removeAll rq (look_queue (elevator_data q)),
       cur_pos = bi_sector b + ucast (bio_sectors b), look_dir = (if look_goes_up q then 1 else 0)\<rparr> \<and>
     mset (queue_head q') = add_mset rq (mset (queue_head q)) \<and> nr_sorted q' = nr_sorted q - 1"
proof -
  from look_dispatch_spec [OF assms, of force] obtain rq b bs where rq: "look_target q rq"
      "bios (rqs q rq) = b # bs"
      "look_dispatch q force = Some (True, (elv_dispatch_sort q rq)\<lparr>elevator_data :=
         \<lparr>look_queue = removeAll rq (look_queue (elevator_data q)), cur_pos = bio_end b,
          look_dir = (if look_goes_up q then 1 else 0)\<rparr>\<rparr>)"
    by blast
  show ?thesis
    by (rule exI [of _ rq], rule exI [of _ b], rule exI [of _ bs], rule exI, intro conjI)
      (use rq look_target_mem [OF rq(1)] in \<open>auto simp: dispatch_sort_mset elv_frame bio_end_def
        look_target_def Let_def nearest_above_def nearest_below_def split: if_splits\<close>)
qed

theorem look_dispatch_nearest_witness:
  "\<exists>q'. look_dispatch look_sample False = Some (True, q') \<and>
     elevator_data q' = \<lparr>look_queue = [Rq 8, Rq 9], cur_pos = 58, look_dir = 1\<rparr>"
proof -
  have up: "look_goes_up look_sample"
    by (simp add: look_goes_up_def look_sample_simps)
  obtain rq b bs q' where w: "look_dispatch look_sample False = Some (True, q')"
      "bios (rqs look_sample rq) = b # bs" "rq \<in> {Rq 7, Rq 8, Rq 9}"
      "40 \<le> look_pos look_sample rq"
      "\<forall>p \<in> {Rq 7, Rq 8, Rq 9}. 40 \<le> look_pos look_sample p \<longrightarrow> look_pos look_sample rq \<le> look_pos look_sample p"
      "elevator_data q' = \<lparr>look_queue = removeAll rq [Rq 7, Rq 8, Rq 9],
         cur_pos = bi_sector b + ucast (bio_sectors b), look_dir = 1\<rparr>"
    using look_dispatch_nearest [of look_sample False] look_sample_ok(1) up
    by (auto simp: look_sample_simps)
  have "rq = Rq 7" using w(3,4,5) by (auto simp: look_sample_simps)
  then show ?thesis using w(1,2,6) by (auto simp: look_sample_simps bio_sectors_def bio_zero_def)
qed

text \<open>
  C6. With the head moving up and no arrivals, the LOOK scheduler serves all its requests in two
  sweeps: an ascending one over requests ahead of the head, then a descending one over the
  rest; forced draining performs exactly this run.
\<close>

theorem look_two_sweeps:
  assumes "look_ok q" "look_forward q" "look_dir (elevator_data q) = 1"
  shows "\<exists>ups downs q'. serves elevator_look look_pending q (ups @ downs) q' \<and>
     elv_drain_elevator elevator_look q = Some q' \<and>
     mset (ups @ downs) = look_pending q \<and> look_queue (elevator_data q') = [] \<and>
     sorted_wrt (\<lambda>a b. look_pos q a \<le> look_pos q b) ups \<and>
     sorted_wrt (\<lambda>a b. look_pos q b \<le> look_pos q a) downs \<and>
     (\<forall>p \<in> set ups. cur_pos (elevator_data q) \<le> look_pos q p)"
proof -
  obtain xs q' where run: "serves elevator_look look_pending q xs q'" "mset xs = look_pending q"
      "look_pending q' = {#}" "elv_drain_elevator elevator_look q = Some q'"
    using look.serves_all [OF assms(1)] by blast
  moreover obtain ups downs where "xs = ups @ downs" "sorted_wrt (\<lambda>a b. look_pos q a \<le> look_pos q b) ups"
      "sorted_wrt (\<lambda>a b. look_pos q b \<le> look_pos q a) downs"
      "\<forall>p \<in> set ups. cur_pos (elevator_data q) \<le> look_pos q p"
    using look_serves_up [OF run(1) assms] by blast
  ultimately show ?thesis by (auto simp: look_pending_def)
qed

theorem look_two_sweeps_witness:
  "\<exists>ups downs q'. serves elevator_look look_pending look_sample (ups @ downs) q' \<and>
     mset (ups @ downs) = {#Rq 7, Rq 8, Rq 9#} \<and> Rq 8 \<notin> set ups"
proof -
  obtain ups downs q' where w: "serves elevator_look look_pending look_sample (ups @ downs) q'"
      "mset (ups @ downs) = look_pending look_sample"
      "\<forall>p \<in> set ups. cur_pos (elevator_data look_sample) \<le> look_pos look_sample p"
    using look_two_sweeps [of look_sample] look_sample_ok by (auto simp: look_sample_simps)
  have "Rq 8 \<notin> set ups" using w(3) by (auto simp: look_sample_simps)
  then show ?thesis using w(1,2) by (auto simp: look_sample_simps look_pending_def)
qed

text \<open>
  C7. Forced draining of the LOOK scheduler ends. It leaves no request behind and loses none, brings
  \<^verbatim>\<open>nr_sorted\<close> to 0 when it counted the pending requests, and \<^verbatim>\<open>look_exit_queue\<close> then finds the list
  empty and does not stop the machine.
\<close>

theorem look_drain:
  assumes "look_ok q" "nr_sorted q = of_nat (length (look_queue (elevator_data q)))"
  shows "\<exists>q'. elv_drain_elevator elevator_look q = Some q' \<and>
     mset (queue_head q') = mset (queue_head q) + mset (look_queue (elevator_data q)) \<and>
     nr_sorted q' = 0 \<and> rqs q' = rqs q \<and> look_queue_empty q' \<and>
     look_exit_queue (elevator_data q') = Some ()"
  using look.drain_spec [OF assms(1)] assms(2)
  by (auto simp: look_pending_def look_queue_empty_def look_exit_queue_def)

theorem look_drain_witness:
  "\<exists>q'. elv_drain_elevator elevator_look look_sample = Some q' \<and>
     mset (queue_head q') = {#Rq 7, Rq 8, Rq 9#} \<and> nr_sorted q' = 0"
  using look_drain [of look_sample] look_sample_ok by (auto simp: look_sample_simps)

text \<open>
  C8. When all requests have the same direction and kind and none is a barrier, forced draining of the
  LOOK scheduler leaves the dispatch list in the order of the sorted insertion, which is ascending
  from the boundary sector and around the end of the disk. The order in which LOOK chose the
  requests is not the order in which the driver sees them.
\<close>

theorem look_drain_order:
  assumes "look_ok q" "queue_head q = []"
    and "\<forall>p \<in> set (look_queue (elevator_data q)). \<forall>r \<in> set (look_queue (elevator_data q)).
           \<not> sort_stops_at (rqs q p) (rqs q r)"
  shows "\<exists>q'. elv_drain_elevator elevator_look q = Some q' \<and>
     mset (queue_head q') = mset (look_queue (elevator_data q)) \<and>
     sorted_wrt (\<lambda>a b. blk_rq_pos (rqs q' a) - end_sector q' \<le> blk_rq_pos (rqs q' b) - end_sector q')
       (queue_head q')"
proof -
  have "look.one_kind q" "look.swept q"
    using assms(2,3) by (simp_all add: look.one_kind_def look.swept_def look_pending_def)
  then obtain q' where "elv_drain_elevator elevator_look q = Some q'" "look.swept q'"
    using look.drain_swept [OF assms(1)] by blast
  then show ?thesis
    using look.drain_spec [OF assms(1)] assms(2)
    by (auto simp: look.swept_def sweep_dist_def look_pending_def)
qed

lemma look_sample_one_kind:
  "\<not> sort_stops_at (look_sample_rq s) (look_sample_rq t)"
  by (simp add: sort_stops_at_def rq_flagged_def blk_discard_rq_def look_sample_simps rq_data_dir_def)

theorem look_drain_order_witness:
  "\<exists>q'. elv_drain_elevator elevator_look look_sample = Some q' \<and>
     mset (queue_head q') = {#Rq 7, Rq 8, Rq 9#} \<and>
     sorted_wrt (\<lambda>a b. blk_rq_pos (rqs q' a) - end_sector q' \<le> blk_rq_pos (rqs q' b) - end_sector q')
       (queue_head q')"
  using look_drain_order [of look_sample] look_sample_ok look_sample_one_kind
  by (auto simp: look_sample_simps)

text \<open>Moving down, with a single nearest request below the head.\<close>

lemma look_dispatch_down:
  assumes "look_ok q" "look_dir (elevator_data q) = 0" "a \<in> set (look_queue (elevator_data q))" "bios (rqs q a) = b # bs"
    and nearest: "look_pos q a \<le> cur_pos (elevator_data q)"
      "\<forall>p \<in> set (look_queue (elevator_data q)). p \<noteq> a \<longrightarrow> look_pos q p \<le> cur_pos (elevator_data q) \<longrightarrow> look_pos q p < look_pos q a"
  shows "look_dispatch q force = Some (True, (elv_dispatch_sort q a)\<lparr>elevator_data :=
     \<lparr>look_queue = removeAll a (look_queue (elevator_data q)), cur_pos = bio_end b, look_dir = 0\<rparr>\<rparr>)"
proof -
  have first: "look_queue (elevator_data q) \<noteq> []" using assms(3) by auto
  have down: "\<not> look_goes_up q" using assms(2,3) nearest(1) by (auto simp: look_goes_up_def Let_def list_ex_iff)
  from look_dispatch_spec [OF assms(1) first, of force] obtain rq b1 bs1 where
    one: "look_target q rq" "bios (rqs q rq) = b1 # bs1"
      "look_dispatch q force = Some (True, (elv_dispatch_sort q rq)\<lparr>elevator_data :=
         \<lparr>look_queue = removeAll rq (look_queue (elevator_data q)), cur_pos = bio_end b1, look_dir = 0\<rparr>\<rparr>)"
    using down by auto
  have "rq = a"
  proof (rule ccontr)
    assume "rq \<noteq> a"
    then have "look_pos q rq < look_pos q a" "look_pos q a \<le> look_pos q rq"
      using one(1) down nearest assms(3) by (auto simp: look_target_def Let_def nearest_below_def)
    then show False by simp
  qed
  then show ?thesis using one(2,3) assms(4) by simp
qed

text \<open>
  C9. Moving down, the scheduler serves a higher request after a lower one, without turning
  around, whenever a request starts above the head but inside the first bio of the request that is
  nearest below it, and is the highest one that does: the head is put at the end of the request
  just served, so the other one counts as lying below.
\<close>

theorem look_down_not_monotone:
  assumes "look_ok q" "look_dir (elevator_data q) = 0" "a \<in> set (look_queue (elevator_data q))"
    and "c \<in> set (look_queue (elevator_data q))" "bios (rqs q a) = b # bs"
    and nearest: "look_pos q a \<le> cur_pos (elevator_data q)"
      "\<forall>p \<in> set (look_queue (elevator_data q)). p \<noteq> a \<longrightarrow> look_pos q p \<le> cur_pos (elevator_data q) \<longrightarrow> look_pos q p < look_pos q a"
    and inside: "cur_pos (elevator_data q) < look_pos q c" "look_pos q c \<le> bi_sector b + ucast (bio_sectors b)"
      "\<forall>p \<in> set (look_queue (elevator_data q)). p \<noteq> a \<longrightarrow> p \<noteq> c \<longrightarrow>
         look_pos q p \<le> bi_sector b + ucast (bio_sectors b) \<longrightarrow> look_pos q p < look_pos q c"
  shows "\<exists>q1 q2. look_dispatch q force = Some (True, q1) \<and> look_dispatch q1 force = Some (True, q2) \<and>
     look_queue (elevator_data q1) = removeAll a (look_queue (elevator_data q)) \<and>
     look_queue (elevator_data q2) = removeAll c (look_queue (elevator_data q1)) \<and>
     look_dir (elevator_data q1) = 0 \<and> look_dir (elevator_data q2) = 0 \<and> look_pos q a < look_pos q c"
proof -
  define q1 where "q1 = (elv_dispatch_sort q a)\<lparr>elevator_data :=
         \<lparr>look_queue = removeAll a (look_queue (elevator_data q)), cur_pos = bio_end b, look_dir = 0\<rparr>\<rparr>"
  have run1: "look_dispatch q force = Some (True, q1)"
    using look_dispatch_down [OF assms(1-3,5) nearest] by (simp add: q1_def)
  have q1: "look_queue (elevator_data q1) = removeAll a (look_queue (elevator_data q))" "cur_pos (elevator_data q1) = bio_end b"
      "look_dir (elevator_data q1) = 0" "rqs q1 = rqs q"
    by (simp_all add: q1_def elv_frame)
  have ne: "a \<noteq> c" using nearest(1) inside(1) by auto
  then have c: "c \<in> set (look_queue (elevator_data q1))" using assms(4) by (simp add: q1(1))
  have ok1: "look_ok q1" using assms(1) by (auto simp: look_ok_def q1 distinct_removeAll)
  obtain b2 bs2 where b2: "bios (rqs q1 c) = b2 # bs2" using ok1 c by (meson list.exhaust look_ok_def)
  have "look_pos q1 c \<le> cur_pos (elevator_data q1)" using inside(2) by (simp add: q1 bio_end_def)
  moreover have "\<forall>p \<in> set (look_queue (elevator_data q1)). p \<noteq> c \<longrightarrow>
      look_pos q1 p \<le> cur_pos (elevator_data q1) \<longrightarrow> look_pos q1 p < look_pos q1 c"
    using inside(3) by (simp add: q1 bio_end_def)
  ultimately have "look_dispatch q1 force = Some (True, (elv_dispatch_sort q1 c)\<lparr>elevator_data :=
      \<lparr>look_queue = removeAll c (look_queue (elevator_data q1)), cur_pos = bio_end b2, look_dir = 0\<rparr>\<rparr>)"
    by (rule look_dispatch_down [OF ok1 q1(3) c b2])
  then show ?thesis using run1 q1 le_less_trans [OF nearest(1) inside(1)] by - (rule exI [of _ q1], simp)
qed

definition look_down_sample :: "look_data request_queue" where
  "look_down_sample = (queue_zero \<lparr>look_queue = [Rq 7, Rq 8], cur_pos = 102, look_dir = 0\<rparr>)
     \<lparr>nr_sorted := 2, rqs := (\<lambda>_. rq_zero)(Rq 7 := look_sample_rq 100, Rq 8 := look_sample_rq 105)\<rparr>"

theorem look_down_not_monotone_witness:
  "\<exists>q1 q2. look_dispatch look_down_sample False = Some (True, q1) \<and> look_dispatch q1 False = Some (True, q2) \<and>
     look_queue (elevator_data q1) = [Rq 8] \<and> look_queue (elevator_data q2) = [] \<and> look_dir (elevator_data q2) = 0"
proof -
  have s: "elevator_data look_down_sample = \<lparr>look_queue = [Rq 7, Rq 8], cur_pos = 102, look_dir = 0\<rparr>"
      "rqs look_down_sample (Rq 7) = look_sample_rq 100" "rqs look_down_sample (Rq 8) = look_sample_rq 105"
    by (simp_all add: look_down_sample_def queue_zero_def)
  have ok: "look_ok look_down_sample" by (simp add: look_ok_def s look_sample_simps)
  let ?b = "bio_zero\<lparr>bi_sector := 100, bi_size := 4096\<rparr>"
  have "bios (rqs look_down_sample (Rq 7)) = ?b # []" by (simp add: s look_sample_simps)
  from look_down_not_monotone [OF ok, of "Rq 7" "Rq 8" ?b "[]" False] this show ?thesis
    by (auto simp: s look_sample_simps bio_sectors_def bio_zero_def)
qed

text \<open>
  A back insertion, which barriers use, on a queue scheduled by LOOK: when the driver is
  started, everything that was pending or dispatched is in front of the new request, LOOK is empty, and
  the request carries the flag that stops later requests from being sorted past it.
\<close>

theorem look_insert_back:
  assumes "look_ok q"
  shows "\<exists>q1 front. elv_insert_at elevator_look request_fn q rq ELEVATOR_INSERT_BACK =
       blk_run_queue elevator_look request_fn q1 \<and>
     queue_head q1 = front @ [rq] \<and>
     mset front = mset (queue_head q) + mset (look_queue (elevator_data q)) \<and>
     look_queue_empty q1 \<and> rq_flagged (rqs q1 rq) REQ_SOFTBARRIER"
  using look.insert_back_spec [OF assms, of request_fn rq]
  by (auto simp: look_pending_def look_queue_empty_def)

theorem look_insert_back_witness:
  "\<exists>q1 front. elv_insert_at elevator_look Some look_sample BarRq ELEVATOR_INSERT_BACK =
       blk_run_queue elevator_look Some q1 \<and>
     queue_head q1 = front @ [BarRq] \<and> mset front = {#Rq 7, Rq 8, Rq 9#}"
  using look_insert_back [OF look_sample_ok(1), of Some BarRq] by (auto simp: look_sample_simps)

text \<open>
  C17. A sorted insertion (\<^verbatim>\<open>elv_insert\<close>) of a file system request into a queue scheduled by LOOK
  succeeds. The request is appended to LOOK's list and the dispatch list stays as it is; it is flagged
  as sorted and counted; it enters the merge hash, and becomes the merge hint if there is none,
  exactly if it may be merged; and head position and direction stay. Then the queue is unplugged if
  it is plugged and enough requests wait, and left alone otherwise.
\<close>

theorem look_insert_sort:
  assumes "look_ok q" "elv_hash_ok q" "rq \<notin> hashed q" "rq \<notin> set (look_queue (elevator_data q))"
    and "bios (rqs q rq) \<noteq> []" "blk_fs_request (rqs q rq)"
  shows "\<exists>q'. elv_insert elevator_look request_fn q rq ELEVATOR_INSERT_SORT =
       (if blk_queue_plugged q \<and> unplug_thresh q \<le> rq_count q True + rq_count q False - sint (queue_in_flight q)
        then generic_unplug_device_locked request_fn q' else Some q') \<and>
     look_ok q' \<and> elv_hash_ok q' \<and> queue_head q' = queue_head q \<and>
     elevator_data q' = (elevator_data q)\<lparr>look_queue := look_queue (elevator_data q) @ [rq]\<rparr> \<and>
     hashed q' = (if rq_mergeable (rqs q rq) then insert rq (hashed q) else hashed q) \<and>
     last_merge q' = (if rq_mergeable (rqs q rq) \<and> last_merge q = None then Some rq else last_merge q) \<and>
     nr_sorted q' = nr_sorted q + 1 \<and> rqs q' = (rqs q)(rq := rq_set_flag REQ_SORTED (rqs q rq))"
proof -
  let ?l = "if rq_mergeable (rqs q rq) \<and> last_merge q = None then Some rq else last_merge q"
  from insert_sort_prepared [OF assms(2,3), of elevator_look request_fn] assms(6) obtain h where
    h: "elv_insert_at elevator_look request_fn q rq ELEVATOR_INSERT_SORT = look_add_request (sort_prepared q rq h ?l) rq"
      "elv_hash_ok (sort_prepared q rq h ?l)"
      "hashed (sort_prepared q rq h ?l) = (if rq_mergeable (rqs q rq) then insert rq (hashed q) else hashed q)"
    unfolding Let_def by (auto simp: elevator_look_def)
  let ?q = "(sort_prepared q rq h ?l)\<lparr>elevator_data := (elevator_data q)\<lparr>look_queue := look_queue (elevator_data q) @ [rq]\<rparr>\<rparr>"
  have at: "elv_insert_at elevator_look request_fn q rq ELEVATOR_INSERT_SORT = Some ?q"
    unfolding h(1) by (simp add: look_add_request_def Let_def sort_prepared_def)
  have hash: "elv_hash_ok ?q" "hashed ?q = (if rq_mergeable (rqs q rq) then insert rq (hashed q) else hashed q)"
    using h(2,3) by (simp_all add: elv_hash_ok_but_def hashed_def)
  have "bios (rq_set_flag REQ_SORTED r) = bios r" for r by (simp add: rq_set_flag_def)
  then have "look_ok ?q" using assms(1,4,5) by (auto simp: look_ok_def sort_prepared_def)
  moreover have "elv_insert elevator_look request_fn q rq ELEVATOR_INSERT_SORT =
       (if blk_queue_plugged q \<and> unplug_thresh q \<le> rq_count q True + rq_count q False - sint (queue_in_flight q)
        then generic_unplug_device_locked request_fn ?q else Some ?q)"
    by (simp add: elv_insert_def at Let_def sort_prepared_def queue_flag_test_def queue_in_flight_def)
  ultimately show ?thesis using hash by (intro exI [of _ ?q]) (simp add: sort_prepared_def)
qed

theorem look_insert_sort_witness:
  "\<exists>q'. elv_insert elevator_look Some
       (look_sample\<lparr>rqs := (rqs look_sample)(Rq 6 := look_sample_rq 30)\<rparr>) (Rq 6) ELEVATOR_INSERT_SORT = Some q' \<and>
     look_queue (elevator_data q') = [Rq 7, Rq 8, Rq 9, Rq 6] \<and> hashed q' = {Rq 6} \<and> last_merge q' = Some (Rq 6)"
proof -
  let ?q = "look_sample\<lparr>rqs := (rqs look_sample)(Rq 6 := look_sample_rq 30)\<rparr>"
  have "look_ok ?q" "elv_hash_ok ?q" "hashed ?q = {}" "last_merge ?q = None" "\<not> blk_queue_plugged ?q" "rq_mergeable (rqs ?q (Rq 6))"
    by (simp_all add: look_ok_def elv_hash_ok_but_def hashed_def look_sample_simps queue_flag_test_def look_sample_def queue_zero_def
        rq_mergeable_iff rq_flagged_def look_sample_rq_def rq_zero_def blk_fs_request_def)
  then show ?thesis using look_insert_sort [of ?q "Rq 6" Some] by (auto simp: look_sample_simps)
qed

end
