(* ===== verification/Noop.thy ===== *)
theory Noop
  imports Iosched
begin

text \<open>
  The no-op I/O scheduler of \<^verbatim>\<open>block/noop-iosched.c\<close>: a first-in first-out list. It satisfies the
  scheduler contract, and its own guarantee is that requests leave in the order they came.
\<close>

record noop_data =
  noop_queue :: "rqp list"

definition noop_merged_requests ::
    "noop_data request_queue \<Rightarrow> rqp \<Rightarrow> rqp \<Rightarrow> noop_data request_queue option" where
  "noop_merged_requests q rq nxt =
     Some (q\<lparr>elevator_data := (elevator_data q)\<lparr>noop_queue := removeAll nxt (noop_queue (elevator_data q))\<rparr>\<rparr>)"

definition noop_dispatch ::
    "noop_data request_queue \<Rightarrow> bool \<Rightarrow> (bool \<times> noop_data request_queue) option" where
  "noop_dispatch q force =
     (let nd = elevator_data q
      in case noop_queue nd of
           rq # _ \<Rightarrow>
             (let q = q\<lparr>elevator_data := nd\<lparr>noop_queue := removeAll rq (noop_queue nd)\<rparr>\<rparr>
              in Some (True, elv_dispatch_sort q rq))
         | [] \<Rightarrow> Some (False, q))"

definition noop_add_request ::
    "noop_data request_queue \<Rightarrow> rqp \<Rightarrow> noop_data request_queue option" where
  "noop_add_request q rq =
     (let nd = elevator_data q
      in Some (q\<lparr>elevator_data := nd\<lparr>noop_queue := noop_queue nd @ [rq]\<rparr>\<rparr>))"

definition noop_queue_empty :: "noop_data request_queue \<Rightarrow> bool" where
  "noop_queue_empty q \<longleftrightarrow> noop_queue (elevator_data q) = []"

definition noop_former_request :: "noop_data request_queue \<Rightarrow> rqp \<Rightarrow> rqp option option" where
  "noop_former_request q rq = queuelist_prev (noop_queue (elevator_data q)) q rq"

definition noop_latter_request :: "noop_data request_queue \<Rightarrow> rqp \<Rightarrow> rqp option option" where
  "noop_latter_request q rq = queuelist_next (noop_queue (elevator_data q)) q rq"

definition noop_init_queue :: "bool \<Rightarrow> noop_data option" where
  "noop_init_queue mem = (if \<not> mem then None else Some \<lparr>noop_queue = []\<rparr>)"

definition noop_exit_queue :: "noop_data \<Rightarrow> unit option" where
  "noop_exit_queue nd = (if noop_queue nd \<noteq> [] then None else Some ())"

definition elevator_noop :: "noop_data elevator_ops" where
  "elevator_noop = \<lparr>
     elevator_merge_fn = None, elevator_merged_fn = None,
     elevator_merge_req_fn = Some noop_merged_requests, elevator_allow_merge_fn = None,
     elevator_dispatch_fn = noop_dispatch, elevator_add_req_fn = noop_add_request,
     elevator_activate_req_fn = None, elevator_deactivate_req_fn = None,
     elevator_queue_empty_fn = Some noop_queue_empty, elevator_completed_req_fn = None,
     elevator_former_req_fn = Some noop_former_request,
     elevator_latter_req_fn = Some noop_latter_request, elevator_set_req_fn = None,
     elevator_put_req_fn = None, elevator_may_queue_fn = None,
     elevator_init_fn = noop_init_queue, elevator_exit_fn = Some noop_exit_queue\<rparr>"

section \<open>The contract\<close>

definition noop_pending :: "noop_data request_queue \<Rightarrow> rqp multiset" where
  "noop_pending q = mset (noop_queue (elevator_data q))"

definition noop_ok :: "noop_data request_queue \<Rightarrow> bool" where
  "noop_ok q \<longleftrightarrow> distinct (noop_queue (elevator_data q))"

lemma noop_dispatch_Cons:
  assumes "noop_queue (elevator_data q) = rq # rest" "distinct (rq # rest)"
  shows "noop_dispatch q force =
     Some (True, (elv_dispatch_sort q rq)\<lparr>elevator_data := (elevator_data q)\<lparr>noop_queue := rest\<rparr>\<rparr>)"
  using assms by (simp add: noop_dispatch_def Let_def dispatch_sort_data_commute removeAll_id)

lemma noop_dispatch_Nil:
  "noop_queue (elevator_data q) = [] \<Longrightarrow> noop_dispatch q force = Some (False, q)"
  by (simp add: noop_dispatch_def Let_def)

interpretation noop: sorting_iosched elevator_noop noop_pending noop_ok "\<lambda>_. True"
proof unfold_locales
  fix q :: "noop_data request_queue" and force
  assume ok: "noop_ok q" and ne: "noop_pending q \<noteq> {#}"
  then obtain rq rest where q: "noop_queue (elevator_data q) = rq # rest" "distinct (rq # rest)"
    by (cases "noop_queue (elevator_data q)") (auto simp: noop_ok_def noop_pending_def)
  show "\<exists>rq q'. elevator_dispatch_fn elevator_noop q force = Some (True, q') \<and> rq \<in># noop_pending q \<and>
          noop_pending q' = noop_pending q - {#rq#} \<and> dispatched rq q q' \<and> noop_ok q'"
    using q noop_dispatch_Cons [OF q, of force]
    by (auto simp: elevator_noop_def noop_pending_def noop_ok_def dispatched_sort intro!: exI [of _ rq])
  show "\<exists>rq d. q' = (elv_dispatch_sort q rq)\<lparr>elevator_data := d\<rparr>"
    if "elevator_dispatch_fn elevator_noop q force = Some (b, q')" for b q'
    using that noop_dispatch_Cons [OF q, of force] by (auto simp: elevator_noop_def)
next
  fix q :: "noop_data request_queue" and rq
  assume "noop_ok q" "rq \<notin># noop_pending q"
  then show "\<exists>q'. elevator_add_req_fn elevator_noop q rq = Some q' \<and> took noop_pending rq q q' \<and> noop_ok q'"
    by (auto simp: elevator_noop_def noop_add_request_def Let_def noop_ok_def noop_pending_def
        intro: took_add)
qed (auto simp: noop_ok_def noop_pending_def elevator_noop_def noop_dispatch_Nil noop_queue_empty_def)

section \<open>First in, first out\<close>

lemma noop_serves_prefix:
  "serves elevator_noop noop_pending q xs q' \<Longrightarrow> noop_ok q \<Longrightarrow>
   noop_queue (elevator_data q) = xs @ noop_queue (elevator_data q')"
proof (induction rule: serves.induct)
  case (serves_step q force q1 rq xs q')
  obtain r rest where q: "noop_queue (elevator_data q) = r # rest"
    using serves_step.hyps(2) by (cases "noop_queue (elevator_data q)") (auto simp: noop_pending_def)
  have d: "distinct (r # rest)" using serves_step.prems q by (simp add: noop_ok_def)
  have rest: "noop_queue (elevator_data q1) = rest"
    using serves_step.hyps(1) noop_dispatch_Cons [OF q d, of force] by (auto simp: elevator_noop_def)
  then have "rq = r" using serves_step.hyps(2) q by (simp add: noop_pending_def)
  then show ?case using q rest serves_step.IH d by (simp add: noop_ok_def)
qed simp

end
