(* ===== verification/Elevator_Props.thy ===== *)
theory Elevator_Props
  imports Noop
begin

text \<open>
  What the elevator core promises: the order of the dispatch list, the lookups of the merge hash,
  the merge decisions and the place of a requeued request in an ordered sequence.
\<close>

section \<open>Requeueing in sequence order\<close>

lemma and_flag_set_other:
  "f \<noteq> g \<Longrightarrow> (w OR REQ f) AND REQ g = w AND REQ g"
  by (rule bit_eqI) (auto simp: bit_simps bit_REQ)

lemma cmd_flags_set_flag: "cmd_flags (rq_set_flag f r) = cmd_flags r OR REQ f"
  by (simp add: rq_set_flag_def)

lemma req_seq_set_flag:
  "f \<noteq> REQ_ORDERED_COLOR \<Longrightarrow>
   blk_ordered_req_seq (rq_upd p (rq_set_flag f) q) x = blk_ordered_req_seq q x"
  by (auto simp: blk_ordered_req_seq_def rq_upd_def blk_fs_request_def cmd_flags_set_flag
      and_flag_set_other split: option.splits)

lemma requeue_in_seq_spec:
  assumes "\<forall>p \<in> set xs. blk_ordered_req_seq q p = Some (seq_of p)" "sorted (map seq_of xs)"
  shows "\<exists>us vs. requeue_in_seq q rq s xs = Some (us @ rq # vs) \<and> xs = us @ vs \<and>
     (\<forall>p \<in> set us. seq_of p < s) \<and> (\<forall>p \<in> set vs. s \<le> seq_of p)"
  using assms
proof (induction xs)
  case (Cons x xs)
  show ?case
  proof (cases "s \<le> seq_of x")
    case True
    then show ?thesis using Cons.prems
      by (intro exI [of _ "[]"] exI [of _ "x # xs"]) (auto intro: order_trans)
  next
    case False
    from Cons obtain us vs where "requeue_in_seq q rq s xs = Some (us @ rq # vs)" "xs = us @ vs"
        "\<forall>p \<in> set us. seq_of p < s" "\<forall>p \<in> set vs. s \<le> seq_of p"
      by auto
    then show ?thesis using False Cons.prems
      by (intro exI [of _ "x # us"] exI [of _ vs]) (auto simp: not_le)
  qed
qed simp

section \<open>Properties\<close>

text \<open>
  C18. \<^verbatim>\<open>elv_dispatch_sort\<close> inserts a request into the last run of the dispatch list that it may be
  sorted into (same direction and kind, no barrier or started request in between). If that run is
  ordered by the distance from the boundary sector, upwards and around the end of the disk, it
  stays so; requests with the same distance keep their order of arrival, and everything in front
  of the run is untouched.
\<close>

theorem elv_dispatch_sort_order:
  assumes "queue_head q = pre @ run"
    and "\<forall>p \<in> set run. \<not> sort_stops_at (rqs q rq) (rqs q p)"
    and "pre = [] \<or> sort_stops_at (rqs q rq) (rqs q (last pre))"
    and "sorted_wrt (\<lambda>a b. blk_rq_pos (rqs q a) - end_sector q \<le> blk_rq_pos (rqs q b) - end_sector q) run"
  shows "\<exists>us vs. run = us @ vs \<and> queue_head (elv_dispatch_sort q rq) = pre @ us @ rq # vs \<and>
     sorted_wrt (\<lambda>a b. blk_rq_pos (rqs q a) - end_sector q \<le> blk_rq_pos (rqs q b) - end_sector q) (us @ rq # vs) \<and>
     (\<forall>p \<in> set vs. blk_rq_pos (rqs q p) \<noteq> blk_rq_pos (rqs q rq))"
proof -
  from dispatch_sort_run [OF assms(1,2,3)] assms(4) obtain us vs where
      uv: "run = us @ vs" "queue_head (elv_dispatch_sort q rq) = pre @ us @ rq # vs"
      "\<forall>p \<in> set us. sweep_dist (end_sector q) (rqs q p) \<le> sweep_dist (end_sector q) (rqs q rq)"
      "\<forall>p \<in> set vs. sweep_dist (end_sector q) (rqs q rq) < sweep_dist (end_sector q) (rqs q p)"
    unfolding sweep_dist_def by blast
  have "sorted_wrt (\<lambda>a b. blk_rq_pos (rqs q a) - end_sector q \<le> blk_rq_pos (rqs q b) - end_sector q) (us @ rq # vs)"
    using uv(3,4) assms(4) unfolding uv(1) by (auto simp: sorted_wrt_append sweep_dist_def less_imp_le)
  moreover have "\<forall>p \<in> set vs. blk_rq_pos (rqs q p) \<noteq> blk_rq_pos (rqs q rq)"
    using uv(4) by (auto simp: sweep_dist_def)
  ultimately show ?thesis using uv(1,2) by blast
qed

definition sort_sample :: "unit request_queue" where
  "sort_sample = (queue_zero ())\<lparr>queue_head := [Rq 7, Rq 8], end_sector := 60, nr_sorted := 1,
     rqs := (\<lambda>_. rq_zero)(Rq 7 := rq_zero\<lparr>sector := 70\<rparr>, Rq 8 := rq_zero\<lparr>sector := 50\<rparr>, Rq 9 := rq_zero\<lparr>sector := 80\<rparr>)\<rparr>"

theorem elv_dispatch_sort_order_witness:
  "queue_head (elv_dispatch_sort sort_sample (Rq 9)) = [Rq 7, Rq 9, Rq 8]"
proof -
  have simps: "\<not> sort_stops_at (rq_zero\<lparr>sector := s\<rparr>) (rq_zero\<lparr>sector := t\<rparr>)" for s t
    by (simp add: sort_stops_at_def blk_discard_rq_def rq_flagged_def rq_data_dir_def rq_zero_def)
  obtain us vs where "[Rq 7, Rq 8] = us @ vs"
      "queue_head (elv_dispatch_sort sort_sample (Rq 9)) = us @ Rq 9 # vs"
      "sorted_wrt (\<lambda>a b. blk_rq_pos (rqs sort_sample a) - 60 \<le> blk_rq_pos (rqs sort_sample b) - 60) (us @ Rq 9 # vs)"
    using elv_dispatch_sort_order [of sort_sample "[]" "[Rq 7, Rq 8]" "Rq 9"]
    by (auto simp: sort_sample_def queue_zero_def simps rq_simps word_le_def)
  moreover from this(1) have "us = [] \<and> vs = [Rq 7, Rq 8] \<or> us = [Rq 7] \<and> vs = [Rq 8] \<or> us = [Rq 7, Rq 8] \<and> vs = []"
    by (auto simp: Cons_eq_append_conv)
  ultimately show ?thesis
    by (auto simp: sort_sample_def queue_zero_def rq_simps word_le_def)
qed

text \<open>
  C19. A lookup in the merge hash never stops. It returns a hashed, mergeable request that ends at the
  sector asked for whenever there is one, keeps every request in the bucket of its end sector, and
  takes only requests off the hash that can no longer be merged.
\<close>

theorem elv_rqhash_find_correct:
  assumes "elv_hash_ok q"
  shows "\<exists>r q'. elv_rqhash_find q off = Some (r, q') \<and> elv_hash_ok q' \<and> rqs q' = rqs q \<and>
     hashed q' \<subseteq> hashed q \<and> (\<forall>p \<in> hashed q - hashed q'. \<not> rq_mergeable (rqs q p)) \<and>
     (case r of
        Some rq \<Rightarrow> rq \<in> hashed q \<and> rq_mergeable (rqs q rq) \<and> rq_end_sector (rqs q rq) = off
      | None \<Rightarrow> \<not> (\<exists>rq \<in> hashed q. rq_mergeable (rqs q rq) \<and> rq_end_sector (rqs q rq) = off))"
proof -
  have key: "rq_end_sector r = rq_hash_key r" for r by (simp add: rq_end_sector_def rq_hash_key_def)
  obtain r q' where q': "elv_rqhash_find q off = Some (r, q')" "q' = q\<lparr>elv_hash := elv_hash q'\<rparr>"
      "elv_hash_ok q'" "hashed q' \<subseteq> hashed q" "\<forall>p \<in> hashed q - hashed q'. \<not> rq_mergeable (rqs q p)"
      "case r of
         Some rq \<Rightarrow> rq \<in> hashed q \<and> rq_mergeable (rqs q rq) \<and> rq_hash_key (rqs q rq) = off
       | None \<Rightarrow> \<forall>rq \<in> hashed q. rq_mergeable (rqs q rq) \<longrightarrow> rq_hash_key (rqs q rq) \<noteq> off"
    using rqhash_find_spec [OF assms, of off] by blast
  have "rqs q' = rqs q" by (subst q'(2)) simp
  then show ?thesis using q' unfolding key by (auto split: option.splits)
qed

definition hash_sample :: "noop_data request_queue" where
  "hash_sample = (queue_zero \<lparr>noop_queue = [Rq 7]\<rparr>)\<lparr>elv_hash := (\<lambda>_. [])(ELV_HASH_FN 18 := [Rq 7]),
     rqs := (\<lambda>_. rq_zero)(Rq 7 := rq_zero\<lparr>cmd_type := REQ_TYPE_FS, sector := 10, data_len := 4096,
        bios := [bio_zero\<lparr>bi_sector := 10, bi_size := 4096\<rparr>]\<rparr>)\<rparr>"

lemma hash_sample_ok: "elv_hash_ok hash_sample" "hashed hash_sample = {Rq 7}"
  using ELV_HASH_FN_less [of 18]
  by (auto simp: elv_hash_ok_but_def hash_sample_def queue_zero_def hashed_def rq_hash_key_def
      rq_simps split: if_splits)

lemma hash_sample_rq:
  "rq_mergeable (rqs hash_sample (Rq 7))" "rq_end_sector (rqs hash_sample (Rq 7)) = 18"
  by (simp_all add: hash_sample_def rq_mergeable_def rq_zero_def blk_fs_request_def rq_simps)

theorem elv_rqhash_find_correct_witness:
  "\<exists>q'. elv_rqhash_find hash_sample 18 = Some (Some (Rq 7), q')"
proof -
  obtain r q' where "elv_rqhash_find hash_sample 18 = Some (r, q')"
      "case r of
         Some rq \<Rightarrow> rq \<in> hashed hash_sample \<and> rq_mergeable (rqs hash_sample rq) \<and> rq_end_sector (rqs hash_sample rq) = 18
       | None \<Rightarrow> \<not> (\<exists>rq \<in> hashed hash_sample. rq_mergeable (rqs hash_sample rq) \<and> rq_end_sector (rqs hash_sample rq) = 18)"
    using elv_rqhash_find_correct [OF hash_sample_ok(1), of 18] by blast
  then show ?thesis using hash_sample_ok(2) hash_sample_rq by (cases r) auto
qed

text \<open>
  A request that is requeued while an ordered sequence runs is put where its step of the sequence
  belongs: a dispatch list ordered by steps stays ordered, the request goes in front of the others
  of its step, and it is marked so that nothing is sorted past it.
\<close>

theorem elv_requeue_order:
  assumes "ordseq q \<noteq> 0" "\<forall>p \<in> set (queue_head q). blk_ordered_req_seq q p = Some (seq_of p)"
    and "blk_ordered_req_seq q rq = Some (seq_of rq)" "sorted (map seq_of (queue_head q))"
  shows "\<exists>q' us vs. elv_insert ops request_fn q rq ELEVATOR_INSERT_REQUEUE = Some q' \<and>
     queue_head q = us @ vs \<and> queue_head q' = us @ rq # vs \<and> sorted (map seq_of (queue_head q')) \<and>
     (\<forall>p \<in> set us. seq_of p < seq_of rq) \<and> rq_flagged (rqs q' rq) REQ_SOFTBARRIER"
proof -
  let ?q = "rq_upd rq (rq_set_flag REQ_SOFTBARRIER) q"
  have seq: "blk_ordered_req_seq ?q p = blk_ordered_req_seq q p" for p by (rule req_seq_set_flag) simp
  have head: "queue_head ?q = queue_head q" "ordseq ?q = ordseq q" by (simp_all add: rq_upd_def)
  from requeue_in_seq_spec [of "queue_head q" ?q seq_of rq "seq_of rq"] assms(2,4) obtain us vs where
      uv: "requeue_in_seq ?q rq (seq_of rq) (queue_head q) = Some (us @ rq # vs)" "queue_head q = us @ vs"
      "\<forall>p \<in> set us. seq_of p < seq_of rq" "\<forall>p \<in> set vs. seq_of rq \<le> seq_of p"
    unfolding seq by blast
  have "elv_insert ops request_fn q rq ELEVATOR_INSERT_REQUEUE = Some (?q\<lparr>queue_head := us @ rq # vs\<rparr>)"
    using assms(1,3) uv(1) by (simp add: elv_insert_def elv_insert_at_def Let_def seq head)
  moreover have "sorted (map seq_of (us @ rq # vs))"
    using assms(4) uv(2,3,4) by (auto simp: sorted_append less_imp_le)
  ultimately show ?thesis using uv(2,3) by (auto simp: rq_upd_def)
qed

definition requeue_sample :: "unit request_queue" where
  "requeue_sample = (queue_zero ())\<lparr>queue_head := [PreFlushRq, PostFlushRq], ordseq := 3\<rparr>"

theorem elv_requeue_order_witness:
  "\<exists>q'. elv_insert undefined undefined requeue_sample BarRq ELEVATOR_INSERT_REQUEUE = Some q' \<and>
     PreFlushRq \<in> set (queue_head q') \<and> BarRq \<in> set (queue_head q')"
proof -
  let ?seq = "\<lambda>p. if p = PreFlushRq then QUEUE_ORDSEQ_PREFLUSH
                  else if p = BarRq then QUEUE_ORDSEQ_BAR else QUEUE_ORDSEQ_POSTFLUSH"
  have "\<exists>q' us vs. elv_insert undefined undefined requeue_sample BarRq ELEVATOR_INSERT_REQUEUE = Some q' \<and>
     queue_head requeue_sample = us @ vs \<and> queue_head q' = us @ BarRq # vs \<and>
     sorted (map ?seq (queue_head q')) \<and> (\<forall>p \<in> set us. ?seq p < ?seq BarRq) \<and>
     rq_flagged (rqs q' BarRq) REQ_SOFTBARRIER"
    by (rule elv_requeue_order)
      (simp_all add: requeue_sample_def queue_zero_def blk_ordered_req_seq_def QUEUE_ORDSEQ_defs)
  then obtain q' us vs where w:
      "elv_insert undefined undefined requeue_sample BarRq ELEVATOR_INSERT_REQUEUE = Some q'"
      "queue_head requeue_sample = us @ vs" "queue_head q' = us @ BarRq # vs" by blast
  have "PreFlushRq \<in> set (us @ vs)" unfolding w(2) [symmetric] by (simp add: requeue_sample_def)
  then show ?thesis using w by auto
qed

text \<open>
  C20. A merge decision is sound for every scheduler that leaves merging to the core. The request it
  names agrees with the bio in direction, discard flag, device and integrity data, and is not a
  barrier, started or marked unmergeable; for a back merge it ends where the bio starts, for a
  front merge it starts where the bio ends.
\<close>

theorem elv_merge_sound:
  assumes "elv_hash_ok q" "elevator_merge_fn ops = None" "elv_merge ops q b = Some (ret, r, q')"
    and "ret \<noteq> ELEVATOR_NO_MERGE"
  shows "\<exists>rq rb bs. r = Some rq \<and> rq_mergeable (rqs q rq) \<and> bios (rqs q rq) = rb # bs \<and>
     bio_data_dir b = rq_data_dir (rqs q rq) \<and> rq_disk (rqs q rq) = bi_disk b \<and>
     bio_rw_flagged b BIO_RW_DISCARD = bio_rw_flagged rb BIO_RW_DISCARD \<and>
     (if ret = ELEVATOR_BACK_MERGE then rq_end_sector (rqs q rq) = bi_sector b
      else last_merge q = Some rq \<and> blk_rq_pos (rqs q rq) = bi_sector b + ucast (bio_sectors b))"
proof -
  have ok: "rq_mergeable (rqs q rq) \<and> bio_data_dir b = rq_data_dir (rqs q rq) \<and> rq_disk (rqs q rq) = bi_disk b \<and>
      (\<exists>rb bs. bios (rqs q rq) = rb # bs \<and> bio_rw_flagged b BIO_RW_DISCARD = bio_rw_flagged rb BIO_RW_DISCARD)"
    if "elv_rq_merge_ok ops p rq b = Some True" "rqs p = rqs q" for rq p
    using that by (auto simp: elv_rq_merge_ok_def Let_def split: if_splits list.splits)
  show ?thesis
  proof (cases "\<exists>rq t. last_merge q = Some rq \<and> elv_try_merge ops q rq b = Some t \<and> t \<noteq> ELEVATOR_NO_MERGE")
    case True
    then obtain rq where rq: "last_merge q = Some rq" "r = Some rq" "elv_try_merge ops q rq b = Some ret"
      using assms(3,4) by (auto simp: elv_merge_def split: if_splits)
    then have "elv_rq_merge_ok ops q rq b = Some True"
      using assms(4) by (auto simp: elv_try_merge_def split: if_splits bind_splits)
    moreover have "if ret = ELEVATOR_BACK_MERGE then rq_end_sector (rqs q rq) = bi_sector b
        else blk_rq_pos (rqs q rq) = bi_sector b + ucast (bio_sectors b)"
      using rq(3) assms(4)
      by (auto simp: elv_try_merge_def Let_def rq_end_sector_def algebra_simps split: if_splits bind_splits)
    ultimately show ?thesis using ok [of q rq] rq by auto
  next
    case False
    then have "elv_merge_lookup ops q b = Some (ret, r, q')"
      using assms(3,4) by (auto simp: elv_merge_def split: if_splits option.splits bind_splits)
    moreover obtain f q1 where find: "elv_rqhash_find q (bi_sector b) = Some (f, q1)"
        "q1 = q\<lparr>elv_hash := elv_hash q1\<rparr>"
        "case f of Some rq \<Rightarrow> rq_hash_key (rqs q rq) = bi_sector b | None \<Rightarrow> True"
      using rqhash_find_spec [OF assms(1), of "bi_sector b"] by (fastforce split: option.splits)
    moreover have "rqs q1 = rqs q" by (subst find(2)) simp
    ultimately obtain rq where "f = Some rq" "r = Some rq" "ret = ELEVATOR_BACK_MERGE"
        "elv_rq_merge_ok ops q1 rq b = Some True"
      using assms(2,4)
      by (auto simp: elv_merge_lookup_def split: if_splits option.splits bind_splits)
    then show ?thesis
      using ok [of q1 rq] \<open>rqs q1 = rqs q\<close> find(3) by (auto simp: rq_end_sector_def rq_hash_key_def)
  qed
qed

theorem elv_merge_sound_witness:
  "\<exists>q'. elv_merge elevator_noop hash_sample (bio_zero\<lparr>bi_sector := 18, bi_size := 4096\<rparr>) =
     Some (ELEVATOR_BACK_MERGE, Some (Rq 7), q') \<and> rq_end_sector (rqs hash_sample (Rq 7)) = 18"
proof -
  let ?b = "bio_zero\<lparr>bi_sector := 18, bi_size := 4096\<rparr>"
  have "elv_merge elevator_noop hash_sample ?b = Some (ELEVATOR_BACK_MERGE, Some (Rq 7), hash_sample)"
    by (simp add: elv_merge_def elv_merge_lookup_def elv_rqhash_find_def hash_sample_def queue_zero_def
        queue_flag_test_def ELV_ON_HASH_iff hashed_def ELV_HASH_FN_less rq_mergeable_def rq_zero_def
        blk_fs_request_def rq_hash_key_def rq_simps elv_rq_merge_ok_def bio_zero_def bio_rw_flagged_def
        bio_data_dir_def rq_data_dir_def blk_integrity_rq_def elv_iosched_allow_merge_def
        elevator_noop_def Bex_def)
  then show ?thesis
    using elv_merge_sound [OF hash_sample_ok(1), of elevator_noop ?b ELEVATOR_BACK_MERGE "Some (Rq 7)" hash_sample]
    by (auto simp: elevator_noop_def bio_zero_def)
qed

end
