(* ===== verification/Slob_Mem.thy ===== *)
theory Slob_Mem
  imports Prelude
begin

text \<open>
  The unit memory of the SLOB allocator of \<^verbatim>\<open>mm/slob.c\<close>. A page holds 2048 units of two bytes; a
  pointer of type \<^verbatim>\<open>slob_t *\<close> is the number of its unit, counted over all pages, and NULL is 0. A free
  block writes its size and the offset of the next free block into its own first units, with a
  special form for blocks of one unit.

  The free list of a page is abstracted to the list of its blocks, each with its first unit and
  its length. The lemmas show that \<^verbatim>\<open>set_slob\<close>, \<^verbatim>\<open>slob_units\<close> and \<^verbatim>\<open>slob_next\<close> agree and that a write to
  one block leaves the others alone.
\<close>

type_synonym s16 = "16 word"
type_synonym unit_mem = "nat \<Rightarrow> s16"

section \<open>Units\<close>

definition PAGE_SIZE :: nat where "PAGE_SIZE = 4096"

definition SLOB_UNIT :: nat where "SLOB_UNIT = 2"

definition SLOB_UNITS :: "nat \<Rightarrow> nat" where
  "SLOB_UNITS sz = (sz + SLOB_UNIT - 1) div SLOB_UNIT"

abbreviation PAGE_UNITS :: nat where "PAGE_UNITS \<equiv> SLOB_UNITS PAGE_SIZE"

text \<open>The pointer \<^verbatim>\<open>(slob_t * )((unsigned long)s & PAGE_MASK)\<close> and the page it belongs to.\<close>

definition slob_base :: "nat \<Rightarrow> nat" where
  "slob_base s = s - s mod PAGE_UNITS"

definition slob_page :: "nat \<Rightarrow> nat" where
  "slob_page s = s div PAGE_UNITS"

definition set_slob :: "unit_mem \<Rightarrow> nat \<Rightarrow> nat \<Rightarrow> nat \<Rightarrow> unit_mem" where
  "set_slob m s sz nxt =
     (let base = slob_base s;
          offset = (word_of_int (int nxt - int base) :: s16)
      in if sz > 1 then m(s := word_of_int (int sz), s + 1 := offset)
         else m(s := - offset))"

definition slob_units :: "unit_mem \<Rightarrow> nat \<Rightarrow> nat" where
  "slob_units m s = (if sint (m s) > 0 then nat (sint (m s)) else 1)"

definition slob_next :: "unit_mem \<Rightarrow> nat \<Rightarrow> nat" where
  "slob_next m s =
     (let base = slob_base s;
          nxt = (if sint (m s) < 0 then - sint (m s) else sint (m (s + 1)))
      in nat (int base + nxt))"

definition slob_last :: "unit_mem \<Rightarrow> nat \<Rightarrow> bool" where
  "slob_last m s \<longleftrightarrow> slob_next m s mod PAGE_UNITS = 0"

text \<open>\<^verbatim>\<open>ALIGN\<close> on byte addresses, and the aligned unit it gives for a block.\<close>

definition ALIGN :: "u32 \<Rightarrow> u32 \<Rightarrow> u32" where
  "ALIGN x a = (x + (a - 1)) AND NOT (a - 1)"

definition slob_aligned :: "nat \<Rightarrow> nat \<Rightarrow> nat" where
  "slob_aligned cur align =
     unat (ALIGN (word_of_nat (SLOB_UNIT * cur)) (word_of_nat align)) div SLOB_UNIT"

text \<open>The offset to the aligned unit, computed only when an alignment is asked for.\<close>

definition slob_delta :: "nat \<Rightarrow> nat \<Rightarrow> nat" where
  "slob_delta cur align = (if align \<noteq> 0 then slob_aligned cur align - cur else 0)"

lemma PAGE_UNITS_eq: "PAGE_UNITS = 2048"
  by (simp add: SLOB_UNITS_def SLOB_UNIT_def PAGE_SIZE_def)

section \<open>Reading back what was written\<close>

lemma sint_word_of_int_16:
  "- 32768 \<le> x \<Longrightarrow> x < 32768 \<Longrightarrow> sint (word_of_int x :: s16) = x"
  by (simp add: signed_of_int signed_take_bit_int_eq_self)

text \<open>A unit that lies in the page with the given first unit.\<close>

definition in_page :: "nat \<Rightarrow> nat \<Rightarrow> bool" where
  "in_page B s \<longleftrightarrow> PAGE_UNITS dvd B \<and> B \<le> s \<and> s < B + PAGE_UNITS"

lemma in_page_base: "in_page B s \<Longrightarrow> slob_base s = B"
proof -
  assume "in_page B s"
  then obtain k d where s: "B = PAGE_UNITS * k" "s = B + d" "d < PAGE_UNITS"
    unfolding in_page_def by (metis dvdE le_iff_add add_less_cancel_left)
  then have "s mod PAGE_UNITS = d" by simp
  then show ?thesis using s(2) by (simp add: slob_base_def)
qed

lemma in_page_page: "in_page B s \<Longrightarrow> slob_page s = B div PAGE_UNITS"
proof -
  assume "in_page B s"
  then obtain k d where s: "B = PAGE_UNITS * k" "s = B + d" "d < PAGE_UNITS"
    unfolding in_page_def by (metis dvdE le_iff_add add_less_cancel_left)
  then show ?thesis by (simp add: slob_page_def PAGE_UNITS_eq)
qed

text \<open>The block at a unit has the given length and successor, in the encoding of \<^verbatim>\<open>set_slob\<close>.\<close>

definition is_block :: "unit_mem \<Rightarrow> nat \<Rightarrow> nat \<Rightarrow> nat \<Rightarrow> bool" where
  "is_block m a n nxt \<longleftrightarrow>
     (if n = 1 then sint (m a) = int (slob_base a) - int nxt
      else sint (m a) = int n \<and> sint (m (a + 1)) = int nxt - int (slob_base a))"

lemma set_slob_is_block:
  assumes "in_page B a" "0 < n" "n \<le> PAGE_UNITS" "B < nxt" "nxt \<le> B + PAGE_UNITS"
  shows "is_block (set_slob m a n nxt) a n nxt"
proof -
  have base: "slob_base a = B" using in_page_base [OF assms(1)] .
  have off: "sint (word_of_int (int nxt - int B) :: s16) = int nxt - int B"
    by (rule sint_word_of_int_16) (use assms PAGE_UNITS_eq in linarith)+
  have neg: "sint (- word_of_int (int nxt - int B) :: s16) = int B - int nxt"
  proof -
    have "(- word_of_int (int nxt - int B) :: s16) = word_of_int (int B - int nxt)" by simp
    then show ?thesis
      by (simp only:) (rule sint_word_of_int_16; use assms PAGE_UNITS_eq in linarith)
  qed
  have n: "sint (word_of_int (int n) :: s16) = int n"
    by (rule sint_word_of_int_16) (use assms PAGE_UNITS_eq in linarith)+
  show ?thesis
  proof (cases "n = 1")
    case True
    then show ?thesis using neg by (simp add: is_block_def set_slob_def Let_def base)
  next
    case False
    then have "set_slob m a n nxt = m(a := word_of_int (int n), a + 1 := word_of_int (int nxt - int B))"
      using assms(2) by (simp add: set_slob_def Let_def base)
    then show ?thesis using False off n by (simp add: is_block_def base del: of_int_diff of_int_of_nat_eq)
  qed
qed

lemma set_slob_frame:
  "0 < n \<Longrightarrow> u \<notin> {a ..< a + n} \<Longrightarrow> set_slob m a n nxt u = m u"
  by (auto simp: set_slob_def Let_def)

lemma is_block_units: "is_block m a n nxt \<Longrightarrow> 0 < n \<Longrightarrow> slob_base a < nxt \<Longrightarrow> slob_units m a = n"
  by (auto simp: is_block_def slob_units_def split: if_splits)

lemma is_block_next: "is_block m a n nxt \<Longrightarrow> 0 < n \<Longrightarrow> slob_base a < nxt \<Longrightarrow> slob_next m a = nxt"
  by (auto simp: is_block_def slob_next_def Let_def split: if_splits)

lemma is_block_cong:
  assumes "is_block m a n nxt" "0 < n" "\<And>u. u \<in> {a ..< a + n} \<Longrightarrow> m' u = m u"
  shows "is_block m' a n nxt"
proof (cases "n = 1")
  case True
  then show ?thesis using assms(1) assms(3) [of a] by (simp add: is_block_def)
next
  case False
  then have "m' a = m a" "m' (a + 1) = m (a + 1)" using assms(2) assms(3) by auto
  then show ?thesis using assms(1) False by (simp add: is_block_def)
qed

section \<open>Free lists\<close>

type_synonym blocks = "(nat \<times> nat) list"

text \<open>The blocks of a page in order, none touching the next, all inside the page.\<close>

definition wf_blocks :: "nat \<Rightarrow> blocks \<Rightarrow> bool" where
  "wf_blocks B bs \<longleftrightarrow> PAGE_UNITS dvd B \<and>
     (\<forall>(a, n) \<in> set bs. B \<le> a \<and> 0 < n \<and> a + n \<le> B + PAGE_UNITS) \<and>
     sorted_wrt (\<lambda>(a, n) (a', n'). a + n < a') bs"

definition first_of :: "blocks \<Rightarrow> nat \<Rightarrow> nat" where
  "first_of bs e = (case bs of [] \<Rightarrow> e | (a, n) # _ \<Rightarrow> a)"

fun enc :: "unit_mem \<Rightarrow> blocks \<Rightarrow> nat \<Rightarrow> bool" where
  "enc m [] e = True"
| "enc m ((a, n) # bs) e = (is_block m a n (first_of bs e) \<and> enc m bs e)"

definition units_of :: "blocks \<Rightarrow> nat set" where
  "units_of bs = (\<Union>(a, n) \<in> set bs. {a ..< a + n})"

definition total :: "blocks \<Rightarrow> nat" where
  "total bs = sum_list (map snd bs)"

lemma first_of_simps [simp]:
  "first_of [] e = e" "first_of ((a, n) # bs) e = a"
  "first_of (us @ bs) e = first_of us (first_of bs e)"
  by (cases us; auto simp: first_of_def)+

lemma enc_append: "enc m (us @ vs) e \<longleftrightarrow> enc m us (first_of vs e) \<and> enc m vs e"
  by (induction us) auto

lemma units_of_simps [simp]:
  "units_of [] = {}" "units_of ((a, n) # bs) = {a ..< a + n} \<union> units_of bs"
  "units_of (us @ bs) = units_of us \<union> units_of bs"
  by (auto simp: units_of_def)

lemma total_simps [simp]:
  "total [] = 0" "total ((a, n) # bs) = n + total bs" "total (us @ bs) = total us + total bs"
  by (simp_all add: total_def)

lemma enc_cong:
  "enc m bs e \<Longrightarrow> \<forall>(a, n) \<in> set bs. 0 < n \<Longrightarrow> (\<And>u. u \<in> units_of bs \<Longrightarrow> m' u = m u) \<Longrightarrow> enc m' bs e"
proof (induction bs)
  case (Cons b bs)
  obtain a n where b: "b = (a, n)" by fastforce
  have "is_block m' a n (first_of bs e)"
    by (rule is_block_cong [of m]) (use Cons.prems b in auto)
  then show ?case using Cons b by auto
qed simp

lemma wf_blocks_append:
  "wf_blocks B (us @ vs) \<longleftrightarrow> wf_blocks B us \<and> wf_blocks B vs \<and>
     (\<forall>(a, n) \<in> set us. \<forall>(a', n') \<in> set vs. a + n < a')"
  by (auto simp: wf_blocks_def sorted_wrt_append)

lemma wf_blocks_Cons:
  "wf_blocks B ((a, n) # bs) \<longleftrightarrow> PAGE_UNITS dvd B \<and> B \<le> a \<and> 0 < n \<and> a + n \<le> B + PAGE_UNITS \<and>
     wf_blocks B bs \<and> (\<forall>(a', n') \<in> set bs. a + n < a')"
  by (auto simp: wf_blocks_def)

lemma wf_blocks_Nil [simp]: "wf_blocks B [] \<longleftrightarrow> PAGE_UNITS dvd B"
  by (simp add: wf_blocks_def)

lemma wf_blocks_pos: "wf_blocks B bs \<Longrightarrow> \<forall>(a, n) \<in> set bs. 0 < n"
  by (auto simp: wf_blocks_def)

lemma wf_blocks_first:
  "wf_blocks B ((a, n) # bs) \<Longrightarrow> a + n \<le> first_of bs (B + PAGE_UNITS) \<and> first_of bs (B + PAGE_UNITS) \<le> B + PAGE_UNITS"
  by (cases bs) (auto simp: wf_blocks_Cons)

lemma card_units_of: "wf_blocks B bs \<Longrightarrow> card (units_of bs) = total bs \<and> units_of bs \<subseteq> {B ..< B + PAGE_UNITS}"
proof (induction bs)
  case (Cons b bs)
  obtain a n where b: "b = (a, n)" by fastforce
  have IH: "card (units_of bs) = total bs" "units_of bs \<subseteq> {B ..< B + PAGE_UNITS}"
    using Cons b by (simp_all add: wf_blocks_Cons)
  have "{a ..< a + n} \<inter> units_of bs = {}"
    using Cons.prems b by (force simp: wf_blocks_Cons units_of_def)
  moreover have "finite (units_of bs)" by (auto simp: units_of_def)
  ultimately have "card (units_of (b # bs)) = n + total bs" using IH(1) b by (simp add: card_Un_disjoint)
  then show ?case using IH(2) Cons.prems b by (auto simp: wf_blocks_Cons)
qed (simp add: wf_blocks_def)

lemma total_le: "wf_blocks B bs \<Longrightarrow> total bs \<le> PAGE_UNITS"
  using card_units_of [of B bs] card_mono [of "{B ..< B + PAGE_UNITS}" "units_of bs"] by simp

end
