(* ===== verification/Slob.thy ===== *)
theory Slob
  imports Slob_Mem
begin

text \<open>
  The SLOB allocator of \<^verbatim>\<open>mm/slob.c\<close> with the best-fit search: the block allocator proper
  (\<^verbatim>\<open>slob_alloc\<close>, \<^verbatim>\<open>slob_free\<close>), the \<^verbatim>\<open>kmalloc\<close> and \<^verbatim>\<open>kmem_cache\<close> front ends, and the two system calls that
  report the memory claimed and free.

  A page is the number of its \<^verbatim>\<open>struct slob_page\<close>. The page allocator is outside this component: the
  page that \<^verbatim>\<open>alloc_pages\<close> returns is an argument of the operations that call it (\<open>None\<close> when there is
  no memory), and pages that are given back are recorded in \<open>released\<close>. \<open>None\<close> as the result of an
  operation is a \<^verbatim>\<open>BUG_ON\<close> that fires, a panic, or a loop that does not end. The configuration has
  no NUMA nodes, so node arguments are dropped, as are locks, tracing and leak checking.
\<close>

section \<open>State\<close>

record kmem_cache =
  kc_size :: u32
  kc_align :: u32
  kc_flags :: u32
  kc_name :: string
  kc_ctor :: "nat option"

datatype release = FreePages nat nat | PutPage nat

record slob =
  smem :: unit_mem
  sp_units :: "nat \<Rightarrow> int"
  sp_free :: "nat \<Rightarrow> nat"
  page_slab :: "nat \<Rightarrow> bool"
  page_slob_free :: "nat \<Rightarrow> bool"
  page_private :: "nat \<Rightarrow> u32"
  free_slob_small :: "nat list"
  free_slob_medium :: "nat list"
  free_slob_large :: "nat list"
  pages_alloc :: u32
  reclaimed_slab :: "u32 option"
  released :: "release list"
  caches :: "nat \<Rightarrow> kmem_cache option"
  rcu_callbacks :: "(nat \<times> u32) list"
  slob_ready :: bool

record best_block_slob =
  object_size :: int
  block_size :: int
  best_prev :: nat
  best_cur :: nat
  best_next :: nat
  best_page :: nat

definition set_slob_page_free :: "nat \<Rightarrow> slob \<Rightarrow> slob" where
  "set_slob_page_free sp s =
     s\<lparr>free_slob_small := sp # free_slob_small s, page_slob_free := (page_slob_free s)(sp := True)\<rparr>"

text \<open>\<^verbatim>\<open>list_del\<close> of the page, from whichever of the three lists it is on.\<close>

definition clear_slob_page_free :: "nat \<Rightarrow> slob \<Rightarrow> slob" where
  "clear_slob_page_free sp s =
     s\<lparr>free_slob_small := removeAll sp (free_slob_small s),
       free_slob_medium := removeAll sp (free_slob_medium s),
       free_slob_large := removeAll sp (free_slob_large s),
       page_slob_free := (page_slob_free s)(sp := False)\<rparr>"

text \<open>The page that the page allocator returned, if any, and the address of its first unit.\<close>

definition slob_new_pages :: "nat option \<Rightarrow> slob \<Rightarrow> nat \<times> slob" where
  "slob_new_pages got s =
     (case got of
        None \<Rightarrow> (0, s)
      | Some page \<Rightarrow> (page * PAGE_UNITS, s\<lparr>pages_alloc := pages_alloc s + 1\<rparr>))"

definition slob_free_pages :: "nat \<Rightarrow> nat \<Rightarrow> slob \<Rightarrow> slob" where
  "slob_free_pages b order s =
     s\<lparr>reclaimed_slab := map_option (\<lambda>n. n + 2 ^ order) (reclaimed_slab s),
       released := FreePages (slob_page b) order # released s\<rparr>"

section \<open>Best fit\<close>

definition best_fit_step ::
    "unit_mem \<Rightarrow> nat \<Rightarrow> nat \<Rightarrow> nat \<Rightarrow> nat \<Rightarrow> nat \<Rightarrow> best_block_slob \<Rightarrow> best_block_slob" where
  "best_fit_step m sp units align prev cur best =
     (let avail = slob_units m cur;
          delta = slob_delta cur align;
          found = best\<lparr>best_prev := prev, best_cur := cur, best_next := slob_next m cur,
                       object_size := int units, block_size := int avail, best_page := sp\<rparr>
      in if avail \<ge> units + delta then
           (if avail = units + delta then found
            else if int avail - int (units + delta) < block_size best - object_size best then found
            else best)
         else best)"

partial_function (option) best_fit_loop ::
    "unit_mem \<Rightarrow> nat \<Rightarrow> nat \<Rightarrow> nat \<Rightarrow> nat \<Rightarrow> nat \<Rightarrow> best_block_slob \<Rightarrow> best_block_slob option" where
  "best_fit_loop m sp units align prev cur best =
     (let best = best_fit_step m sp units align prev cur best
      in if slob_last m cur then Some best
         else best_fit_loop m sp units align cur (slob_next m cur) best)"

definition find_best_fit_block ::
    "slob \<Rightarrow> nat \<Rightarrow> best_block_slob \<Rightarrow> nat \<Rightarrow> nat \<Rightarrow> best_block_slob option" where
  "find_best_fit_block s sp best sz align =
     best_fit_loop (smem s) sp (SLOB_UNITS sz) align 0 (sp_free s sp) best"

text \<open>
  Splitting the chosen block: the head is cut off when the block has to be aligned, and what is
  left behind the allocated units stays free. \<^verbatim>\<open>slob_alloc\<close> and \<^verbatim>\<open>slob_page_alloc\<close> share this code.
\<close>

definition slob_take ::
    "slob \<Rightarrow> nat \<Rightarrow> nat \<Rightarrow> nat \<Rightarrow> nat \<Rightarrow> nat \<Rightarrow> nat \<Rightarrow> nat \<times> slob" where
  "slob_take s sp prev cur avail units align =
     (let m = smem s;
          fr = sp_free s sp;
          delta = slob_delta cur align;
          (m, prev, cur, avail) =
            (if delta \<noteq> 0 then
               (let aligned = slob_aligned cur align;
                    nxt = slob_next m cur;
                    m = set_slob m aligned (avail - delta) nxt;
                    m = set_slob m cur delta aligned
                in (m, cur, aligned, slob_units m aligned))
             else (m, prev, cur, avail));
          nxt = slob_next m cur;
          (m, fr) =
            (if avail = units then
               (if prev \<noteq> 0 then (set_slob m prev (slob_units m prev) nxt, fr) else (m, nxt))
             else
               (let (m, fr) = (if prev \<noteq> 0 then (set_slob m prev (slob_units m prev) (cur + units), fr)
                               else (m, cur + units))
                in (set_slob m (cur + units) (avail - units) nxt, fr)));
          s = s\<lparr>smem := m, sp_free := (sp_free s)(sp := fr),
                sp_units := (sp_units s)(sp := sp_units s sp - int units)\<rparr>;
          s = (if sp_units s sp = 0 then clear_slob_page_free sp s else s)
      in (cur, s))"

partial_function (option) slob_page_alloc_loop ::
    "slob \<Rightarrow> nat \<Rightarrow> nat \<Rightarrow> nat \<Rightarrow> nat \<Rightarrow> nat \<Rightarrow> (nat \<times> slob) option" where
  "slob_page_alloc_loop s sp units align prev cur =
     (let avail = slob_units (smem s) cur;
          delta = slob_delta cur align
      in if avail \<ge> units + delta then Some (slob_take s sp prev cur avail units align)
         else if slob_last (smem s) cur then Some (0, s)
         else slob_page_alloc_loop s sp units align cur (slob_next (smem s) cur))"

definition slob_page_alloc :: "slob \<Rightarrow> nat \<Rightarrow> nat \<Rightarrow> nat \<Rightarrow> (nat \<times> slob) option" where
  "slob_page_alloc s sp sz align =
     slob_page_alloc_loop s sp (SLOB_UNITS sz) align 0 (sp_free s sp)"

section \<open>Allocation\<close>

text \<open>The scan of the partially free pages.\<close>

fun best_fit_pages ::
    "slob \<Rightarrow> nat list \<Rightarrow> best_block_slob \<Rightarrow> nat \<Rightarrow> nat \<Rightarrow> best_block_slob option" where
  "best_fit_pages s [] best sz align = Some best"
| "best_fit_pages s (sp # rest) best sz align =
     (if 0 \<le> sp_units s sp \<and> sp_units s sp < int (SLOB_UNITS sz)
      then best_fit_pages s rest best sz align
      else do {
        best \<leftarrow> find_best_fit_block s sp best sz align;
        best_fit_pages s rest best sz align
      })"

definition best_init :: "nat \<Rightarrow> best_block_slob" where
  "best_init sz = \<lparr>object_size = int (SLOB_UNITS sz), block_size = int PAGE_SIZE + 1,
     best_prev = 0, best_cur = 0, best_next = 0, best_page = 0\<rparr>"

text \<open>\<^verbatim>\<open>memset(b, 0, size)\<close>; the last byte may share its unit with one that is kept.\<close>

definition memset_zero :: "unit_mem \<Rightarrow> nat \<Rightarrow> nat \<Rightarrow> unit_mem" where
  "memset_zero m b sz =
     (\<lambda>u. if b \<le> u \<and> u < b + sz div SLOB_UNIT then 0
          else if odd sz \<and> u = b + sz div SLOB_UNIT then m u AND 0xFF00
          else m u)"

definition slob_alloc ::
    "nat \<Rightarrow> bool \<Rightarrow> nat \<Rightarrow> nat option \<Rightarrow> slob \<Rightarrow> (nat \<times> slob) option" where
  "slob_alloc sz zero align got s = do {
     best \<leftarrow> best_fit_pages s (free_slob_small s) (best_init sz) sz align;
     (b, s) \<leftarrow>
       (if best_cur best \<noteq> 0 then
          Some (slob_take s (best_page best) (best_prev best) (best_cur best)
                  (nat (block_size best)) (SLOB_UNITS sz) align)
        else (case slob_new_pages got s of
          (b, s) \<Rightarrow>
            if b = 0 then Some (0, s)
            else do {
              let sp = slob_page b;
              let s = s\<lparr>page_slab := (page_slab s)(sp := True)\<rparr>;
              let s = s\<lparr>sp_units := (sp_units s)(sp := int PAGE_UNITS), sp_free := (sp_free s)(sp := b),
                        smem := set_slob (smem s) b PAGE_UNITS (b + PAGE_UNITS)\<rparr>;
              (b, s) \<leftarrow> slob_page_alloc (set_slob_page_free sp s) sp sz align;
              if b = 0 then None else Some (b, s)
            }));
     Some (b, if zero \<and> b \<noteq> 0 then s\<lparr>smem := memset_zero (smem s) b sz\<rparr> else s)
   }"

section \<open>Freeing\<close>

text \<open>\<^verbatim>\<open>ZERO_SIZE_PTR\<close> is byte address 16.\<close>

definition ZERO_SIZE_PTR :: nat where "ZERO_SIZE_PTR = 16 div SLOB_UNIT"

definition ZERO_OR_NULL_PTR :: "nat \<Rightarrow> bool" where
  "ZERO_OR_NULL_PTR p \<longleftrightarrow> p \<le> ZERO_SIZE_PTR"

text \<open>The search for the free block in front of the one that is freed.\<close>

partial_function (option) slob_find_prev ::
    "unit_mem \<Rightarrow> nat \<Rightarrow> nat \<Rightarrow> nat \<Rightarrow> (nat \<times> nat) option" where
  "slob_find_prev m b prev nxt =
     (if b > nxt then slob_find_prev m b nxt (slob_next m nxt) else Some (prev, nxt))"

definition slob_free_insert :: "unit_mem \<Rightarrow> nat \<Rightarrow> nat \<Rightarrow> nat \<Rightarrow> (unit_mem \<times> nat) option" where
  "slob_free_insert m fr b units =
     (if b < fr then
        (let (units, fr) = (if b + units = fr then (units + slob_units m fr, slob_next m fr) else (units, fr))
         in Some (set_slob m b units fr, b))
      else do {
        (prev, nxt) \<leftarrow> slob_find_prev m b fr (slob_next m fr);
        let m = (if \<not> slob_last m prev \<and> b + units = nxt
                 then set_slob m b (units + slob_units m nxt) (slob_next m nxt)
                 else set_slob m b units nxt);
        let m = (if prev + slob_units m prev = b
                 then set_slob m prev (slob_units m b + slob_units m prev) (slob_next m b)
                 else set_slob m prev (slob_units m prev) b);
        Some (m, fr)
      })"

definition slob_free :: "nat \<Rightarrow> nat \<Rightarrow> slob \<Rightarrow> slob option" where
  "slob_free block sz s =
     (if ZERO_OR_NULL_PTR block then Some s
      else if sz = 0 then None
      else
        (let sp = slob_page block;
             units = SLOB_UNITS sz
         in if sp_units s sp + int units = int PAGE_UNITS then
              (let s = (if page_slob_free s sp then clear_slob_page_free sp s else s);
                   s = s\<lparr>page_slab := (page_slab s)(sp := False)\<rparr>;
                   s = s\<lparr>pages_alloc := pages_alloc s - 1\<rparr>
               in Some (slob_free_pages block 0 s))
            else if \<not> page_slob_free s sp then
              (let s = s\<lparr>sp_units := (sp_units s)(sp := int units), sp_free := (sp_free s)(sp := block),
                         smem := set_slob (smem s) block units (slob_base (block + PAGE_UNITS))\<rparr>
               in Some (set_slob_page_free sp s))
            else do {
              let s = s\<lparr>sp_units := (sp_units s)(sp := sp_units s sp + int units)\<rparr>;
              (m, fr) \<leftarrow> slob_free_insert (smem s) (sp_free s sp) block units;
              Some (s\<lparr>smem := m, sp_free := (sp_free s)(sp := fr)\<rparr>)
            }))"

end
