(* ===== verification/Slob_Core.thy ===== *)
theory Slob_Core
  imports Slob
begin

text \<open>
  The free lists of SLOB under its operations. Taking units out of a block and giving units back
  are described on lists of blocks; the code on unit memory implements them, writes only to units
  that are free, and keeps every list sorted, inside its page and without adjacent blocks.
\<close>

section \<open>Changing the successor of the last block in front\<close>

definition prev_of_list :: "blocks \<Rightarrow> nat" where
  "prev_of_list us = (if us = [] then 0 else fst (last us))"

definition relink :: "unit_mem \<Rightarrow> nat \<Rightarrow> nat \<Rightarrow> nat \<Rightarrow> unit_mem \<times> nat" where
  "relink m fr prev e = (if prev \<noteq> 0 then (set_slob m prev (slob_units m prev) e, fr) else (m, e))"

lemma in_page_block: "wf_blocks B bs \<Longrightarrow> (a, n) \<in> set bs \<Longrightarrow> in_page B a"
  by (fastforce simp: wf_blocks_def in_page_def)

lemma in_pageI: "PAGE_UNITS dvd B \<Longrightarrow> B \<le> s \<Longrightarrow> s < B + PAGE_UNITS \<Longrightarrow> in_page B s"
  by (simp add: in_page_def)

lemma relink_spec:
  assumes "wf_blocks B us" "0 < B" "enc m us e0" "B < e0" "B < e" "e \<le> B + PAGE_UNITS"
  shows "\<exists>m'. relink m (first_of us e0) (prev_of_list us) e = (m', first_of us e) \<and> enc m' us e \<and>
     (\<forall>u. u \<notin> units_of us \<longrightarrow> m' u = m u)"
proof (cases us rule: rev_cases)
  case Nil
  then show ?thesis by (simp add: relink_def prev_of_list_def)
next
  case (snoc ws w)
  obtain a n where w: "w = (a, n)" by fastforce
  have wf: "wf_blocks B ws" "0 < n" "B \<le> a" "a + n \<le> B + PAGE_UNITS" "\<forall>(a', n') \<in> set ws. a' + n' < a"
    using assms(1) by (auto simp: snoc w wf_blocks_append wf_blocks_Cons)
  have page: "in_page B a" using in_page_block [OF assms(1), of a n] snoc w by simp
  have enc: "enc m ws a" "is_block m a n e0" using assms(3) by (simp_all add: snoc w enc_append)
  have units: "slob_units m a = n"
    using is_block_units [OF enc(2) wf(2)] in_page_base [OF page] assms(4) by simp
  let ?m = "set_slob m a n e"
  have "n \<le> PAGE_UNITS" using wf(3,4) by linarith
  then have new: "is_block ?m a n e" by (rule set_slob_is_block [OF page wf(2) _ assms(5,6)])
  have "units_of ws \<inter> {a ..< a + n} = {}" using wf(5) by (force simp: units_of_def)
  then have old: "enc ?m ws a"
    by (intro enc_cong [OF enc(1) wf_blocks_pos [OF wf(1)]] set_slob_frame [OF wf(2)]) auto
  have "prev_of_list us = a" "a \<noteq> 0" using assms(2) wf(3) by (auto simp: prev_of_list_def snoc w)
  then have "relink m (first_of us e0) (prev_of_list us) e = (?m, first_of us e0)"
    by (simp add: relink_def units)
  moreover have "first_of us e0 = first_of us e" by (simp add: snoc w)
  moreover have "enc ?m us e" using old new by (simp add: snoc w enc_append)
  moreover have "\<forall>u. u \<notin> units_of us \<longrightarrow> ?m u = m u"
    using set_slob_frame [OF wf(2)] by (auto simp: snoc w)
  ultimately show ?thesis by auto
qed

section \<open>Taking units from the front of a block\<close>

text \<open>What is left of a block of \<open>k\<close> units at \<open>c\<close> when its first \<open>units\<close> are taken.\<close>

definition block_rest :: "nat \<Rightarrow> nat \<Rightarrow> nat \<Rightarrow> blocks" where
  "block_rest c k units = (if k = units then [] else [(c + units, k - units)])"

definition take_front :: "unit_mem \<Rightarrow> nat \<Rightarrow> nat \<Rightarrow> nat \<Rightarrow> nat \<Rightarrow> nat \<Rightarrow> unit_mem \<times> nat" where
  "take_front m fr prev c k units =
     (let nxt = slob_next m c
      in if k = units then relink m fr prev nxt
         else (case relink m fr prev (c + units) of
                 (m, fr) \<Rightarrow> (set_slob m (c + units) (k - units) nxt, fr)))"

lemma take_front_spec:
  assumes us: "wf_blocks B us" "enc m us c" "\<forall>(a, n) \<in> set us. a + n \<le> c"
    and vs: "wf_blocks B vs" "enc m vs E" "\<forall>(a, n) \<in> set vs. c + k < a"
    and blk: "is_block m c k (first_of vs E)" "B \<le> c" "c + k \<le> E" "us \<noteq> [] \<longrightarrow> B < c"
    and E: "E = B + PAGE_UNITS" "0 < B" and units: "0 < units" "units \<le> k"
    and fr: "fr = first_of us c"
  shows "\<exists>m' fr'. take_front m fr (prev_of_list us) c k units = (m', fr') \<and>
     enc m' (us @ block_rest c k units @ vs) E \<and>
     fr' = first_of (us @ block_rest c k units @ vs) E \<and>
     wf_blocks B (us @ block_rest c k units @ vs) \<and>
     (\<forall>u. u \<notin> units_of us \<union> {c ..< c + k} \<longrightarrow> m' u = m u)"
proof -
  let ?nxt = "first_of vs E"
  have dvd: "PAGE_UNITS dvd B" using us(1) by (simp add: wf_blocks_def)
  have page: "in_page B c" using dvd blk(2,3) E units by (intro in_pageI) auto
  have nxtE: "?nxt \<le> E" "c + k \<le> ?nxt"
    using vs(1,3) blk(3) E(1) by (cases vs; auto simp: wf_blocks_Cons)+
  have nxt: "slob_next m c = ?nxt"
    using is_block_next [OF blk(1)] in_page_base [OF page] units nxtE blk(2) by simp
  have disj: "units_of us \<inter> {c ..< c + k} = {}" "units_of vs \<inter> (units_of us \<union> {c ..< c + k}) = {}"
    using us(3) vs(3) by (force simp: units_of_def)+
  have relinkable: "\<exists>m'. relink m fr (prev_of_list us) e = (m', first_of us e) \<and> enc m' us e \<and>
      (\<forall>u. u \<notin> units_of us \<longrightarrow> m' u = m u)" if "c < e" "e \<le> E" for e
  proof (cases "us = []")
    case True
    then show ?thesis by (simp add: relink_def prev_of_list_def)
  next
    case False
    then show ?thesis
      unfolding fr using relink_spec [OF us(1) E(2) us(2), of e] that blk(2,4) E(1) by auto
  qed
  show ?thesis
  proof (cases "k = units")
    case True
    then obtain m' where m': "relink m fr (prev_of_list us) ?nxt = (m', first_of us ?nxt)" "enc m' us ?nxt"
        "\<forall>u. u \<notin> units_of us \<longrightarrow> m' u = m u"
      using relinkable [of ?nxt] nxtE units by auto
    have "enc m' vs E"
      by (rule enc_cong [OF vs(2) wf_blocks_pos [OF vs(1)]]) (use m'(3) disj(2) in blast)
    moreover have "wf_blocks B (us @ vs)"
      using us(1,3) vs(1,3) units by (fastforce simp: wf_blocks_append)
    ultimately show ?thesis
      using m' True by (auto simp: take_front_def nxt block_rest_def enc_append)
  next
    case False
    let ?c = "c + units" and ?k = "k - units"
    from relinkable [of ?c] units nxtE blk(3) obtain m' where
        m': "relink m fr (prev_of_list us) ?c = (m', first_of us ?c)" "enc m' us ?c"
        "\<forall>u. u \<notin> units_of us \<longrightarrow> m' u = m u"
      by auto
    let ?m = "set_slob m' ?c ?k ?nxt"
    have k: "0 < ?k" "?k \<le> PAGE_UNITS" using False units blk(2,3) E(1) by auto
    have pagec: "in_page B ?c" using dvd blk(2,3) k E(1) units by (intro in_pageI) auto
    have frame: "?m u = m' u" if "u \<notin> {?c ..< ?c + ?k}" for u
      by (rule set_slob_frame [OF k(1) that])
    have sub: "{?c ..< ?c + ?k} \<subseteq> {c ..< c + k}" using units by auto
    have "is_block ?m ?c ?k ?nxt"
      by (rule set_slob_is_block [OF pagec k]) (use nxtE units blk(2) E(1) in auto)
    moreover have "enc ?m us ?c"
      by (rule enc_cong [OF m'(2) wf_blocks_pos [OF us(1)]], rule frame) (use disj(1) sub in blast)
    moreover have "enc ?m vs E"
    proof (rule enc_cong [OF vs(2) wf_blocks_pos [OF vs(1)]])
      fix u assume "u \<in> units_of vs"
      then have "u \<notin> units_of us" "u \<notin> {c ..< c + k}" using disj(2) by blast+
      moreover from this(2) have "?m u = m' u" by (intro frame contra_subsetD [OF sub])
      ultimately show "?m u = m u" using m'(3) by simp
    qed
    moreover have "wf_blocks B (us @ (?c, ?k) # vs)"
      using us(1,3) vs(1,3) units k blk(2,3) E(1) dvd
      by (fastforce simp: wf_blocks_append wf_blocks_Cons)
    moreover have "?m u = m u" if "u \<notin> units_of us \<union> {c ..< c + k}" for u
      using frame [OF contra_subsetD [OF sub], of u] m'(3) that by simp
    ultimately show ?thesis
      using m'(1) False by (simp add: take_front_def nxt block_rest_def enc_append)
  qed
qed

section \<open>Alignment\<close>

lemma unat_ALIGN:
  assumes "k < 32" "unat x + 2 ^ k \<le> 2 ^ 32"
  shows "unat (ALIGN x (2 ^ k)) = unat x + 2 ^ k - 1 - (unat x + 2 ^ k - 1) mod 2 ^ k"
proof -
  have m: "(2 ^ k - 1 :: u32) = mask k" by (simp add: mask_eq_exp_minus_1)
  have um: "unat (mask k :: u32) = 2 ^ k - 1"
  proof -
    have "(mask k :: u32) = word_of_nat (mask k)" by (rule of_nat_mask_eq [symmetric])
    then have "(mask k :: u32) = word_of_nat (2 ^ k - 1)"
      by (simp only: mask_eq_exp_minus_1 [where 'a = nat])
    moreover have "(2 ^ k - 1 :: nat) < 2 ^ 32"
      using power_strict_increasing [OF assms(1), of "2 :: nat"] by simp
    ultimately show ?thesis by (simp only: unat_word_of_nat_32)
  qed
  have sum: "unat (x + mask k) = unat x + 2 ^ k - 1"
  proof -
    have "unat x + unat (mask k :: u32) < 2 ^ 32" using assms(2) um by simp
    then show ?thesis using um by (simp add: unat_word_ariths)
  qed
  have tb: "unat (take_bit k (x + mask k)) = unat (x + mask k) mod 2 ^ k"
    unfolding unsigned_take_bit_eq by (rule take_bit_eq_mod)
  have "take_bit k (x + mask k) \<le> x + mask k"
    unfolding word_le_nat_alt tb by (rule mod_less_eq_dividend)
  then have "unat (x + mask k - take_bit k (x + mask k)) = unat (x + mask k) - unat (x + mask k) mod 2 ^ k"
    by (simp only: unat_sub tb)
  then show ?thesis unfolding ALIGN_def m and_not_mask sum .
qed

lemma slob_aligned_spec:
  assumes "0 < k" "k < 32" "2 * cur + 2 ^ k \<le> 2 ^ 32"
  shows "cur \<le> slob_aligned cur (2 ^ k) \<and> 2 ^ k dvd 2 * slob_aligned cur (2 ^ k) \<and>
    2 * slob_aligned cur (2 ^ k) < 2 * cur + 2 ^ k"
proof -
  let ?x = "word_of_nat (2 * cur) :: u32"
  have "2 * cur < 2 ^ 32" using assms(3) by (meson less_le_trans less_add_same_cancel1 zero_less_numeral zero_less_power)
  then have x: "unat ?x = 2 * cur" by (rule unat_word_of_nat_32)
  let ?y = "2 * cur + 2 ^ k - 1"
  have al: "unat (ALIGN ?x (2 ^ k)) = ?y - ?y mod 2 ^ k" using unat_ALIGN [of k ?x] assms x by simp
  have d: "2 ^ k dvd ?y - ?y mod 2 ^ k" by (metis dvd_minus_mod)
  then have "even (?y - ?y mod 2 ^ k)" using assms(1) by (meson dvd_power dvd_trans)
  moreover have "slob_aligned cur (2 ^ k) = (?y - ?y mod 2 ^ k) div 2"
    using al by (simp add: slob_aligned_def SLOB_UNIT_def)
  ultimately have eq: "2 * slob_aligned cur (2 ^ k) = ?y - ?y mod 2 ^ k" by simp
  have r: "?y mod 2 ^ k < 2 ^ k" "(1 :: nat) \<le> 2 ^ k" by simp_all
  have "2 * cur \<le> 2 * slob_aligned cur (2 ^ k)" "2 * slob_aligned cur (2 ^ k) < 2 * cur + 2 ^ k"
    using r unfolding eq by linarith+
  moreover have "2 ^ k dvd 2 * slob_aligned cur (2 ^ k)" unfolding eq by (rule d)
  ultimately show ?thesis by simp
qed

text \<open>The alignments in use: none, or a power of two up to the page size.\<close>

definition good_align :: "nat \<Rightarrow> bool" where
  "good_align align \<longleftrightarrow> align = 0 \<or> (\<exists>k. 0 < k \<and> k \<le> 12 \<and> align = 2 ^ k)"

definition good_addr :: "nat \<Rightarrow> bool" where
  "good_addr cur \<longleftrightarrow> 2 * cur + PAGE_SIZE \<le> 2 ^ 32"

lemma slob_delta_spec:
  assumes "good_align align" "good_addr cur"
  shows "align \<noteq> 0 \<Longrightarrow> slob_aligned cur align = cur + slob_delta cur align"
    and "align dvd 2 * (cur + slob_delta cur align) \<or> align = 0"
    and "2 * slob_delta cur align < align \<or> slob_delta cur align = 0"
proof -
  have *: "cur \<le> slob_aligned cur align \<and> align dvd 2 * slob_aligned cur align \<and>
      2 * slob_aligned cur align < 2 * cur + align" if nz: "align \<noteq> 0"
  proof -
    obtain k where k: "0 < k" "k \<le> 12" "align = 2 ^ k" using assms(1) nz by (auto simp: good_align_def)
    have "(2 :: nat) ^ k \<le> 2 ^ 12" using k(2) by (rule power_increasing) simp
    then have "2 * cur + 2 ^ k \<le> 2 ^ 32" using assms(2) by (simp add: good_addr_def PAGE_SIZE_def)
    then show ?thesis using slob_aligned_spec [of k cur] k by simp
  qed
  show eq: "align \<noteq> 0 \<Longrightarrow> slob_aligned cur align = cur + slob_delta cur align"
    using * by (simp add: slob_delta_def)
  show "align dvd 2 * (cur + slob_delta cur align) \<or> align = 0"
    using * eq by metis
  show "2 * slob_delta cur align < align \<or> slob_delta cur align = 0"
    using * by (auto simp: slob_delta_def)
qed

section \<open>Taking units out of a block\<close>

definition take_blocks :: "blocks \<Rightarrow> nat \<Rightarrow> nat \<Rightarrow> nat \<Rightarrow> nat \<Rightarrow> blocks \<Rightarrow> blocks" where
  "take_blocks us a n delta units vs =
     us @ (if delta = 0 then [] else [(a, delta)]) @ block_rest (a + delta) (n - delta) units @ vs"

definition page_update :: "nat \<Rightarrow> unit_mem \<Rightarrow> nat \<Rightarrow> int \<Rightarrow> slob \<Rightarrow> slob" where
  "page_update sp m fr units s =
     (let s = s\<lparr>smem := m, sp_free := (sp_free s)(sp := fr), sp_units := (sp_units s)(sp := units)\<rparr>
      in if units = 0 then clear_slob_page_free sp s else s)"

lemma slob_take_straight:
  assumes "slob_delta cur align = 0" "take_front (smem s) (sp_free s sp) prev cur avail units = (m', fr')"
  shows "slob_take s sp prev cur avail units align =
     (cur, page_update sp m' fr' (sp_units s sp - int units) s)"
  using assms
  by (auto simp: slob_take_def Let_def take_front_def relink_def page_update_def clear_slob_page_free_def
      split: if_splits)

lemma slob_take_aligned:
  assumes "slob_delta cur align = delta" "delta \<noteq> 0" "slob_aligned cur align = cur + delta" "cur \<noteq> 0"
    and "m2 = set_slob (set_slob (smem s) (cur + delta) (avail - delta) (slob_next (smem s) cur)) cur delta (cur + delta)"
    and "slob_units m2 (cur + delta) = avail - delta"
    and "take_front m2 (sp_free s sp) cur (cur + delta) (avail - delta) units = (m', fr')"
  shows "slob_take s sp prev cur avail units align =
     (cur + delta, page_update sp m' fr' (sp_units s sp - int units) s)"
  using assms(1,2,3,4,6,7) unfolding assms(5)
  by (auto simp: slob_take_def Let_def take_front_def relink_def page_update_def clear_slob_page_free_def
      split: if_splits)

lemma split_head_spec:
  assumes wf: "wf_blocks B (us @ (a, n) # vs)" and enc: "enc m (us @ (a, n) # vs) E"
    and E: "E = B + PAGE_UNITS" and d: "0 < d" "d < n"
    and m2: "m2 = set_slob (set_slob m (a + d) (n - d) (slob_next m a)) a d (a + d)"
  shows "enc m2 (us @ [(a, d)]) (a + d)" "is_block m2 (a + d) (n - d) (first_of vs E)" "enc m2 vs E"
    "slob_units m2 (a + d) = n - d" "\<And>u. u \<notin> {a ..< a + n} \<Longrightarrow> m2 u = m u"
proof -
  let ?nxt = "first_of vs E"
  have parts: "wf_blocks B us" "wf_blocks B vs" "PAGE_UNITS dvd B" "B \<le> a" "0 < n" "a + n \<le> E"
      "\<forall>(a', n') \<in> set us. a' + n' < a" "\<forall>(a', n') \<in> set vs. a + n < a'"
    using wf E by (auto simp: wf_blocks_append wf_blocks_Cons)
  have old: "enc m us a" "is_block m a n ?nxt" "enc m vs E" using enc by (simp_all add: enc_append)
  have nE: "a + n \<le> ?nxt" "?nxt \<le> E"
    using wf_blocks_first [of B a n vs] wf E by (auto simp: wf_blocks_append)
  have page: "in_page B a" "in_page B (a + d)" using parts d E by (auto simp: in_page_def)
  have nxt: "slob_next m a = ?nxt"
    using is_block_next [OF old(2) parts(5)] in_page_base [OF page(1)] nE parts(4,5) by simp
  let ?m1 = "set_slob m (a + d) (n - d) ?nxt"
  have m2': "m2 = set_slob ?m1 a d (a + d)" using m2 nxt by simp
  have f1: "?m1 u = m u" if "u \<notin> {a + d ..< a + n}" for u
    using set_slob_frame [of "n - d" u "a + d"] that d by simp
  have f2: "m2 u = ?m1 u" if "u \<notin> {a ..< a + d}" for u
    unfolding m2' by (rule set_slob_frame [OF d(1) that])
  show frame: "m2 u = m u" if "u \<notin> {a ..< a + n}" for u
    using f1 [of u] f2 [of u] that d by auto
  have "is_block ?m1 (a + d) (n - d) ?nxt"
    by (rule set_slob_is_block [OF page(2)]) (use d nE parts E in auto)
  then show blk: "is_block m2 (a + d) (n - d) ?nxt"
    by (rule is_block_cong) (use d f2 in auto)
  have "is_block m2 a d (a + d)"
    unfolding m2' by (rule set_slob_is_block [OF page(1) d(1)]) (use d nE parts E in auto)
  moreover have "enc m2 us a"
  proof (rule enc_cong [OF old(1) wf_blocks_pos [OF parts(1)]], rule frame)
    show "u \<notin> {a ..< a + n}" if "u \<in> units_of us" for u using that parts(7) by (force simp: units_of_def)
  qed
  ultimately show "enc m2 (us @ [(a, d)]) (a + d)" by (simp add: enc_append)
  show "enc m2 vs E"
  proof (rule enc_cong [OF old(3) wf_blocks_pos [OF parts(2)]], rule frame)
    show "u \<notin> {a ..< a + n}" if "u \<in> units_of vs" for u using that parts(8) by (force simp: units_of_def)
  qed
  show "slob_units m2 (a + d) = n - d"
    by (rule is_block_units [OF blk]) (use in_page_base [OF page(2)] nE d parts(4) in auto)
qed

lemma slob_take_spec:
  assumes wf: "wf_blocks B (us @ (a, n) # vs)" and enc: "enc (smem s) (us @ (a, n) # vs) E"
    and E: "E = B + PAGE_UNITS" "0 < B" and fr: "sp_free s sp = first_of (us @ (a, n) # vs) E"
    and delta: "slob_delta a align = d" "d \<noteq> 0 \<Longrightarrow> slob_aligned a align = a + d"
    and units: "0 < units" "units + d \<le> n"
  shows "\<exists>m' fr'. slob_take s sp (prev_of_list us) a n units align =
       (a + d, page_update sp m' fr' (sp_units s sp - int units) s) \<and>
     enc m' (take_blocks us a n d units vs) E \<and> fr' = first_of (take_blocks us a n d units vs) E \<and>
     wf_blocks B (take_blocks us a n d units vs) \<and>
     (\<forall>u. u \<notin> units_of us \<union> {a ..< a + n} \<longrightarrow> m' u = smem s u)"
proof -
  have parts: "wf_blocks B us" "wf_blocks B vs" "PAGE_UNITS dvd B" "B \<le> a" "0 < n" "a + n \<le> E"
      "\<forall>(a', n') \<in> set us. a' + n' < a" "\<forall>(a', n') \<in> set vs. a + n < a'"
    using wf E by (auto simp: wf_blocks_append wf_blocks_Cons)
  have old: "enc (smem s) us a" "is_block (smem s) a n (first_of vs E)" "enc (smem s) vs E"
    using enc by (simp_all add: enc_append)
  have Ba: "us \<noteq> [] \<longrightarrow> B < a" using parts(1,7) by (cases us) (auto simp: wf_blocks_Cons)
  show ?thesis
  proof (cases "d = 0")
    case True
    have "\<exists>m' fr'. take_front (smem s) (sp_free s sp) (prev_of_list us) a n units = (m', fr') \<and>
       enc m' (us @ block_rest a n units @ vs) E \<and> fr' = first_of (us @ block_rest a n units @ vs) E \<and>
       wf_blocks B (us @ block_rest a n units @ vs) \<and>
       (\<forall>u. u \<notin> units_of us \<union> {a ..< a + n} \<longrightarrow> m' u = smem s u)"
      by (rule take_front_spec [OF parts(1) old(1) _ parts(2) old(3) parts(8) old(2) parts(4,6) Ba E])
        (use parts units True fr in \<open>auto simp: less_imp_le\<close>)
    then show ?thesis
      using slob_take_straight [of a align] delta(1) True by (fastforce simp: take_blocks_def)
  next
    case False
    define m2 where "m2 = set_slob (set_slob (smem s) (a + d) (n - d) (slob_next (smem s) a)) a d (a + d)"
    have dn: "0 < d" "d < n" using False units by auto
    note h = split_head_spec [OF wf enc E(1) dn m2_def]
    have wf2: "wf_blocks B (us @ [(a, d)])"
      using parts dn E(1) by (auto simp: wf_blocks_append wf_blocks_Cons)
    have "\<exists>m' fr'. take_front m2 (sp_free s sp) (prev_of_list (us @ [(a, d)])) (a + d) (n - d) units = (m', fr') \<and>
       enc m' ((us @ [(a, d)]) @ block_rest (a + d) (n - d) units @ vs) E \<and>
       fr' = first_of ((us @ [(a, d)]) @ block_rest (a + d) (n - d) units @ vs) E \<and>
       wf_blocks B ((us @ [(a, d)]) @ block_rest (a + d) (n - d) units @ vs) \<and>
       (\<forall>u. u \<notin> units_of (us @ [(a, d)]) \<union> {a + d ..< a + d + (n - d)} \<longrightarrow> m' u = m2 u)"
      by (rule take_front_spec [OF wf2 h(1) _ parts(2) h(3) _ h(2)])
        (use parts units E dn fr in \<open>auto simp: less_imp_le\<close>)
    then obtain m' fr' where tf:
        "take_front m2 (sp_free s sp) (prev_of_list (us @ [(a, d)])) (a + d) (n - d) units = (m', fr')"
        "enc m' ((us @ [(a, d)]) @ block_rest (a + d) (n - d) units @ vs) E"
        "fr' = first_of ((us @ [(a, d)]) @ block_rest (a + d) (n - d) units @ vs) E"
        "wf_blocks B ((us @ [(a, d)]) @ block_rest (a + d) (n - d) units @ vs)"
        "\<forall>u. u \<notin> units_of (us @ [(a, d)]) \<union> {a + d ..< a + d + (n - d)} \<longrightarrow> m' u = m2 u"
      by blast
    have bs: "(us @ [(a, d)]) @ block_rest (a + d) (n - d) units @ vs = take_blocks us a n d units vs"
      using False by (simp add: take_blocks_def)
    have prev: "prev_of_list (us @ [(a, d)]) = a" by (simp add: prev_of_list_def)
    have un: "units_of (us @ [(a, d)]) \<union> {a + d ..< a + d + (n - d)} = units_of us \<union> {a ..< a + n}"
      using dn by auto
    note tf = tf [unfolded bs prev un]
    have "slob_take s sp (prev_of_list us) a n units align =
        (a + d, page_update sp m' fr' (sp_units s sp - int units) s)"
      by (rule slob_take_aligned [OF delta(1) False delta(2) _ m2_def h(4) tf(1)])
        (use False E(2) parts(4) in auto)
    then show ?thesis using tf(2-5) h(5) by auto
  qed
qed

end
