(* ===== verification/Slob_Alloc.thy ===== *)
theory Slob_Alloc
  imports Slob_Core
begin

text \<open>
  Allocation: the best-fit scan over the free lists and the invariant of the allocator. The ghost
  function \<open>bl\<close> gives the free blocks of every page; all units outside them belong to whoever
  allocated them, and allocation does not write to them.
\<close>

section \<open>The allocator invariant\<close>

abbreviation page_base :: "nat \<Rightarrow> nat" where "page_base p \<equiv> p * PAGE_UNITS"

abbreviation page_end :: "nat \<Rightarrow> nat" where "page_end p \<equiv> p * PAGE_UNITS + PAGE_UNITS"

definition page_ok :: "slob \<Rightarrow> nat \<Rightarrow> blocks \<Rightarrow> bool" where
  "page_ok s p bs \<longleftrightarrow> wf_blocks (page_base p) bs \<and> enc (smem s) bs (page_end p) \<and>
     sp_free s p = first_of bs (page_end p) \<and> sp_units s p = int (total bs)"

definition usable_page :: "nat \<Rightarrow> bool" where
  "usable_page p \<longleftrightarrow> 0 < p \<and> good_addr (page_end p)"

definition slob_inv :: "slob \<Rightarrow> (nat \<Rightarrow> blocks) \<Rightarrow> bool" where
  "slob_inv s bl \<longleftrightarrow>
     distinct (free_slob_small s) \<and> free_slob_medium s = [] \<and> free_slob_large s = [] \<and>
     (\<forall>p. page_slob_free s p \<longleftrightarrow> p \<in> set (free_slob_small s)) \<and>
     (\<forall>p. p \<in> set (free_slob_small s) \<longleftrightarrow> bl p \<noteq> []) \<and>
     (\<forall>p. bl p \<noteq> [] \<longrightarrow> page_slab s p) \<and>
     (\<forall>p. page_slab s p \<longrightarrow> usable_page p \<and> page_ok s p (bl p))"

definition free_units :: "(nat \<Rightarrow> blocks) \<Rightarrow> nat set" where
  "free_units bl = (\<Union>p. units_of (bl p))"

definition page_units :: "nat \<Rightarrow> nat set" where
  "page_units p = {page_base p ..< page_end p}"

lemma page_units_disjoint: "p \<noteq> p' \<Longrightarrow> page_units p \<inter> page_units p' = {}"
proof -
  assume "p \<noteq> p'"
  have "u div PAGE_UNITS = p" if "u \<in> page_units p" for u p
    by (rule div_nat_eqI) (use that in \<open>auto simp: page_units_def PAGE_UNITS_eq\<close>)
  then show ?thesis using \<open>p \<noteq> p'\<close> by blast
qed

lemma slob_inv_page: "slob_inv s bl \<Longrightarrow> page_slab s p \<Longrightarrow> page_ok s p (bl p) \<and> usable_page p"
  by (simp add: slob_inv_def)

lemma slob_inv_listed: "slob_inv s bl \<Longrightarrow> bl p \<noteq> [] \<longleftrightarrow> p \<in> set (free_slob_small s)"
  by (simp add: slob_inv_def)

lemma slob_inv_listed_slab: "slob_inv s bl \<Longrightarrow> p \<in> set (free_slob_small s) \<Longrightarrow> page_slab s p"
  by (simp add: slob_inv_def)

lemma units_in_page:
  assumes "slob_inv s bl"
  shows "units_of (bl p) \<subseteq> page_units p"
proof (cases "bl p = []")
  case False
  then have "page_slab s p" using assms by (simp add: slob_inv_def)
  then have "wf_blocks (page_base p) (bl p)" using slob_inv_page [OF assms] by (simp add: page_ok_def)
  then show ?thesis using card_units_of [of "page_base p" "bl p"] by (simp add: page_units_def)
qed simp

lemma free_units_page:
  assumes "slob_inv s bl"
  shows "free_units bl \<inter> page_units p = units_of (bl p)"
proof (rule equalityI; rule subsetI)
  fix u assume "u \<in> free_units bl \<inter> page_units p"
  then obtain p' where u: "u \<in> units_of (bl p')" "u \<in> page_units p" by (auto simp: free_units_def)
  then have "u \<in> page_units p'" using units_in_page [OF assms] by blast
  then have "p' = p" using page_units_disjoint [of p' p] u(2) by blast
  then show "u \<in> units_of (bl p)" using u(1) by simp
next
  fix u assume "u \<in> units_of (bl p)"
  then show "u \<in> free_units bl \<inter> page_units p" using units_in_page [OF assms, of p] by (auto simp: free_units_def)
qed

lemma page_ok_cong:
  assumes "page_ok s p bs" "sp_free s' p = sp_free s p" "sp_units s' p = sp_units s p"
    and "\<And>u. u \<in> units_of bs \<Longrightarrow> smem s' u = smem s u"
  shows "page_ok s' p bs"
  using assms enc_cong [of "smem s" bs "page_end p" "smem s'"] wf_blocks_pos [of "page_base p" bs]
  by (auto simp: page_ok_def)

lemma total_0: "wf_blocks B bs \<Longrightarrow> total bs = 0 \<longleftrightarrow> bs = []"
  by (cases bs) (auto simp: wf_blocks_Cons)

lemma page_update_fields [slob_simps]:
  "smem (page_update p m fr u s) = m" "sp_free (page_update p m fr u s) = (sp_free s)(p := fr)"
  "sp_units (page_update p m fr u s) = (sp_units s)(p := u)"
  "page_slab (page_update p m fr u s) = page_slab s"
  "pages_alloc (page_update p m fr u s) = pages_alloc s"
  "released (page_update p m fr u s) = released s"
  "caches (page_update p m fr u s) = caches s"
  "page_private (page_update p m fr u s) = page_private s"
  by (simp_all add: page_update_def Let_def clear_slob_page_free_def)

text \<open>Replacing the free blocks of one page that stays on, or leaves, the list of free pages.\<close>

lemma slob_inv_update:
  assumes inv: "slob_inv s bl" and listed: "p \<in> set (free_slob_small s)"
    and new: "wf_blocks (page_base p) bs" "enc m bs (page_end p)" "fr = first_of bs (page_end p)"
    and units: "u = int (total bs)" and frame: "\<And>v. v \<notin> page_units p \<Longrightarrow> m v = smem s v"
  shows "slob_inv (page_update p m fr u s) (bl(p := bs))"
proof -
  let ?s = "page_update p m fr u s"
  have slab: "page_slab s p" using slob_inv_listed_slab [OF inv listed] .
  have ok: "page_ok ?s p' ((bl(p := bs)) p')" if "page_slab s p'" for p'
  proof (cases "p' = p")
    case True
    then show ?thesis using new units by (simp add: page_ok_def slob_simps)
  next
    case False
    then have "page_units p' \<inter> page_units p = {}" by (rule page_units_disjoint)
    then have "smem ?s v = smem s v" if "v \<in> units_of (bl p')" for v
      using that units_in_page [OF inv, of p'] frame by (auto simp: slob_simps)
    then show ?thesis
      using page_ok_cong [of s p' "bl p'" ?s] slob_inv_page [OF inv that] False by (simp add: slob_simps)
  qed
  have zero: "u = 0 \<longleftrightarrow> bs = []" using total_0 [OF new(1)] units by simp
  have small: "free_slob_small ?s = (if bs = [] then removeAll p (free_slob_small s) else free_slob_small s)"
      "page_slob_free ?s = (if bs = [] then (page_slob_free s)(p := False) else page_slob_free s)"
      "free_slob_medium ?s = []" "free_slob_large ?s = []"
    using inv zero by (auto simp: page_update_def Let_def clear_slob_page_free_def slob_inv_def)
  show ?thesis
    using inv ok listed slab unfolding slob_inv_def small by (auto simp: slob_simps distinct_removeAll)
qed

lemma units_of_take:
  assumes "wf_blocks B (us @ (a, n) # vs)" "0 < units" "units + d \<le> n"
  shows "units_of (take_blocks us a n d units vs) = units_of (us @ (a, n) # vs) - {a + d ..< a + d + units}"
    and "total (take_blocks us a n d units vs) + units = total (us @ (a, n) # vs)"
proof -
  have "\<forall>(a', n') \<in> set us. a' + n' < a" "\<forall>(a', n') \<in> set vs. a + n < a'"
    using assms(1) by (auto simp: wf_blocks_append wf_blocks_Cons)
  then have "units_of us \<inter> {a ..< a + n} = {}" "units_of vs \<inter> {a ..< a + n} = {}"
    by (force simp: units_of_def)+
  moreover have "{a + d ..< a + d + units} \<subseteq> {a ..< a + n}" using assms(3) by auto
  moreover have "units_of (if d = 0 then [] else [(a, d)]) \<union> units_of (block_rest (a + d) (n - d) units) =
      {a ..< a + n} - {a + d ..< a + d + units}"
    using assms(2,3) by (auto simp: block_rest_def)
  ultimately show "units_of (take_blocks us a n d units vs) = units_of (us @ (a, n) # vs) - {a + d ..< a + d + units}"
    unfolding take_blocks_def units_of_simps by blast
  show "total (take_blocks us a n d units vs) + units = total (us @ (a, n) # vs)"
    using assms(3) by (auto simp: take_blocks_def block_rest_def)
qed

lemma slob_inv_take:
  assumes inv: "slob_inv s bl" and bl: "bl p = us @ (a, n) # vs" and al: "good_align align"
    and units: "0 < units" "units + slob_delta a align \<le> n"
  shows "\<exists>m fr. slob_take s p (prev_of_list us) a n units align =
       (a + slob_delta a align, page_update p m fr (sp_units s p - int units) s) \<and>
     slob_inv (page_update p m fr (sp_units s p - int units) s)
       (bl(p := take_blocks us a n (slob_delta a align) units vs)) \<and>
     (\<forall>u. u \<notin> units_of (bl p) \<longrightarrow> m u = smem s u)"
proof -
  let ?d = "slob_delta a align"
  have listed: "p \<in> set (free_slob_small s)" using slob_inv_listed [OF inv, of p] bl by simp
  have page: "page_ok s p (us @ (a, n) # vs)" "usable_page p"
    using slob_inv_page [OF inv slob_inv_listed_slab [OF inv listed]] bl by simp_all
  have wf: "wf_blocks (page_base p) (us @ (a, n) # vs)" using page(1) by (simp add: page_ok_def)
  have "a + n \<le> page_end p" using wf by (simp add: wf_blocks_append wf_blocks_Cons)
  then have "good_addr a" using page(2) by (simp add: usable_page_def good_addr_def)
  then have delta: "?d \<noteq> 0 \<Longrightarrow> slob_aligned a align = a + ?d"
    using slob_delta_spec(1) [OF al] by (metis slob_delta_def)
  have base: "0 < page_base p" using page(2) by (simp add: usable_page_def PAGE_UNITS_eq)
  obtain m fr where t: "slob_take s p (prev_of_list us) a n units align =
      (a + ?d, page_update p m fr (sp_units s p - int units) s)"
      "enc m (take_blocks us a n ?d units vs) (page_end p)"
      "fr = first_of (take_blocks us a n ?d units vs) (page_end p)"
      "wf_blocks (page_base p) (take_blocks us a n ?d units vs)"
      "\<forall>u. u \<notin> units_of us \<union> {a ..< a + n} \<longrightarrow> m u = smem s u"
    using slob_take_spec [OF wf _ refl base, of s p align ?d units] page(1) delta units
    unfolding page_ok_def by blast
  have sub: "units_of us \<union> {a ..< a + n} \<subseteq> units_of (bl p)" using bl by auto
  have "sp_units s p - int units = int (total (take_blocks us a n ?d units vs))"
    using units_of_take(2) [OF wf units] page(1) by (simp add: page_ok_def)
  moreover have "m v = smem s v" if "v \<notin> page_units p" for v
    using t(5) sub units_in_page [OF inv, of p] that by blast
  ultimately have "slob_inv (page_update p m fr (sp_units s p - int units) s)
      (bl(p := take_blocks us a n ?d units vs))"
    by (intro slob_inv_update [OF inv listed t(4,2,3)])
  then show ?thesis using t(1,5) sub by blast
qed

section \<open>The best-fit scan\<close>

text \<open>The scan of one page on its list of blocks.\<close>

definition best_found :: "nat \<Rightarrow> nat \<Rightarrow> nat \<Rightarrow> nat \<Rightarrow> nat \<Rightarrow> nat \<Rightarrow> best_block_slob" where
  "best_found sp units prev a n nxt =
     \<lparr>object_size = int units, block_size = int n, best_prev = prev, best_cur = a, best_next = nxt, best_page = sp\<rparr>"

fun best_fit_list :: "nat \<Rightarrow> nat \<Rightarrow> nat \<Rightarrow> nat \<Rightarrow> blocks \<Rightarrow> nat \<Rightarrow> best_block_slob \<Rightarrow> best_block_slob" where
  "best_fit_list sp units align prev [] e best = best"
| "best_fit_list sp units align prev ((a, n) # bs) e best =
     best_fit_list sp units align a bs e
       (let d = slob_delta a align; found = best_found sp units prev a n (first_of bs e)
        in if n = units + d then found
           else if units + d \<le> n \<and> int n - int (units + d) < block_size best - object_size best then found
           else best)"

lemma best_fit_step_block:
  assumes "is_block m a n nxt" "0 < n" "slob_base a < nxt"
  shows "best_fit_step m sp units align prev a best =
     (let d = slob_delta a align; found = best_found sp units prev a n nxt
      in if n = units + d then found
         else if units + d \<le> n \<and> int n - int (units + d) < block_size best - object_size best then found
         else best)"
  using is_block_units [OF assms] is_block_next [OF assms]
  by (auto simp: best_fit_step_def best_found_def Let_def)

lemma best_fit_loop_list:
  assumes "wf_blocks B bs" "enc m bs (B + PAGE_UNITS)" "bs \<noteq> []"
  shows "best_fit_loop m sp units align prev (first_of bs (B + PAGE_UNITS)) best =
     Some (best_fit_list sp units align prev bs (B + PAGE_UNITS) best)"
  using assms
proof (induction bs arbitrary: prev best)
  case (Cons x bs)
  note IH = Cons.IH and enc = Cons.prems(2)
  let ?E = "B + PAGE_UNITS"
  obtain a n where x: "x = (a, n)" by fastforce
  have wf: "wf_blocks B ((a, n) # bs)" using Cons.prems x by simp
  have blk: "is_block m a n (first_of bs ?E)" "0 < n" using Cons.prems wf x by (auto simp: wf_blocks_Cons)
  have page: "in_page B a" by (rule in_page_block [OF wf, of a n]) simp
  have lt: "slob_base a < first_of bs ?E"
    using wf_blocks_first [OF wf] in_page_base [OF page] wf by (auto simp: wf_blocks_Cons)
  have nxt: "slob_next m a = first_of bs ?E" using is_block_next [OF blk lt] .
  have step: "best_fit_loop m sp units align prev a best =
      (let best = best_fit_step m sp units align prev a best
       in if slob_last m a then Some best else best_fit_loop m sp units align a (slob_next m a) best)"
    by (rule best_fit_loop.simps)
  show ?case
  proof (cases bs)
    case Nil
    then have "slob_last m a" using wf by (simp add: slob_last_def nxt wf_blocks_Cons mod_eq_0_iff_dvd)
    then show ?thesis
      using step best_fit_step_block [OF blk lt] Nil by (simp add: x Let_def)
  next
    case (Cons y ys)
    obtain a' n' where y: "y = (a', n')" by fastforce
    have wfb: "wf_blocks B bs" using wf by (simp add: wf_blocks_Cons)
    have page': "in_page B a'" by (rule in_page_block [OF wfb, of a' n']) (simp add: Cons y)
    have "a' mod PAGE_UNITS \<noteq> 0"
      using in_page_base [OF page'] wf Cons y by (auto simp: slob_base_def wf_blocks_Cons)
    then have "\<not> slob_last m a" by (simp add: slob_last_def nxt Cons y)
    then show ?thesis
      using step best_fit_step_block [OF blk lt] IH [OF wfb] enc Cons
      by (simp add: x nxt Let_def)
  qed
qed simp

text \<open>
  What the scan knows after the blocks in \<open>seen\<close>: the candidate is one of them, with its true
  predecessor, and has room; there is none only if none of them has room. Without an alignment
  none of them that has room is smaller.
\<close>

definition best_block ::
    "(nat \<Rightarrow> blocks) \<Rightarrow> nat \<Rightarrow> nat \<Rightarrow> (nat \<times> nat \<times> nat) set \<Rightarrow> best_block_slob \<Rightarrow> bool" where
  "best_block bl units align seen best \<longleftrightarrow>
     (\<exists>us n vs. bl (best_page best) = us @ (best_cur best, n) # vs \<and>
        best_prev best = prev_of_list us \<and> block_size best = int n \<and>
        units + slob_delta (best_cur best) align \<le> n \<and> (best_page best, best_cur best, n) \<in> seen)"

definition best_inv ::
    "(nat \<Rightarrow> blocks) \<Rightarrow> nat \<Rightarrow> nat \<Rightarrow> (nat \<times> nat \<times> nat) set \<Rightarrow> best_block_slob \<Rightarrow> bool" where
  "best_inv bl units align seen best \<longleftrightarrow>
     object_size best = int units \<and>
     (if best_cur best = 0
      then block_size best = int PAGE_SIZE + 1 \<and> (\<forall>(p, a, n) \<in> seen. n < units + slob_delta a align)
      else best_block bl units align seen best) \<and>
     (align = 0 \<longrightarrow> (\<forall>(p, a, n) \<in> seen. units \<le> n \<longrightarrow> block_size best \<le> int n))"

definition page_blocks :: "nat \<Rightarrow> blocks \<Rightarrow> (nat \<times> nat \<times> nat) set" where
  "page_blocks p bs = Pair p ` set bs"

lemma best_block_mono: "best_block bl units align seen best \<Longrightarrow> seen \<subseteq> seen' \<Longrightarrow> best_block bl units align seen' best"
  unfolding best_block_def by blast

lemma best_inv_found:
  assumes inv: "best_inv bl units align seen best" and bl: "bl p = us @ (a, n) # vs"
    and room: "units + slob_delta a align \<le> n" and "a \<noteq> 0"
    and better: "n = units + slob_delta a align \<or>
      int n - int (units + slob_delta a align) < block_size best - object_size best"
  shows "best_inv bl units align (insert (p, a, n) seen) (best_found p units (prev_of_list us) a n nxt)"
proof -
  have "block_size best \<le> int n'" if "align = 0" "(p', a', n') \<in> seen" "units \<le> n'" for p' a' n'
    using inv that by (auto simp: best_inv_def)
  moreover have "slob_delta a align = 0" if "align = 0" using that by (simp add: slob_delta_def)
  moreover have "object_size best = int units" using inv by (simp add: best_inv_def)
  ultimately have "align = 0 \<Longrightarrow> (p', a', n') \<in> seen \<Longrightarrow> units \<le> n' \<Longrightarrow> n \<le> n'" for p' a' n'
    using better by fastforce
  moreover have "best_block bl units align (insert (p, a, n) seen) (best_found p units (prev_of_list us) a n nxt)"
    using bl room unfolding best_block_def best_found_def by auto
  ultimately show ?thesis using assms(4) by (auto simp: best_inv_def best_found_def)
qed

lemma best_inv_skip:
  assumes inv: "best_inv bl units align seen best" and n: "n \<le> PAGE_UNITS"
    and worse: "n \<noteq> units + slob_delta a align"
      "\<not> (units + slob_delta a align \<le> n \<and> int n - int (units + slob_delta a align) < block_size best - object_size best)"
  shows "best_inv bl units align (insert (p, a, n) seen) best"
proof -
  have obj: "object_size best = int units" using inv by (simp add: best_inv_def)
  have "n < units + slob_delta a align" if "best_cur best = 0"
  proof (rule ccontr)
    assume "\<not> ?thesis"
    moreover have "block_size best = int PAGE_SIZE + 1" using inv that by (simp add: best_inv_def)
    ultimately show False using worse n [unfolded PAGE_UNITS_eq] obj by (simp add: PAGE_SIZE_def)
  qed
  moreover have "align = 0 \<Longrightarrow> units \<le> n \<Longrightarrow> block_size best \<le> int n"
    using worse obj by (auto simp: slob_delta_def)
  moreover have "best_block bl units align seen best \<Longrightarrow> best_block bl units align (insert (p, a, n) seen) best"
    by (rule best_block_mono) auto
  ultimately show ?thesis using inv by (auto simp: best_inv_def)
qed

lemma best_inv_list:
  assumes "bl p = us @ bs" "wf_blocks (page_base p) (bl p)" "0 < p" "best_inv bl units align seen best"
  shows "best_inv bl units align (seen \<union> page_blocks p bs)
     (best_fit_list p units align (prev_of_list us) bs e best)"
  using assms
proof (induction bs arbitrary: us best seen)
  case Nil
  then show ?case by (simp add: page_blocks_def)
next
  case (Cons x bs)
  obtain a n where x: "x = (a, n)" by fastforce
  have wf: "page_base p \<le> a" "0 < n" "a + n \<le> page_end p"
    using Cons.prems(1,2) x by (auto simp: wf_blocks_append wf_blocks_Cons)
  then have a: "a \<noteq> 0" "n \<le> PAGE_UNITS" using Cons.prems(3) by (auto simp: PAGE_UNITS_eq)
  let ?found = "best_found p units (prev_of_list us) a n (first_of bs e)"
  let ?best = "let d = slob_delta a align
      in if n = units + d then ?found
         else if units + d \<le> n \<and> int n - int (units + d) < block_size best - object_size best then ?found
         else best"
  have blp: "bl p = us @ (a, n) # bs" using Cons.prems(1) x by simp
  have "best_inv bl units align (insert (p, a, n) seen) ?best"
  proof (cases "n = units + slob_delta a align \<or> (units + slob_delta a align \<le> n \<and>
      int n - int (units + slob_delta a align) < block_size best - object_size best)")
    case True
    then have "best_inv bl units align (insert (p, a, n) seen) ?found"
      by (intro best_inv_found [OF Cons.prems(4) blp _ a(1)]) auto
    moreover have "?best = ?found" using True unfolding Let_def by metis
    ultimately show ?thesis by simp
  next
    case False
    then have "best_inv bl units align (insert (p, a, n) seen) best"
      by (intro best_inv_skip [OF Cons.prems(4) a(2)]) auto
    moreover have "?best = best" using False unfolding Let_def by metis
    ultimately show ?thesis by simp
  qed
  then have "best_inv bl units align (insert (p, a, n) seen \<union> page_blocks p bs)
      (best_fit_list p units align (prev_of_list (us @ [(a, n)])) bs e ?best)"
    by (intro Cons.IH) (use blp Cons.prems(2,3) in simp_all)
  moreover have "prev_of_list (us @ [(a, n)]) = a" by (simp add: prev_of_list_def)
  moreover have "insert (p, a, n) seen \<union> page_blocks p bs = seen \<union> page_blocks p (x # bs)"
    by (auto simp: page_blocks_def x)
  ultimately show ?case unfolding x best_fit_list.simps Let_def by (simp only:)
qed

definition listed_blocks :: "(nat \<Rightarrow> blocks) \<Rightarrow> nat list \<Rightarrow> (nat \<times> nat \<times> nat) set" where
  "listed_blocks bl ps = (\<Union>p \<in> set ps. page_blocks p (bl p))"

lemma block_le_total: "(a, n) \<in> set bs \<Longrightarrow> n \<le> total bs"
  by (induction bs) (auto simp: total_def)

lemma best_inv_small_page:
  assumes "best_inv bl units align seen best" "total (bl p) < units"
  shows "best_inv bl units align (seen \<union> page_blocks p (bl p)) best"
proof -
  have "n < units" if "(a, n) \<in> set (bl p)" for a n using block_le_total [OF that] assms(2) by simp
  moreover have "best_block bl units align seen best \<Longrightarrow>
      best_block bl units align (seen \<union> page_blocks p (bl p)) best"
    by (rule best_block_mono) auto
  ultimately show ?thesis using assms(1) unfolding best_inv_def page_blocks_def by fastforce
qed

lemma best_fit_pages_inv:
  assumes "slob_inv s bl" "set ps \<subseteq> set (free_slob_small s)" "best_inv bl (SLOB_UNITS sz) align seen best"
  shows "\<exists>best'. best_fit_pages s ps best sz align = Some best' \<and>
     best_inv bl (SLOB_UNITS sz) align (seen \<union> listed_blocks bl ps) best'"
  using assms(2,3)
proof (induction ps arbitrary: best seen)
  case Nil
  then show ?case by (simp add: listed_blocks_def)
next
  case (Cons p ps)
  have p: "p \<in> set (free_slob_small s)" using Cons.prems(1) by simp
  have ok: "page_ok s p (bl p)" "0 < p" and ne: "bl p \<noteq> []"
    using slob_inv_page [OF assms(1) slob_inv_listed_slab [OF assms(1) p]] slob_inv_listed [OF assms(1), of p] p
    by (auto simp: usable_page_def)
  have wf: "wf_blocks (page_base p) (bl p)" using ok(1) by (simp add: page_ok_def)
  have seen: "seen \<union> page_blocks p (bl p) \<union> listed_blocks bl ps = seen \<union> listed_blocks bl (p # ps)"
    by (auto simp: listed_blocks_def)
  obtain b where b: "best_fit_pages s (p # ps) best sz align = best_fit_pages s ps b sz align"
      "best_inv bl (SLOB_UNITS sz) align (seen \<union> page_blocks p (bl p)) b"
  proof (cases "sp_units s p < int (SLOB_UNITS sz)")
    case True
    then have "total (bl p) < SLOB_UNITS sz" using ok(1) by (simp add: page_ok_def)
    then show ?thesis using that [of best] True ok(1) best_inv_small_page [OF Cons.prems(2)]
      by (simp add: page_ok_def)
  next
    case False
    have "find_best_fit_block s p best sz align =
        Some (best_fit_list p (SLOB_UNITS sz) align 0 (bl p) (page_end p) best)"
      using best_fit_loop_list [OF wf _ ne] ok(1) by (simp add: find_best_fit_block_def page_ok_def)
    moreover have "best_inv bl (SLOB_UNITS sz) align (seen \<union> page_blocks p (bl p))
        (best_fit_list p (SLOB_UNITS sz) align 0 (bl p) (page_end p) best)"
      using best_inv_list [of bl p "[]" "bl p"] wf ok(2) Cons.prems(2) by (simp add: prev_of_list_def)
    ultimately show ?thesis using that False by simp
  qed
  then show ?case using Cons.IH [OF _ b(2)] Cons.prems(1) unfolding seen by simp
qed

lemma best_inv_init: "best_inv bl (SLOB_UNITS sz) align {} (best_init sz)"
  by (simp add: best_inv_def best_init_def)

section \<open>Allocation\<close>

lemma slob_inv_mem:
  assumes "slob_inv s bl" "\<And>u. u \<in> free_units bl \<Longrightarrow> m u = smem s u"
  shows "slob_inv (s\<lparr>smem := m\<rparr>) bl"
proof -
  have "page_ok (s\<lparr>smem := m\<rparr>) p (bl p)" if "page_slab s p" for p
    by (rule page_ok_cong [of s]) (use slob_inv_page [OF assms(1) that] assms(2) in \<open>auto simp: free_units_def\<close>)
  then show ?thesis using assms(1) by (simp add: slob_inv_def)
qed

lemma memset_zero_frame: "u \<notin> {b ..< b + SLOB_UNITS sz} \<Longrightarrow> memset_zero m b sz u = m u"
  by (auto simp: memset_zero_def SLOB_UNITS_def SLOB_UNIT_def elim!: oddE)

lemma SLOB_UNITS_bounds: "0 < sz \<Longrightarrow> 0 < SLOB_UNITS sz" "sz \<le> PAGE_SIZE \<Longrightarrow> SLOB_UNITS sz \<le> PAGE_UNITS"
  by (simp_all add: SLOB_UNITS_def SLOB_UNIT_def PAGE_SIZE_def)

text \<open>
  The result of an allocation out of the units \<open>avail\<close>: the returned units were available and no longer
  are, they are aligned, and nothing outside the available units was written.
\<close>

definition alloc_post ::
    "nat \<Rightarrow> nat \<Rightarrow> nat set \<Rightarrow> slob \<Rightarrow> nat \<Rightarrow> slob \<Rightarrow> (nat \<Rightarrow> blocks) \<Rightarrow> bool" where
  "alloc_post units align avail s b s' bl' \<longleftrightarrow>
     b \<noteq> 0 \<and> {b ..< b + units} \<subseteq> avail \<and> free_units bl' = avail - {b ..< b + units} \<and>
     (align \<noteq> 0 \<longrightarrow> align dvd SLOB_UNIT * b) \<and> (\<forall>u. u \<notin> avail \<longrightarrow> smem s' u = smem s u)"

lemma alloc_post_zero:
  assumes "slob_inv s' bl'" "alloc_post (SLOB_UNITS sz) align avail s b s' bl'"
  shows "slob_inv (if z \<and> b \<noteq> 0 then s'\<lparr>smem := memset_zero (smem s') b sz\<rparr> else s') bl' \<and>
    alloc_post (SLOB_UNITS sz) align avail s b (if z \<and> b \<noteq> 0 then s'\<lparr>smem := memset_zero (smem s') b sz\<rparr> else s') bl'"
proof -
  have "memset_zero (smem s') b sz u = smem s' u" if "u \<in> free_units bl' \<or> u \<notin> avail" for u
    by (rule memset_zero_frame) (use that assms(2) in \<open>auto simp: alloc_post_def\<close>)
  then show ?thesis using assms slob_inv_mem [OF assms(1)] by (auto simp: alloc_post_def)
qed

lemma free_units_upd: "free_units (bl(p := bs)) = (\<Union>p' \<in> - {p}. units_of (bl p')) \<union> units_of bs"
  by (auto simp: free_units_def split: if_splits)

lemma take_alloc_post:
  assumes inv: "slob_inv s bl" and bl: "bl p = us @ (a, n) # vs" and al: "good_align align"
    and units: "0 < units" "units + slob_delta a align \<le> n"
  shows "\<exists>b s'. slob_take s p (prev_of_list us) a n units align = (b, s') \<and> b = a + slob_delta a align \<and>
     slob_inv s' (bl(p := take_blocks us a n (slob_delta a align) units vs)) \<and>
     alloc_post units align (free_units bl) s b s' (bl(p := take_blocks us a n (slob_delta a align) units vs)) \<and>
     pages_alloc s' = pages_alloc s \<and> page_slab s' = page_slab s \<and> caches s' = caches s \<and> released s' = released s"
proof -
  let ?d = "slob_delta a align"
  let ?b = "a + ?d" and ?bs = "take_blocks us a n ?d units vs"
  have slab: "page_slab s p" using inv bl by (auto simp: slob_inv_def)
  have wf: "wf_blocks (page_base p) (us @ (a, n) # vs)" and use: "usable_page p"
    using slob_inv_page [OF inv slab] bl by (simp_all add: page_ok_def)
  have a: "page_base p \<le> a" "a + n \<le> page_end p" using wf by (simp_all add: wf_blocks_append wf_blocks_Cons)
  have addr: "good_addr a" "a \<noteq> 0" using a use by (auto simp: usable_page_def good_addr_def PAGE_UNITS_eq)
  obtain m fr where t: "slob_take s p (prev_of_list us) a n units align =
       (?b, page_update p m fr (sp_units s p - int units) s)"
     "slob_inv (page_update p m fr (sp_units s p - int units) s) (bl(p := ?bs))"
     "\<forall>u. u \<notin> units_of (bl p) \<longrightarrow> m u = smem s u"
    using slob_inv_take [OF inv bl al units] by blast
  have blp: "units_of (bl p) = free_units bl \<inter> page_units p" using free_units_page [OF inv] by simp
  have new: "units_of ?bs = units_of (bl p) - {?b ..< ?b + units}"
    using units_of_take(1) [OF wf units] bl by simp
  have R: "{?b ..< ?b + units} \<subseteq> units_of (bl p)" using units(2) bl by auto
  have others: "units_of (bl p') \<inter> {?b ..< ?b + units} = {}" if "p' \<noteq> p" for p'
    using R units_in_page [OF inv] page_units_disjoint [OF that] by blast
  have "free_units bl = (\<Union>p' \<in> - {p}. units_of (bl p')) \<union> units_of (bl p)" by (auto simp: free_units_def)
  then have "free_units (bl(p := ?bs)) = free_units bl - {?b ..< ?b + units}"
    unfolding free_units_upd new using others by auto
  moreover have "align \<noteq> 0 \<longrightarrow> align dvd SLOB_UNIT * ?b"
    using slob_delta_spec(2) [OF al addr(1)] by (auto simp: SLOB_UNIT_def)
  ultimately show ?thesis
    using t R addr(2) blp by (auto simp: alloc_post_def slob_simps)
qed

text \<open>A fresh page: one block that covers it, and no alignment gap at its start.\<close>

definition fresh_page :: "nat \<Rightarrow> slob \<Rightarrow> slob" where
  "fresh_page p s =
     set_slob_page_free p (s\<lparr>pages_alloc := pages_alloc s + 1, page_slab := (page_slab s)(p := True),
       sp_units := (sp_units s)(p := int PAGE_UNITS), sp_free := (sp_free s)(p := page_base p),
       smem := set_slob (smem s) (page_base p) PAGE_UNITS (page_end p)\<rparr>)"

lemma fresh_page_fields [slob_simps]:
  "pages_alloc (fresh_page p s) = pages_alloc s + 1"
  "page_slab (fresh_page p s) = (page_slab s)(p := True)"
  "caches (fresh_page p s) = caches s" "released (fresh_page p s) = released s"
  "sp_free (fresh_page p s) = (sp_free s)(p := page_base p)"
  "free_slob_small (fresh_page p s) = p # free_slob_small s"
  "page_slob_free (fresh_page p s) = (page_slob_free s)(p := True)"
  "free_slob_medium (fresh_page p s) = free_slob_medium s"
  "free_slob_large (fresh_page p s) = free_slob_large s"
  by (simp_all add: fresh_page_def set_slob_page_free_def)

lemma wf_full_page: "wf_blocks (page_base p) [(page_base p, PAGE_UNITS)]"
  by (simp add: wf_blocks_Cons PAGE_UNITS_eq)

lemma fresh_page_block:
  "is_block (smem (fresh_page p s)) (page_base p) PAGE_UNITS (page_end p)"
proof -
  have "in_page (page_base p) (page_base p)" by (rule in_pageI) (simp_all add: PAGE_UNITS_eq)
  then have "is_block (set_slob (smem s) (page_base p) PAGE_UNITS (page_end p)) (page_base p) PAGE_UNITS (page_end p)"
    by (rule set_slob_is_block) (simp_all add: PAGE_UNITS_eq)
  then show ?thesis by (simp add: fresh_page_def set_slob_page_free_def)
qed

lemma fresh_page_inv:
  assumes inv: "slob_inv s bl" and p: "usable_page p" "\<not> page_slab s p"
  shows "slob_inv (fresh_page p s) (bl(p := [(page_base p, PAGE_UNITS)]))"
    and "bl p = []" and "\<And>u. u \<notin> page_units p \<Longrightarrow> smem (fresh_page p s) u = smem s u"
proof -
  let ?bs = "[(page_base p, PAGE_UNITS)]"
  show nil: "bl p = []" using inv p(2) by (auto simp: slob_inv_def)
  show frame: "smem (fresh_page p s) u = smem s u" if "u \<notin> page_units p" for u
    using set_slob_frame [of PAGE_UNITS u "page_base p"] that
    by (simp add: fresh_page_def set_slob_page_free_def page_units_def PAGE_UNITS_eq)
  have ok: "page_ok (fresh_page p s) p' ((bl(p := ?bs)) p')" if "page_slab s p' \<or> p' = p" for p'
  proof (cases "p' = p")
    case True
    then show ?thesis
      using fresh_page_block [of p s] wf_full_page [of p]
      by (simp add: page_ok_def slob_simps) (simp add: fresh_page_def set_slob_page_free_def)
  next
    case False
    then have "page_ok s p' (bl p')" using slob_inv_page [OF inv] that by simp
    then have "page_ok (fresh_page p s) p' (bl p')"
    proof (rule page_ok_cong)
      show "sp_units (fresh_page p s) p' = sp_units s p'" "sp_free (fresh_page p s) p' = sp_free s p'"
        using False by (simp_all add: fresh_page_def set_slob_page_free_def)
      show "smem (fresh_page p s) u = smem s u" if "u \<in> units_of (bl p')" for u
        using that units_in_page [OF inv, of p'] page_units_disjoint [OF False] by (intro frame) blast
    qed
    then show ?thesis using False by simp
  qed
  have all: "\<forall>p'. page_slab (fresh_page p s) p' \<longrightarrow> usable_page p' \<and> page_ok (fresh_page p s) p' ((bl(p := ?bs)) p')"
  proof (intro allI impI)
    fix p' assume "page_slab (fresh_page p s) p'"
    then have "page_slab s p' \<or> p' = p" by (auto simp: slob_simps split: if_splits)
    then show "usable_page p' \<and> page_ok (fresh_page p s) p' ((bl(p := ?bs)) p')"
      using ok slob_inv_page [OF inv] p(1) by blast
  qed
  have "p \<notin> set (free_slob_small s)" using slob_inv_listed [OF inv, of p] nil by simp
  then show "slob_inv (fresh_page p s) (bl(p := ?bs))"
    using inv all unfolding slob_inv_def by (simp add: slob_simps)
qed

lemma page_base_delta:
  assumes "good_align align" "usable_page p"
  shows "slob_delta (page_base p) align = 0"
proof (cases "align = 0")
  case False
  then obtain k where k: "0 < k" "k \<le> 12" "align = 2 ^ k" using assms(1) by (auto simp: good_align_def)
  have "(2 :: nat) ^ k dvd 2 ^ 12" using k(2) by (rule le_imp_power_dvd)
  then have "align dvd 2 * page_base p" by (simp add: k(3) PAGE_UNITS_eq dvd_trans [of _ 4096])
  moreover have addr: "good_addr (page_base p)" using assms(2) by (simp add: usable_page_def good_addr_def)
  ultimately have "align dvd 2 * slob_delta (page_base p) align"
    using slob_delta_spec(2) [OF assms(1) addr] False by (simp add: distrib_left dvd_add_right_iff)
  then show ?thesis using slob_delta_spec(3) [OF assms(1) addr] by (auto dest: dvd_imp_le)
qed (simp add: slob_delta_def)

lemma fresh_page_alloc:
  assumes "good_align align" "usable_page p" "0 < sz" "sz \<le> PAGE_SIZE"
  shows "slob_page_alloc (fresh_page p s) p sz align =
     Some (slob_take (fresh_page p s) p 0 (page_base p) PAGE_UNITS (SLOB_UNITS sz) align)"
proof -
  have base: "slob_base (page_base p) = page_base p"
    by (rule in_page_base [OF in_pageI]) (simp_all add: PAGE_UNITS_eq)
  have "slob_units (smem (fresh_page p s)) (page_base p) = PAGE_UNITS"
    by (rule is_block_units [OF fresh_page_block]) (unfold base, simp_all add: PAGE_UNITS_eq)
  then show ?thesis
    using page_base_delta [OF assms(1,2)] SLOB_UNITS_bounds(2) [OF assms(4)]
    by (simp add: slob_page_alloc_def slob_page_alloc_loop.simps slob_simps Let_def)
qed

text \<open>Some listed block has room, with its alignment gap.\<close>

definition has_room :: "(nat \<Rightarrow> blocks) \<Rightarrow> slob \<Rightarrow> nat \<Rightarrow> nat \<Rightarrow> bool" where
  "has_room bl s units align \<longleftrightarrow>
     (\<exists>(p, a, n) \<in> listed_blocks bl (free_slob_small s). units + slob_delta a align \<le> n)"

lemma best_inv_room:
  assumes "best_inv bl units align (listed_blocks bl (free_slob_small s)) best"
  shows "best_cur best \<noteq> 0 \<longleftrightarrow> has_room bl s units align"
proof (cases "best_cur best = 0")
  case True
  then have "\<forall>(p, a, n) \<in> listed_blocks bl (free_slob_small s). n < units + slob_delta a align"
    using assms by (simp add: best_inv_def)
  then show ?thesis using True unfolding has_room_def by fastforce
next
  case False
  then have "best_block bl units align (listed_blocks bl (free_slob_small s)) best"
    using assms by (simp add: best_inv_def)
  then show ?thesis using False unfolding best_block_def has_room_def by fastforce
qed

lemma slob_alloc_reuse:
  assumes inv: "slob_inv s bl" and sz: "0 < sz" and al: "good_align align"
    and room: "has_room bl s (SLOB_UNITS sz) align"
  shows "\<exists>p us a n vs b s' bl'. bl p = us @ (a, n) # vs \<and> p \<in> set (free_slob_small s) \<and>
     SLOB_UNITS sz + slob_delta a align \<le> n \<and> b = a + slob_delta a align \<and>
     (align = 0 \<longrightarrow> (\<forall>(p', a', n') \<in> listed_blocks bl (free_slob_small s). SLOB_UNITS sz \<le> n' \<longrightarrow> n \<le> n')) \<and>
     slob_alloc sz z align got s = Some (b, s') \<and> slob_inv s' bl' \<and>
     bl' = bl(p := take_blocks us a n (slob_delta a align) (SLOB_UNITS sz) vs) \<and>
     alloc_post (SLOB_UNITS sz) align (free_units bl) s b s' bl' \<and>
     pages_alloc s' = pages_alloc s \<and> page_slab s' = page_slab s \<and> caches s' = caches s"
proof -
  let ?U = "SLOB_UNITS sz"
  obtain best where best: "best_fit_pages s (free_slob_small s) (best_init sz) sz align = Some best"
      "best_inv bl ?U align (listed_blocks bl (free_slob_small s)) best"
    using best_fit_pages_inv [OF inv subset_refl best_inv_init] by auto
  have cur: "best_cur best \<noteq> 0"
    using best_inv_room [OF best(2)] room by simp
  then have "best_block bl ?U align (listed_blocks bl (free_slob_small s)) best"
    using best(2) by (simp add: best_inv_def)
  then obtain us n vs where blk: "bl (best_page best) = us @ (best_cur best, n) # vs"
      "best_prev best = prev_of_list us" "block_size best = int n"
      "?U + slob_delta (best_cur best) align \<le> n"
      "(best_page best, best_cur best, n) \<in> listed_blocks bl (free_slob_small s)"
    unfolding best_block_def by blast
  let ?p = "best_page best" and ?a = "best_cur best"
  let ?bl = "bl(?p := take_blocks us ?a n (slob_delta ?a align) ?U vs)"
  obtain b s1 where t: "slob_take s ?p (prev_of_list us) ?a n ?U align = (b, s1)" "b = ?a + slob_delta ?a align"
      "slob_inv s1 ?bl" "alloc_post ?U align (free_units bl) s b s1 ?bl"
      "pages_alloc s1 = pages_alloc s" "page_slab s1 = page_slab s" "caches s1 = caches s"
    using take_alloc_post [OF inv blk(1) al SLOB_UNITS_bounds(1) [OF sz] blk(4)] by blast
  let ?s = "if z \<and> b \<noteq> 0 then s1\<lparr>smem := memset_zero (smem s1) b sz\<rparr> else s1"
  have run: "slob_alloc sz z align got s = Some (b, ?s)"
    using best(1) cur blk(2,3) t(1) by (simp add: slob_alloc_def)
  have small: "align = 0 \<longrightarrow> (\<forall>(p', a', n') \<in> listed_blocks bl (free_slob_small s). ?U \<le> n' \<longrightarrow> n \<le> n')"
    using best(2) blk(3) by (auto simp: best_inv_def)
  have listed: "?p \<in> set (free_slob_small s)" using blk(5) by (auto simp: listed_blocks_def page_blocks_def)
  have post: "slob_inv ?s ?bl" "alloc_post ?U align (free_units bl) s b ?s ?bl"
    using alloc_post_zero [OF t(3,4)] by blast+
  have fields: "pages_alloc ?s = pages_alloc s" "page_slab ?s = page_slab s" "caches ?s = caches s"
    using t(5,6,7) by simp_all
  show ?thesis
    using blk(1,4) listed t(2) small run post fields by blast
qed

lemma slob_alloc_fresh:
  assumes inv: "slob_inv s bl" and sz: "0 < sz" "sz \<le> PAGE_SIZE" and al: "good_align align"
    and room: "\<not> has_room bl s (SLOB_UNITS sz) align"
  shows "slob_alloc sz z align None s = Some (0, s)"
    and "usable_page p \<Longrightarrow> \<not> page_slab s p \<Longrightarrow>
      \<exists>s' bl'. slob_alloc sz z align (Some p) s = Some (page_base p, s') \<and> slob_inv s' bl' \<and>
        alloc_post (SLOB_UNITS sz) align (free_units bl \<union> page_units p) s (page_base p) s' bl' \<and>
        pages_alloc s' = pages_alloc s + 1 \<and> page_slab s' = (page_slab s)(p := True) \<and> caches s' = caches s"
proof -
  let ?U = "SLOB_UNITS sz"
  obtain best where best: "best_fit_pages s (free_slob_small s) (best_init sz) sz align = Some best"
      "best_inv bl ?U align (listed_blocks bl (free_slob_small s)) best"
    using best_fit_pages_inv [OF inv subset_refl best_inv_init] by auto
  have cur: "best_cur best = 0"
  proof (rule ccontr)
    assume "best_cur best \<noteq> 0"
    then show False using best(2) room by (auto simp: best_inv_def best_block_def has_room_def)
  qed
  show "slob_alloc sz z align None s = Some (0, s)"
    using best(1) cur by (simp add: slob_alloc_def slob_new_pages_def)
  assume p: "usable_page p" "\<not> page_slab s p"
  define bl0 where bl0: "bl0 = bl(p := [(page_base p, PAGE_UNITS)])"
  let ?s0 = "fresh_page p s"
  note fresh = fresh_page_inv [OF inv p, folded bl0]
  have delta: "slob_delta (page_base p) align = 0" by (rule page_base_delta [OF al p(1)])
  have blk: "bl0 p = [] @ (page_base p, PAGE_UNITS) # []" by (simp add: bl0)
  from take_alloc_post [OF fresh(1) blk al SLOB_UNITS_bounds(1) [OF sz(1)]] SLOB_UNITS_bounds(2) [OF sz(2)]
  obtain s1 bl1 where t: "slob_take ?s0 p 0 (page_base p) PAGE_UNITS ?U align = (page_base p, s1)"
      "slob_inv s1 bl1" "alloc_post ?U align (free_units bl0) ?s0 (page_base p) s1 bl1"
      "pages_alloc s1 = pages_alloc s + 1" "page_slab s1 = (page_slab s)(p := True)" "caches s1 = caches s"
    by (auto simp: delta prev_of_list_def slob_simps simp del: fun_upd_apply)
  have nz: "page_base p \<noteq> 0" using p(1) by (simp add: usable_page_def PAGE_UNITS_eq)
  have free: "free_units bl0 = free_units bl \<union> page_units p"
  proof -
    have "free_units bl = (\<Union>p' \<in> - {p}. units_of (bl p')) \<union> units_of (bl p)" by (auto simp: free_units_def)
    then show ?thesis unfolding bl0 free_units_upd using fresh(2) by (auto simp: page_units_def)
  qed
  have post: "alloc_post ?U align (free_units bl \<union> page_units p) s (page_base p) s1 bl1"
    using t(3) fresh(3) unfolding free by (auto simp: alloc_post_def)
  let ?s = "if z \<and> page_base p \<noteq> 0 then s1\<lparr>smem := memset_zero (smem s1) (page_base p) sz\<rparr> else s1"
  have page: "slob_page (page_base p) = p" by (simp add: slob_page_def PAGE_UNITS_eq)
  have "slob_alloc sz z align (Some p) s = Some (page_base p, ?s)"
    using best(1) cur nz fresh_page_alloc [OF al p(1) sz, of s] t(1)
    by (simp add: slob_alloc_def slob_new_pages_def page fresh_page_def Let_def)
  moreover have "slob_inv ?s bl1" "alloc_post ?U align (free_units bl \<union> page_units p) s (page_base p) ?s bl1"
    using alloc_post_zero [OF t(2) post] by blast+
  moreover have "pages_alloc ?s = pages_alloc s + 1" "page_slab ?s = (page_slab s)(p := True)" "caches ?s = caches s"
    using t(4,5,6) by simp_all
  ultimately show "\<exists>s' bl'. slob_alloc sz z align (Some p) s = Some (page_base p, s') \<and> slob_inv s' bl' \<and>
        alloc_post ?U align (free_units bl \<union> page_units p) s (page_base p) s' bl' \<and>
        pages_alloc s' = pages_alloc s + 1 \<and> page_slab s' = (page_slab s)(p := True) \<and> caches s' = caches s"
    by blast
qed

end
