(* ===== verification/Slob_Free.thy ===== *)
theory Slob_Free
  imports Slob_Alloc
begin

text \<open>
  Freeing: units given back to a page are inserted into its free list at the right place and
  joined with the free blocks they touch. The list stays sorted, inside the page and without
  adjacent blocks, so the list of a page is determined by the set of its free units.
\<close>

section \<open>Inserting units between blocks\<close>

text \<open>Joining with the block behind and with the block in front.\<close>

definition join_right :: "nat \<Rightarrow> nat \<Rightarrow> blocks \<Rightarrow> nat \<times> blocks" where
  "join_right b u vs =
     (case vs of (a, n) # ws \<Rightarrow> if b + u = a then (u + n, ws) else (u, vs) | [] \<Rightarrow> (u, vs))"

definition join_left :: "blocks \<Rightarrow> nat \<Rightarrow> nat \<Rightarrow> blocks" where
  "join_left us b u =
     (if us \<noteq> [] \<and> fst (last us) + snd (last us) = b
      then butlast us @ [(fst (last us), snd (last us) + u)] else us @ [(b, u)])"

definition free_blocks :: "blocks \<Rightarrow> nat \<Rightarrow> nat \<Rightarrow> blocks \<Rightarrow> blocks" where
  "free_blocks us b u vs = (case join_right b u vs of (u, ws) \<Rightarrow> join_left us b u @ ws)"

lemma join_right_cases:
  obtains (join) n ws where "vs = (b + u, n) # ws" "join_right b u vs = (u + n, ws)"
  | (apart) "join_right b u vs = (u, vs)" "\<And>a n ws. vs = (a, n) # ws \<Longrightarrow> a \<noteq> b + u"
proof (cases vs)
  case Nil
  then show ?thesis by (intro apart) (simp_all add: join_right_def)
next
  case (Cons x ws)
  then show ?thesis by (cases x; cases "fst x = b + u") (auto simp: join_right_def intro: join apart)
qed

lemma join_left_cases:
  obtains (join) ws a n where "us = ws @ [(a, n)]" "a + n = b" "\<And>u. join_left us b u = ws @ [(a, n + u)]"
  | (apart) "\<And>u. join_left us b u = us @ [(b, u)]" "\<And>ws a n. us = ws @ [(a, n)] \<Longrightarrow> a + n \<noteq> b"
  by (cases us rule: rev_cases) (auto simp: join_left_def)

text \<open>The place where a region that is not free belongs.\<close>

definition fits_between :: "nat \<Rightarrow> blocks \<Rightarrow> nat \<Rightarrow> nat \<Rightarrow> blocks \<Rightarrow> bool" where
  "fits_between B us b u vs \<longleftrightarrow> wf_blocks B (us @ vs) \<and> 0 < u \<and> B \<le> b \<and> b + u \<le> B + PAGE_UNITS \<and>
     (\<forall>(a, n) \<in> set us. a + n \<le> b) \<and> (\<forall>(a, n) \<in> set vs. b + u \<le> a)"

lemma fits_between_exists:
  assumes "wf_blocks B bs" "0 < u" "B \<le> b" "b + u \<le> B + PAGE_UNITS" "units_of bs \<inter> {b ..< b + u} = {}"
  shows "\<exists>us vs. bs = us @ vs \<and> fits_between B us b u vs"
  using assms
proof (induction bs)
  case Nil
  then show ?case by (auto simp: fits_between_def)
next
  case (Cons x bs)
  obtain a n where x: "x = (a, n)" by fastforce
  have wf: "wf_blocks B bs" "0 < n" "B \<le> a" "a + n \<le> B + PAGE_UNITS" "\<forall>(a', n') \<in> set bs. a + n < a'"
    using Cons.prems(1) x by (auto simp: wf_blocks_Cons)
  have sep: "a + n \<le> b \<or> b + u \<le> a"
  proof (rule ccontr)
    assume "\<not> ?thesis"
    then have "max a b \<in> units_of (x # bs) \<inter> {b ..< b + u}" using wf(2) Cons.prems(2) x by auto
    then show False unfolding Cons.prems(5) by simp
  qed
  then show ?case
  proof
    assume le: "a + n \<le> b"
    obtain us vs where uv: "bs = us @ vs" "fits_between B us b u vs"
      using Cons.IH wf(1) Cons.prems x by auto
    have "fits_between B (x # us) b u vs"
      using uv Cons.prems(1) le x by (auto simp: fits_between_def)
    then show ?thesis using uv(1) by (intro exI [of _ "x # us"] exI [of _ vs]) simp
  next
    assume le: "b + u \<le> a"
    then have "\<forall>(a', n') \<in> set (x # bs). b + u \<le> a'" using wf(5) x by fastforce
    then have "fits_between B [] b u (x # bs)"
      using Cons.prems by (auto simp: fits_between_def)
    then show ?thesis by (intro exI [of _ "[]"] exI [of _ "x # bs"]) simp
  qed
qed

lemma wf_join_right:
  assumes "fits_between B us b u vs" "join_right b u vs = (u', ws)"
  shows "wf_blocks B ((b, u') # ws) \<and> wf_blocks B us \<and> (\<forall>(a, n) \<in> set us. a + n \<le> b) \<and>
    (\<forall>(a, n) \<in> set us. \<forall>(a', n') \<in> set ws. a + n < a') \<and> units_of ((b, u') # ws) = {b ..< b + u} \<union> units_of vs \<and>
    u' + total ws = u + total vs"
proof (cases rule: join_right_cases [of vs b u])
  case (join n xs)
  then show ?thesis using assms
    by (auto simp: fits_between_def wf_blocks_append wf_blocks_Cons)
next
  case apart
  have ge: "\<forall>(a, n) \<in> set vs. b + u \<le> a" and wf: "wf_blocks B vs" and dvd: "PAGE_UNITS dvd B"
    using assms(1) by (auto simp: fits_between_def wf_blocks_append) (simp add: wf_blocks_def)
  have "\<forall>(a, n) \<in> set vs. b + u < a"
  proof (cases vs)
    case (Cons x xs)
    obtain a n where x: "x = (a, n)" by fastforce
    have "b + u < a" using ge apart(2) Cons x by fastforce
    then show ?thesis using wf Cons x by (fastforce simp: wf_blocks_Cons)
  qed simp
  then show ?thesis using assms apart(1) dvd
    by (auto simp: fits_between_def wf_blocks_append wf_blocks_Cons)
qed

lemma wf_free_blocks:
  assumes "fits_between B us b u vs"
  shows "wf_blocks B (free_blocks us b u vs)"
    and "units_of (free_blocks us b u vs) = units_of (us @ vs) \<union> {b ..< b + u}"
    and "total (free_blocks us b u vs) = total (us @ vs) + u"
proof -
  obtain u' ws where r: "join_right b u vs = (u', ws)" by fastforce
  have w: "wf_blocks B ((b, u') # ws)" "wf_blocks B us" "\<forall>(a, n) \<in> set us. a + n \<le> b"
      "\<forall>(a, n) \<in> set us. \<forall>(a', n') \<in> set ws. a + n < a'"
    and sets: "units_of ((b, u') # ws) = {b ..< b + u} \<union> units_of vs" "u' + total ws = u + total vs"
    using wf_join_right [OF assms r] by blast+
  have fb: "free_blocks us b u vs = join_left us b u' @ ws" by (simp add: free_blocks_def r)
  have "wf_blocks B (join_left us b u' @ ws) \<and>
      units_of (join_left us b u' @ ws) = units_of us \<union> units_of ((b, u') # ws) \<and>
      total (join_left us b u' @ ws) = total us + u' + total ws"
  proof (cases rule: join_left_cases [of us b])
    case (join xs a n)
    then show ?thesis using w by (auto simp: wf_blocks_append wf_blocks_Cons)
  next
    case apart
    have lt: "\<forall>(a, n) \<in> set us. a + n < b"
    proof (cases us rule: rev_cases)
      case (snoc xs x)
      obtain a n where x: "x = (a, n)" by fastforce
      have "a + n < b" using w apart(2) snoc x by fastforce
      moreover have "\<forall>(a', n') \<in> set xs. a' + n' < a" using w(2) snoc x by (auto simp: wf_blocks_append)
      ultimately show ?thesis using snoc x by fastforce
    qed simp
    then show ?thesis using w apart(1) by (auto simp: wf_blocks_append wf_blocks_Cons)
  qed
  then show "wf_blocks B (free_blocks us b u vs)"
    and "units_of (free_blocks us b u vs) = units_of (us @ vs) \<union> {b ..< b + u}"
    and "total (free_blocks us b u vs) = total (us @ vs) + u"
    using sets unfolding fb by auto
qed

section \<open>The insertion in unit memory\<close>

lemma find_prev_spec:
  assumes "wf_blocks B (us @ vs)" "enc m (us @ vs) E" "E = B + PAGE_UNITS" "us \<noteq> []"
    and "\<forall>(a, n) \<in> set us. a + n \<le> b" "b \<le> first_of vs E"
  shows "slob_find_prev m b (fst (hd us)) (first_of (tl us @ vs) E) = Some (fst (last us), first_of vs E)"
  using assms
proof (induction us)
  case (Cons x us)
  note prems = Cons.prems and IH = Cons.IH
  obtain a n where x: "x = (a, n)" by fastforce
  show ?case
  proof (cases us)
    case Nil
    then show ?thesis using prems(6) by (simp add: slob_find_prev.simps x)
  next
    case (Cons y ys)
    obtain a' n' where y: "y = (a', n')" by fastforce
    have wf: "wf_blocks B ((a', n') # ys @ vs)" and blk: "is_block m a' n' (first_of (ys @ vs) E)"
      using prems(1,2) Cons y x by (auto simp: wf_blocks_Cons)
    have pos: "0 < n'" "a' < b" using prems(5) wf Cons y by (auto simp: wf_blocks_Cons)
    have "in_page B a'" by (rule in_page_block [OF wf, of a' n']) simp
    then have "slob_base a' < first_of (ys @ vs) E"
      using in_page_base wf_blocks_first [OF wf] wf prems(3) by (simp add: wf_blocks_Cons)
    then have nxt: "slob_next m a' = first_of (ys @ vs) E" using is_block_next [OF blk pos(1)] by simp
    have "slob_find_prev m b a (first_of (us @ vs) E) = slob_find_prev m b a' (first_of (ys @ vs) E)"
      using pos(2) nxt Cons y by (subst slob_find_prev.simps) simp
    moreover have "slob_find_prev m b (fst (hd us)) (first_of (tl us @ vs) E) = Some (fst (last us), first_of vs E)"
      using IH prems Cons x by (auto simp: wf_blocks_Cons)
    ultimately show ?thesis using Cons x y by simp
  qed
qed simp

lemma block_code:
  assumes "wf_blocks B ((a, n) # bs)" "enc m ((a, n) # bs) E" "E = B + PAGE_UNITS"
  shows "slob_units m a = n \<and> slob_next m a = first_of bs E"
proof -
  have "in_page B a" by (rule in_page_block [OF assms(1), of a n]) simp
  then have "slob_base a < first_of bs E"
    using in_page_base wf_blocks_first [OF assms(1)] assms(1,3) by (simp add: wf_blocks_Cons)
  moreover have "is_block m a n (first_of bs E)" "0 < n" using assms by (auto simp: wf_blocks_Cons)
  ultimately show ?thesis using is_block_units is_block_next by simp
qed

lemma join_right_mem:
  assumes fit: "fits_between B us b u vs" and enc: "enc m (us @ vs) E" and E: "E = B + PAGE_UNITS"
    and r: "join_right b u vs = (u', ws)" and m1: "m1 = set_slob m b u' (first_of ws E)"
  shows "is_block m1 b u' (first_of ws E)" "enc m1 ws E" "enc m1 us (first_of vs E)"
    "\<forall>x. x \<notin> units_of (us @ vs) \<union> {b ..< b + u} \<longrightarrow> m1 x = m x"
    "slob_units m1 b = u'" "slob_next m1 b = first_of ws E"
proof -
  have w: "wf_blocks B ((b, u') # ws)" "wf_blocks B us" "\<forall>(a, n) \<in> set us. a + n \<le> b"
    and sets: "units_of ((b, u') # ws) = {b ..< b + u} \<union> units_of vs"
    using wf_join_right [OF fit r] by blast+
  have wf: "PAGE_UNITS dvd B" "B \<le> b" "0 < u'" "b + u' \<le> E" "wf_blocks B ws" "\<forall>(a, n) \<in> set ws. b + u' < a"
    using w(1) E by (auto simp: wf_blocks_Cons)
  have page: "in_page B b" using wf E by (auto simp: in_page_def)
  have first: "B < first_of ws E" "first_of ws E \<le> E" using wf_blocks_first [OF w(1)] wf(2,3) E by auto
  show blk: "is_block m1 b u' (first_of ws E)"
    unfolding m1 by (rule set_slob_is_block [OF page wf(3)]) (use wf first E in auto)
  have frame: "m1 x = m x" if "x \<notin> {b ..< b + u'}" for x
    unfolding m1 by (rule set_slob_frame [OF wf(3) that])
  have "enc m ws E"
    by (cases rule: join_right_cases [of vs b u]) (use enc r in \<open>auto simp: enc_append\<close>)
  then show "enc m1 ws E"
  proof (rule enc_cong [OF _ wf_blocks_pos [OF wf(5)]])
    show "m1 x = m x" if "x \<in> units_of ws" for x
      by (rule frame) (use that wf(6) in \<open>force simp: units_of_def\<close>)
  qed
  have "enc m us (first_of vs E)" using enc by (simp add: enc_append)
  then show "enc m1 us (first_of vs E)"
  proof (rule enc_cong [OF _ wf_blocks_pos [OF w(2)]])
    show "m1 x = m x" if "x \<in> units_of us" for x
      by (rule frame) (use that w(3) in \<open>force simp: units_of_def\<close>)
  qed
  show "\<forall>x. x \<notin> units_of (us @ vs) \<union> {b ..< b + u} \<longrightarrow> m1 x = m x"
    using frame sets by auto
  show "slob_units m1 b = u'" "slob_next m1 b = first_of ws E"
    using is_block_units [OF blk wf(3)] is_block_next [OF blk wf(3)] in_page_base [OF page] first by simp_all
qed

lemma join_right_code:
  assumes "fits_between B us b u vs" "enc m (us @ vs) E" "E = B + PAGE_UNITS"
    and r: "join_right b u vs = (u', ws)"
  shows "(if vs \<noteq> [] \<and> b + u = first_of vs E
          then (u + slob_units m (first_of vs E), slob_next m (first_of vs E)) else (u, first_of vs E)) =
     (u', first_of ws E)"
proof (cases vs)
  case (Cons x xs)
  obtain a n where x: "x = (a, n)" by fastforce
  have "wf_blocks B ((a, n) # xs)" "enc m ((a, n) # xs) E"
    using assms(1,2) Cons x by (auto simp: fits_between_def wf_blocks_append enc_append)
  then have "slob_units m a = n \<and> slob_next m a = first_of xs E" using block_code assms(3) by blast
  then show ?thesis using r Cons x by (auto simp: join_right_def)
qed (use r in \<open>auto simp: join_right_def\<close>)

lemma first_of_join_left: "us \<noteq> [] \<Longrightarrow> first_of (join_left us b u @ ws) e = first_of us e'"
  by (cases us rule: rev_cases; cases "butlast us") (auto simp: join_left_def split: if_splits prod.splits)

lemma join_left_mem:
  assumes wfu: "wf_blocks B us" "us \<noteq> []" "\<forall>(a, n) \<in> set us. a + n \<le> b" and E: "E = B + PAGE_UNITS" "0 < B"
    and wfw: "wf_blocks B ((b, u) # ws)" and sep: "\<forall>(a, n) \<in> set us. \<forall>(a', n') \<in> set ws. a + n < a'"
    and enc: "enc m us e0" "is_block m b u (first_of ws E)" "enc m ws E" "B < e0"
    and prev: "prev = fst (last us)"
    and m': "m' = (if prev + slob_units m prev = b
                   then set_slob m prev (slob_units m b + slob_units m prev) (slob_next m b)
                   else set_slob m prev (slob_units m prev) b)"
    and ub: "slob_units m b = u" "slob_next m b = first_of ws E"
  shows "enc m' (join_left us b u @ ws) E \<and> (\<forall>x. x \<notin> units_of us \<union> {b ..< b + u} \<longrightarrow> m' x = m x)"
proof -
  obtain xs a n where us: "us = xs @ [(a, n)]" using wfu(2) by (cases us rule: rev_cases) auto
  have p: "prev = a" using prev us by simp
  have wf: "wf_blocks B xs" "0 < n" "B \<le> a" "\<forall>(a', n') \<in> set xs. a' + n' < a" "a + n \<le> b" "a < E" "PAGE_UNITS dvd B"
    using wfu E by (auto simp: us wf_blocks_append wf_blocks_Cons)
  have w: "0 < u" "B \<le> b" "b + u \<le> E" "wf_blocks B ws" "\<forall>(a, n) \<in> set ws. b + u < a"
    using wfw E by (auto simp: wf_blocks_Cons)
  have page: "in_page B a" using wf E by (simp add: in_page_def)
  have encs: "enc m xs a" "is_block m a n e0" using enc(1) by (auto simp: us enc_append)
  have n: "slob_units m a = n"
    using is_block_units [OF encs(2) wf(2)] in_page_base [OF page] enc(4) by simp
  have first: "b + u \<le> first_of ws E" "first_of ws E \<le> E" using wf_blocks_first [OF wfw] E by auto
  have xs_units: "x < a" if "x \<in> units_of xs" for x using that wf(4) by (fastforce simp: units_of_def)
  have ws_units: "b + u < x" if "x \<in> units_of ws" for x using that w(5) by (fastforce simp: units_of_def)
  have keep: "enc m'' xs a \<and> enc m'' ws E" if "\<And>x. x < a \<or> b + u < x \<Longrightarrow> m'' x = m x" for m''
    using that xs_units ws_units enc_cong [OF encs(1) wf_blocks_pos [OF wf(1)], of m'']
      enc_cong [OF enc(3) wf_blocks_pos [OF w(4)], of m''] by blast
  show ?thesis
  proof (cases "a + n = b")
    case True
    have k: "m' = set_slob m a (u + n) (first_of ws E)" using m' p n ub True by simp
    have blk: "is_block m' a (u + n) (first_of ws E)"
      unfolding k by (rule set_slob_is_block [OF page]) (use wf w first E True in auto)
    have frame: "m' x = m x" if "x \<notin> {a ..< a + (u + n)}" for x
      unfolding k by (rule set_slob_frame) (use wf(2) that in auto)
    have "enc m' xs a \<and> enc m' ws E" by (rule keep, rule frame) (use True in auto)
    moreover have "join_left us b u = xs @ [(a, u + n)]" using True by (simp add: join_left_def us)
    moreover have "units_of us \<union> {b ..< b + u} = units_of xs \<union> {a ..< a + (u + n)}" using True us by auto
    ultimately show ?thesis using blk frame by (simp add: enc_append)
  next
    case False
    have k: "m' = set_slob m a n b" using m' p n False by simp
    have blk: "is_block m' a n b"
      unfolding k by (rule set_slob_is_block [OF page wf(2)]) (use wf w E False in auto)
    have frame: "m' x = m x" if "x \<notin> {a ..< a + n}" for x
      unfolding k by (rule set_slob_frame [OF wf(2) that])
    have "enc m' xs a \<and> enc m' ws E" by (rule keep, rule frame) (use wf(5) in auto)
    moreover have "is_block m' b u (first_of ws E)"
      by (rule is_block_cong [OF enc(2) w(1)], rule frame) (use wf(5) in auto)
    moreover have "join_left us b u = xs @ [(a, n), (b, u)]" using False by (simp add: join_left_def us)
    ultimately show ?thesis using blk frame us by (simp add: enc_append)
  qed
qed

lemma slob_last_first:
  assumes "wf_blocks B (us @ vs)" "us \<noteq> []" "slob_next m a = first_of vs E" "E = B + PAGE_UNITS"
  shows "slob_last m a \<longleftrightarrow> vs = []"
proof (cases vs)
  case Nil
  then show ?thesis using assms by (simp add: slob_last_def wf_blocks_def mod_eq_0_iff_dvd)
next
  case (Cons y ys)
  obtain a' n' where y: "y = (a', n')" by fastforce
  obtain x xs where us: "us = x # xs" using assms(2) by (cases us) auto
  have page: "in_page B a'" by (rule in_page_block [OF assms(1), of a' n']) (simp add: Cons y)
  have "B < a'" using assms(1) us Cons y by (cases x) (auto simp: wf_blocks_append wf_blocks_Cons)
  then have "a' mod PAGE_UNITS \<noteq> 0" using in_page_base [OF page] by (auto simp: slob_base_def)
  then show ?thesis using assms(3) Cons y by (simp add: slob_last_def)
qed

lemma slob_free_insert_spec:
  assumes fit: "fits_between B us b u vs" and enc: "enc m (us @ vs) E" and E: "E = B + PAGE_UNITS" "0 < B"
    and ne: "us @ vs \<noteq> []"
  shows "\<exists>m'. slob_free_insert m (first_of (us @ vs) E) b u = Some (m', first_of (free_blocks us b u vs) E) \<and>
     enc m' (free_blocks us b u vs) E \<and> (\<forall>x. x \<notin> units_of (us @ vs) \<union> {b ..< b + u} \<longrightarrow> m' x = m x)"
proof -
  obtain u' ws where r: "join_right b u vs = (u', ws)" by fastforce
  define m1 where "m1 = set_slob m b u' (first_of ws E)"
  note mem = join_right_mem [OF fit enc E(1) r m1_def] and code = join_right_code [OF fit enc E(1) r]
  have w: "wf_blocks B ((b, u') # ws)" "wf_blocks B us" "\<forall>(a, n) \<in> set us. a + n \<le> b"
      "\<forall>(a, n) \<in> set us. \<forall>(a', n') \<in> set ws. a + n < a'"
    and sets: "units_of ((b, u') # ws) = {b ..< b + u} \<union> units_of vs"
    using wf_join_right [OF fit r] by blast+
  have fb: "free_blocks us b u vs = join_left us b u' @ ws" by (simp add: free_blocks_def r)
  have wf: "wf_blocks B (us @ vs)" "0 < u" "b + u \<le> E" "\<forall>(a, n) \<in> set vs. b + u \<le> a"
    using fit E(1) by (simp_all add: fits_between_def)
  have bvs: "b + u \<le> first_of vs E" using wf(3,4) by (cases vs) auto
  show ?thesis
  proof (cases "us = []")
    case True
    then have vs: "vs \<noteq> []" using ne by simp
    have "b < first_of vs E" using bvs wf(2) by simp
    moreover have "(case if b + u = first_of vs E then (u + slob_units m (first_of vs E), slob_next m (first_of vs E))
        else (u, first_of vs E) of (units, fr) \<Rightarrow> Some (set_slob m b units fr, b)) = Some (m1, b)"
      using code vs by (auto simp: m1_def split: if_splits)
    ultimately have "slob_free_insert m (first_of (us @ vs) E) b u = Some (m1, b)"
      using True by (simp add: slob_free_insert_def)
    moreover have "free_blocks us b u vs = (b, u') # ws" using fb True by (simp add: join_left_def)
    ultimately show ?thesis using mem(1,2,4) by simp
  next
    case False
    obtain x xs where us: "us = x # xs" using False by (cases us) auto
    obtain ys a n where last: "us = ys @ [(a, n)]" using False by (cases us rule: rev_cases) auto
    have first: "first_of (us @ vs) E = fst (hd us)" by (cases x) (simp add: us)
    have hd: "enc m ((fst (hd us), snd (hd us)) # tl us @ vs) E" "wf_blocks B ((fst (hd us), snd (hd us)) # tl us @ vs)"
      using enc wf(1) by (simp_all add: us)
    have nxt: "slob_next m (fst (hd us)) = first_of (tl us @ vs) E" using block_code [OF hd(2,1) E(1)] by blast
    have "b \<le> first_of vs E" using bvs by simp
    then have find: "slob_find_prev m b (fst (hd us)) (first_of (tl us @ vs) E) = Some (a, first_of vs E)"
      using find_prev_spec [OF wf(1) enc E(1) False w(3)] last by simp
    have "\<not> b < fst (hd us)" using w(3) us by (cases x) auto
    have an: "enc m ((a, n) # vs) E" "wf_blocks B ((a, n) # vs)"
      using enc wf(1) by (auto simp: last enc_append wf_blocks_append)
    have "slob_next m a = first_of vs E" using block_code [OF an(2,1) E(1)] by blast
    then have lst: "slob_last m a \<longleftrightarrow> vs = []" using slob_last_first [OF wf(1) False] E(1) by blast
    define m2 where "m2 = (if a + slob_units m1 a = b
        then set_slob m1 a (slob_units m1 b + slob_units m1 a) (slob_next m1 b)
        else set_slob m1 a (slob_units m1 a) b)"
    have m1': "(if \<not> slob_last m a \<and> b + u = first_of vs E
        then set_slob m b (u + slob_units m (first_of vs E)) (slob_next m (first_of vs E))
        else set_slob m b u (first_of vs E)) = m1"
      using code lst by (auto simp: m1_def split: if_splits)
    have run: "slob_free_insert m (first_of (us @ vs) E) b u = Some (m2, first_of (us @ vs) E)"
      using \<open>\<not> b < fst (hd us)\<close> unfolding slob_free_insert_def first nxt find
      by (simp add: m1' Let_def) (simp add: m2_def)
    have "B < first_of vs E" using bvs wf(2) fit by (simp add: fits_between_def)
    then have m2: "enc m2 (join_left us b u' @ ws) E \<and> (\<forall>x. x \<notin> units_of us \<union> {b ..< b + u'} \<longrightarrow> m2 x = m1 x)"
      by (intro join_left_mem [OF w(2) False w(3) E w(1) w(4) mem(3,1,2) _ _ _ mem(5,6)]) (simp_all add: m2_def last)
    moreover have "\<forall>x. x \<notin> units_of (us @ vs) \<union> {b ..< b + u} \<longrightarrow> m2 x = m x"
    proof (intro allI impI)
      fix x assume x: "x \<notin> units_of (us @ vs) \<union> {b ..< b + u}"
      then have "x \<notin> {b ..< b + u'}" using sets by auto
      then show "m2 x = m x" using m2 mem(4) x by simp
    qed
    moreover have "first_of (us @ vs) E = first_of (free_blocks us b u vs) E"
      unfolding fb first_of_join_left [OF False, of _ _ _ _ "first_of vs E"] by simp
    ultimately show ?thesis using run fb by simp
  qed
qed

section \<open>Freeing a block\<close>

lemma slob_free_listed:
  assumes inv: "slob_inv s bl" and p: "p \<in> set (free_slob_small s)"
    and R: "0 < u" "{b ..< b + u} \<subseteq> page_units p" "units_of (bl p) \<inter> {b ..< b + u} = {}"
  shows "\<exists>m fr bs. slob_free_insert (smem s) (sp_free s p) b u = Some (m, fr) \<and>
     slob_inv (page_update p m fr (sp_units s p + int u) s) (bl(p := bs)) \<and> bs \<noteq> [] \<and>
     units_of bs = units_of (bl p) \<union> {b ..< b + u} \<and>
     (\<forall>x. x \<notin> units_of (bl p) \<union> {b ..< b + u} \<longrightarrow> m x = smem s x)"
proof -
  have ok: "page_ok s p (bl p)" "usable_page p" and ne: "bl p \<noteq> []"
    using slob_inv_page [OF inv slob_inv_listed_slab [OF inv p]] slob_inv_listed [OF inv, of p] p by auto
  have wf: "wf_blocks (page_base p) (bl p)" using ok(1) by (simp add: page_ok_def)
  have b: "page_base p \<le> b" "b + u \<le> page_end p"
    using R(1) atLeastLessThan_subset_iff [OF R(2) [unfolded page_units_def]] by auto
  obtain us vs where uv: "bl p = us @ vs" "fits_between (page_base p) us b u vs"
    using fits_between_exists [OF wf R(1) b R(3)] by blast
  let ?bs = "free_blocks us b u vs"
  have base: "0 < page_base p" using ok(2) by (simp add: usable_page_def PAGE_UNITS_eq)
  obtain m where m: "slob_free_insert (smem s) (sp_free s p) b u = Some (m, first_of ?bs (page_end p))"
      "enc m ?bs (page_end p)" "\<forall>x. x \<notin> units_of (bl p) \<union> {b ..< b + u} \<longrightarrow> m x = smem s x"
    using slob_free_insert_spec [OF uv(2) _ refl base, of "smem s"] ok(1) ne uv(1) by (auto simp: page_ok_def)
  note w = wf_free_blocks [OF uv(2)]
  have "slob_inv (page_update p m (first_of ?bs (page_end p)) (sp_units s p + int u) s) (bl(p := ?bs))"
  proof (rule slob_inv_update [OF inv p w(1) m(2) refl])
    show "sp_units s p + int u = int (total ?bs)" using w(3) ok(1) uv(1) by (simp add: page_ok_def)
    show "m v = smem s v" if "v \<notin> page_units p" for v
      using m(3) that R(2) units_in_page [OF inv, of p] by blast
  qed
  moreover have "?bs \<noteq> []" using w(3) R(1) by auto
  ultimately show ?thesis using m(1,3) w(2) uv(1) by auto
qed

lemma slob_free_release:
  assumes inv: "slob_inv s bl"
  shows "slob_inv ((if page_slob_free s p then clear_slob_page_free p s else s)
           \<lparr>page_slab := (page_slab s)(p := False), pages_alloc := n, reclaimed_slab := r, released := q\<rparr>) (bl(p := []))"
    (is "slob_inv ?s _")
proof -
  have listed: "page_slob_free s p \<longleftrightarrow> p \<in> set (free_slob_small s)" using inv by (simp add: slob_inv_def)
  have f: "free_slob_small ?s = removeAll p (free_slob_small s)" "page_slob_free ?s = (page_slob_free s)(p := False)"
      "free_slob_medium ?s = []" "free_slob_large ?s = []" "page_slab ?s = (page_slab s)(p := False)"
    using inv listed by (auto simp: clear_slob_page_free_def slob_inv_def fun_eq_iff)
  have "page_ok ?s p' bs = page_ok s p' bs" for p' bs by (simp add: page_ok_def clear_slob_page_free_def)
  then show ?thesis
    using inv unfolding slob_inv_def f by (auto simp: distinct_removeAll)
qed

lemma slob_free_full:
  assumes inv: "slob_inv s bl" and p: "page_slab s p" "bl p = []"
    and R: "0 < u" "page_base p \<le> b" "b + u \<le> page_end p"
  shows "slob_inv (set_slob_page_free p (s\<lparr>sp_units := (sp_units s)(p := int u), sp_free := (sp_free s)(p := b),
           smem := set_slob (smem s) b u (page_end p)\<rparr>)) (bl(p := [(b, u)]))"
    (is "slob_inv ?s _")
proof -
  have nl: "p \<notin> set (free_slob_small s)" using slob_inv_listed [OF inv, of p] p(2) by simp
  have f: "free_slob_small ?s = p # free_slob_small s" "page_slob_free ?s = (page_slob_free s)(p := True)"
      "free_slob_medium ?s = []" "free_slob_large ?s = []" "page_slab ?s = page_slab s"
    using inv by (auto simp: set_slob_page_free_def slob_inv_def)
  have frame: "smem ?s x = smem s x" if "x \<notin> page_units p" for x
    using set_slob_frame [OF R(1), of x b] that R(2,3) by (auto simp: set_slob_page_free_def page_units_def)
  have "page_ok ?s p' ((bl(p := [(b, u)])) p')" if "page_slab s p'" for p'
  proof (cases "p' = p")
    case True
    have page: "in_page (page_base p) b" using R by (auto simp: in_page_def)
    have "is_block (set_slob (smem s) b u (page_end p)) b u (page_end p)"
      by (rule set_slob_is_block [OF page R(1)]) (use R in auto)
    then show ?thesis using True R by (simp add: page_ok_def set_slob_page_free_def wf_blocks_Cons)
  next
    case False
    have "page_ok s p' (bl p')" using slob_inv_page [OF inv that] by simp
    then have "page_ok ?s p' (bl p')"
    proof (rule page_ok_cong)
      show "smem ?s x = smem s x" if "x \<in> units_of (bl p')" for x
        by (rule frame) (use that units_in_page [OF inv, of p'] page_units_disjoint [OF False] in blast)
    qed (use False in \<open>simp_all add: set_slob_page_free_def\<close>)
    then show ?thesis using False by simp
  qed
  then show ?thesis using inv p nl unfolding slob_inv_def f by auto
qed

text \<open>
  The units that are given back lie in one page that belongs to the allocator and are not free.
\<close>

definition allocated :: "slob \<Rightarrow> (nat \<Rightarrow> blocks) \<Rightarrow> nat \<Rightarrow> nat \<Rightarrow> bool" where
  "allocated s bl b u \<longleftrightarrow> 0 < u \<and> page_slab s (slob_page b) \<and>
     {b ..< b + u} \<subseteq> page_units (slob_page b) \<and> free_units bl \<inter> {b ..< b + u} = {}"

lemma slob_free_spec:
  assumes inv: "slob_inv s bl" and al: "allocated s bl b (SLOB_UNITS sz)" and sz: "0 < sz"
  shows "if page_units (slob_page b) \<subseteq> free_units bl \<union> {b ..< b + SLOB_UNITS sz}
    then \<exists>s'. slob_free b sz s = Some s' \<and> slob_inv s' (bl(slob_page b := [])) \<and>
       page_slab s' = (page_slab s)(slob_page b := False) \<and> pages_alloc s' = pages_alloc s - 1 \<and>
       released s' = FreePages (slob_page b) 0 # released s \<and> smem s' = smem s \<and> caches s' = caches s
    else \<exists>s' bl'. slob_free b sz s = Some s' \<and> slob_inv s' bl' \<and>
       free_units bl' = free_units bl \<union> {b ..< b + SLOB_UNITS sz} \<and> page_slab s' = page_slab s \<and>
       pages_alloc s' = pages_alloc s \<and> released s' = released s \<and> caches s' = caches s \<and>
       (\<forall>x. x \<notin> free_units bl \<union> {b ..< b + SLOB_UNITS sz} \<longrightarrow> smem s' x = smem s x)"
proof -
  let ?p = "slob_page b" and ?u = "SLOB_UNITS sz"
  let ?R = "{b ..< b + ?u}"
  have a: "0 < ?u" "page_slab s ?p" "?R \<subseteq> page_units ?p" "free_units bl \<inter> ?R = {}"
    using al by (simp_all add: allocated_def)
  have ok: "page_ok s ?p (bl ?p)" "usable_page ?p" using slob_inv_page [OF inv a(2)] by simp_all
  have b: "page_base ?p \<le> b" "b + ?u \<le> page_end ?p"
    using a(1) atLeastLessThan_subset_iff [OF a(3) [unfolded page_units_def]] by auto
  have nz: "\<not> ZERO_OR_NULL_PTR b"
    using b(1) ok(2) by (simp add: ZERO_OR_NULL_PTR_def ZERO_SIZE_PTR_def SLOB_UNIT_def usable_page_def PAGE_UNITS_eq)
  have disj: "units_of (bl ?p) \<inter> ?R = {}" using a(4) by (auto simp: free_units_def)
  have wf: "wf_blocks (page_base ?p) (bl ?p)" and units: "sp_units s ?p = int (total (bl ?p))"
    using ok(1) by (simp_all add: page_ok_def)
  have fp: "units_of (bl ?p) = free_units bl \<inter> page_units ?p" using free_units_page [OF inv] by simp
  have full: "sp_units s ?p + int ?u = int PAGE_UNITS \<longleftrightarrow> page_units ?p \<subseteq> free_units bl \<union> ?R"
  proof -
    have c: "card (units_of (bl ?p)) = total (bl ?p)" "finite (units_of (bl ?p))"
      using card_units_of [OF wf] by (auto simp: units_of_def)
    have "card (units_of (bl ?p) \<union> ?R) = total (bl ?p) + ?u"
      using c disj by (simp add: card_Un_disjoint)
    moreover have sub: "units_of (bl ?p) \<union> ?R \<subseteq> page_units ?p" using a(3) fp by blast
    moreover have fin: "finite (page_units ?p)" "card (page_units ?p) = PAGE_UNITS" by (simp_all add: page_units_def)
    ultimately have "total (bl ?p) + ?u = PAGE_UNITS \<longleftrightarrow> units_of (bl ?p) \<union> ?R = page_units ?p"
      using card_subset_eq by metis
    also have "\<dots> \<longleftrightarrow> page_units ?p \<subseteq> free_units bl \<union> ?R" using sub fp by blast
    finally show ?thesis using units by linarith
  qed
  have free_upd: "free_units (bl(?p := bs)) = free_units bl \<union> ?R" if "units_of bs = units_of (bl ?p) \<union> ?R" for bs
    unfolding free_units_upd that by (auto simp: free_units_def)
  show ?thesis
  proof (cases "page_units ?p \<subseteq> free_units bl \<union> ?R")
    case True
    let ?s = "(if page_slob_free s ?p then clear_slob_page_free ?p s else s)
      \<lparr>page_slab := (page_slab s)(?p := False), pages_alloc := pages_alloc s - 1,
       reclaimed_slab := map_option (\<lambda>n. n + 2 ^ 0) (reclaimed_slab s), released := FreePages ?p 0 # released s\<rparr>"
    have "slob_free b sz s = Some ?s"
      using True full nz sz by (simp add: slob_free_def Let_def slob_free_pages_def clear_slob_page_free_def)
    moreover have "slob_inv ?s (bl(?p := []))" by (rule slob_free_release [OF inv])
    ultimately show ?thesis using True by (simp add: clear_slob_page_free_def)
  next
    case False
    show ?thesis
    proof (cases "page_slob_free s ?p")
      case True
      then have listed: "?p \<in> set (free_slob_small s)" using inv by (simp add: slob_inv_def)
      obtain m fr bs where t: "slob_free_insert (smem s) (sp_free s ?p) b ?u = Some (m, fr)"
          "slob_inv (page_update ?p m fr (sp_units s ?p + int ?u) s) (bl(?p := bs))"
          "units_of bs = units_of (bl ?p) \<union> ?R"
          "\<forall>x. x \<notin> units_of (bl ?p) \<union> ?R \<longrightarrow> m x = smem s x"
        using slob_free_listed [OF inv listed a(1,3) disj] by blast
      let ?s = "page_update ?p m fr (sp_units s ?p + int ?u) s"
      have "sp_units s ?p + int ?u \<noteq> 0" using units a(1) by simp
      then have "slob_free b sz s = Some ?s"
        using False full nz sz True t(1) by (simp add: slob_free_def Let_def page_update_def)
      moreover have "\<forall>x. x \<notin> free_units bl \<union> ?R \<longrightarrow> smem ?s x = smem s x" using t(4) fp by (auto simp: slob_simps)
      ultimately show ?thesis using False t(2) free_upd [OF t(3)] by (auto simp: slob_simps)
    next
      case nf: False
      then have "?p \<notin> set (free_slob_small s)" using inv by (simp add: slob_inv_def)
      then have nil: "bl ?p = []" using slob_inv_listed [OF inv, of ?p] by blast
      have base: "slob_base (b + PAGE_UNITS) = page_end ?p"
        by (rule in_page_base) (use b a(1) in \<open>auto simp: in_page_def\<close>)
      let ?s = "set_slob_page_free ?p (s\<lparr>sp_units := (sp_units s)(?p := int ?u), sp_free := (sp_free s)(?p := b),
           smem := set_slob (smem s) b ?u (page_end ?p)\<rparr>)"
      have "slob_free b sz s = Some ?s"
        using False full nz sz nf by (simp add: slob_free_def Let_def base)
      moreover have "slob_inv ?s (bl(?p := [(b, ?u)]))" by (rule slob_free_full [OF inv a(2) nil a(1) b])
      moreover have "free_units (bl(?p := [(b, ?u)])) = free_units bl \<union> ?R" by (rule free_upd) (simp add: nil)
      moreover have "\<forall>x. x \<notin> free_units bl \<union> ?R \<longrightarrow> smem ?s x = smem s x"
        using set_slob_frame [OF a(1)] by (simp add: set_slob_page_free_def)
      ultimately show ?thesis using False by (auto simp: set_slob_page_free_def)
    qed
  qed
qed

section \<open>The free list is determined by the free units\<close>

lemma units_gt: "wf_blocks B ((a, n) # bs) \<Longrightarrow> x \<in> units_of bs \<Longrightarrow> a + n < x"
  by (fastforce simp: wf_blocks_Cons units_of_def)

lemma units_of_empty: "wf_blocks B bs \<Longrightarrow> units_of bs = {} \<longleftrightarrow> bs = []"
  by (cases bs) (auto simp: wf_blocks_Cons)

lemma units_head_le:
  assumes "wf_blocks B ((a, n) # bs)" "wf_blocks B ((a', n') # bs')"
    and "units_of ((a, n) # bs) \<subseteq> units_of ((a', n') # bs')"
  shows "a' \<le> a"
proof -
  have "a \<in> units_of ((a, n) # bs)" using assms(1) by (auto simp: wf_blocks_Cons)
  then have "a \<in> units_of ((a', n') # bs')" using assms(3) by blast
  then show ?thesis using units_gt [OF assms(2), of a] by auto
qed

lemma units_len_le:
  assumes "wf_blocks B ((a, n) # bs)" "units_of ((a, n') # bs') = units_of ((a, n) # bs)"
  shows "n' \<le> n"
proof (rule ccontr)
  assume "\<not> n' \<le> n"
  then have "a + n \<in> units_of ((a, n) # bs)" unfolding assms(2) [symmetric] by simp
  then show False using units_gt [OF assms(1), of "a + n"] by auto
qed

lemma blocks_unique:
  "wf_blocks B bs \<Longrightarrow> wf_blocks B bs' \<Longrightarrow> units_of bs = units_of bs' \<Longrightarrow> bs = bs'"
proof (induction bs arbitrary: bs')
  case Nil
  then show ?case using units_of_empty [of B bs'] by auto
next
  case (Cons x bs)
  obtain a n where x: "x = (a, n)" by fastforce
  have "units_of bs' \<noteq> {}" using Cons.prems units_of_empty [of B "x # bs"] by auto
  then obtain a' n' cs where bs': "bs' = (a', n') # cs" by (cases bs') auto
  have "a' = a"
    using units_head_le [of B a n bs a' n' cs] units_head_le [of B a' n' cs a n bs] Cons.prems x bs' by auto
  moreover from this have "n' = n"
    using units_len_le [of B a n bs n' cs] units_len_le [of B a n' cs n bs] Cons.prems x bs' by auto
  moreover have "units_of bs = units_of cs"
  proof -
    have "{a ..< a + n} \<inter> units_of bs = {}" "{a ..< a + n} \<inter> units_of cs = {}"
      using units_gt [of B a n bs] units_gt [of B a n cs] Cons.prems x bs' calculation by fastforce+
    then show ?thesis using Cons.prems(3) x bs' calculation by auto
  qed
  ultimately show ?case using Cons.IH [of cs] Cons.prems x bs' by (auto simp: wf_blocks_Cons)
qed

lemma slob_inv_unique:
  assumes "slob_inv s bl" "slob_inv s' bl'" "free_units bl = free_units bl'"
  shows "bl = bl'"
proof
  fix p
  have eq: "units_of (bl p) = units_of (bl' p)"
    using free_units_page [OF assms(1), of p] free_units_page [OF assms(2), of p] assms(3) by simp
  have wf: "wf_blocks (page_base p) (bl p)" "wf_blocks (page_base p) (bl' p)"
    using assms(1,2) slob_inv_page [OF assms(1), of p] slob_inv_page [OF assms(2), of p]
    by (cases "bl p = []"; cases "bl' p = []"; auto simp: slob_inv_def page_ok_def)+
  show "bl p = bl' p" by (rule blocks_unique [OF wf eq])
qed

end
