(* ===== verification/Slob_Api.thy ===== *)
theory Slob_Api
  imports Slob
begin

text \<open>
  The front ends of SLOB in \<^verbatim>\<open>mm/slob.c\<close>: \<^verbatim>\<open>kmalloc\<close> with the size it keeps in front of a block, the
  object caches, and the system calls that report memory. Objects of a page or more come
  straight from the page allocator. A constructor of a cache is an argument, as is the page that
  the page allocator returns.
\<close>

section \<open>Words in unit memory\<close>

definition write32 :: "unit_mem \<Rightarrow> nat \<Rightarrow> u32 \<Rightarrow> unit_mem" where
  "write32 m a v = m(a := ucast v, a + 1 := ucast (drop_bit 16 v))"

definition read32 :: "unit_mem \<Rightarrow> nat \<Rightarrow> u32" where
  "read32 m a = ucast (m a) OR push_bit 16 (ucast (m (a + 1)))"

section \<open>Page orders\<close>

fun order_loop :: "nat \<Rightarrow> nat" where
  "order_loop n = (if n div 2 = 0 then 0 else Suc (order_loop (n div 2)))"

declare order_loop.simps [simp del]

definition get_order :: "u32 \<Rightarrow> nat" where
  "get_order sz = order_loop (unat (drop_bit 11 (sz - 1)))"

section \<open>kmalloc\<close>

text \<open>The alignment of both \<^verbatim>\<open>kmalloc\<close> and object caches: that of \<^verbatim>\<open>unsigned long\<close>.\<close>

definition ARCH_KMALLOC_MINALIGN :: nat where "ARCH_KMALLOC_MINALIGN = 4"

definition ARCH_SLAB_MINALIGN :: nat where "ARCH_SLAB_MINALIGN = 4"

definition kmalloc_align :: nat where
  "kmalloc_align = max ARCH_KMALLOC_MINALIGN ARCH_SLAB_MINALIGN"

definition kmalloc_node :: "u32 \<Rightarrow> bool \<Rightarrow> nat option \<Rightarrow> slob \<Rightarrow> (nat \<times> slob) option" where
  "kmalloc_node sz zero got s =
     (let align = kmalloc_align
      in if unat sz < PAGE_SIZE - align then
           (if sz = 0 then Some (ZERO_SIZE_PTR, s)
            else do {
              (m, s) \<leftarrow> slob_alloc (unat sz + align) zero align got s;
              if m = 0 then Some (0, s)
              else Some (m + align div SLOB_UNIT, s\<lparr>smem := write32 (smem s) m sz\<rparr>)
            })
         else
           (case slob_new_pages got s of
              (ret, s) \<Rightarrow>
                if ret \<noteq> 0 then Some (ret, s\<lparr>page_private := (page_private s)(slob_page ret := sz)\<rparr>)
                else Some (ret, s)))"

definition kfree :: "nat \<Rightarrow> slob \<Rightarrow> slob option" where
  "kfree block s =
     (if ZERO_OR_NULL_PTR block then Some s
      else
        (let sp = slob_page block
         in if page_slab s sp then
              (let align = kmalloc_align;
                   m = block - align div SLOB_UNIT
               in slob_free m (unat (read32 (smem s) m + word_of_nat align)) s)
            else Some (s\<lparr>released := PutPage sp # released s\<rparr>)))"

definition ksize :: "nat \<Rightarrow> slob \<Rightarrow> nat option" where
  "ksize block s =
     (if block = 0 then None
      else if block = ZERO_SIZE_PTR then Some 0
      else
        (let sp = slob_page block
         in if page_slab s sp then
              (let align = kmalloc_align;
                   m = block - align div SLOB_UNIT
               in Some (SLOB_UNITS (unat (read32 (smem s) m)) * SLOB_UNIT))
            else Some (unat (page_private s sp))))"

section \<open>Object caches\<close>

definition SLAB_HWCACHE_ALIGN :: u32 where "SLAB_HWCACHE_ALIGN = 0x00002000"
definition SLAB_PANIC :: u32 where "SLAB_PANIC = 0x00040000"
definition SLAB_DESTROY_BY_RCU :: u32 where "SLAB_DESTROY_BY_RCU = 0x00080000"

text \<open>\<^verbatim>\<open>L1_CACHE_BYTES\<close> of the configuration.\<close>

definition SLOB_ALIGN :: nat where "SLOB_ALIGN = 128"

definition sizeof_kmem_cache :: nat where "sizeof_kmem_cache = 20"

definition sizeof_slob_rcu :: nat where "sizeof_slob_rcu = 12"

definition kmem_cache_create ::
    "string \<Rightarrow> u32 \<Rightarrow> u32 \<Rightarrow> u32 \<Rightarrow> nat option \<Rightarrow> nat option \<Rightarrow> slob \<Rightarrow> (nat \<times> slob) option" where
  "kmem_cache_create name sz align flags ctor got s = do {
     (c, s) \<leftarrow> slob_alloc sizeof_kmem_cache False ARCH_KMALLOC_MINALIGN got s;
     if c \<noteq> 0 then
       (let csize = (if flags AND SLAB_DESTROY_BY_RCU \<noteq> 0 then sz + word_of_nat sizeof_slob_rcu else sz);
            calign = (if flags AND SLAB_HWCACHE_ALIGN \<noteq> 0 then word_of_nat SLOB_ALIGN else 0);
            calign = (if calign < word_of_nat ARCH_SLAB_MINALIGN then word_of_nat ARCH_SLAB_MINALIGN else calign);
            calign = (if calign < align then align else calign)
        in Some (c, s\<lparr>caches := (caches s)(c \<mapsto>
             \<lparr>kc_size = csize, kc_align = calign, kc_flags = flags, kc_name = name, kc_ctor = ctor\<rparr>)\<rparr>))
     else if flags AND SLAB_PANIC \<noteq> 0 then None
     else Some (0, s)
   }"

definition kmem_cache_alloc_node ::
    "(nat \<Rightarrow> nat \<Rightarrow> slob \<Rightarrow> slob) \<Rightarrow> kmem_cache \<Rightarrow> bool \<Rightarrow> nat option \<Rightarrow> slob \<Rightarrow> (nat \<times> slob) option" where
  "kmem_cache_alloc_node run_ctor c zero got s = do {
     (b, s) \<leftarrow>
       (if unat (kc_size c) < PAGE_SIZE
        then slob_alloc (unat (kc_size c)) zero (unat (kc_align c)) got s
        else Some (slob_new_pages got s));
     Some (b, case kc_ctor c of Some f \<Rightarrow> run_ctor f b s | None \<Rightarrow> s)
   }"

text \<open>\<^verbatim>\<open>__kmem_cache_free\<close>\<close>

definition kmem_cache_free_block :: "nat \<Rightarrow> u32 \<Rightarrow> slob \<Rightarrow> slob option" where
  "kmem_cache_free_block b sz s =
     (if unat sz < PAGE_SIZE then slob_free b (unat sz) s
      else Some (slob_free_pages b (get_order sz) s))"

text \<open>
  The deferred free is queued with the address of the object and its size; \<^verbatim>\<open>kmem_rcu_free\<close> recovers
  the address of the object from that of the footer at its end.
\<close>

definition kmem_cache_free :: "kmem_cache \<Rightarrow> nat \<Rightarrow> slob \<Rightarrow> slob option" where
  "kmem_cache_free c b s =
     (if kc_flags c AND SLAB_DESTROY_BY_RCU \<noteq> 0
      then Some (s\<lparr>rcu_callbacks := rcu_callbacks s @ [(b, kc_size c)]\<rparr>)
      else kmem_cache_free_block b (kc_size c) s)"

definition kmem_rcu_free :: "slob \<Rightarrow> slob option" where
  "kmem_rcu_free s =
     (case rcu_callbacks s of
        [] \<Rightarrow> Some s
      | (b, sz) # rest \<Rightarrow> kmem_cache_free_block b sz (s\<lparr>rcu_callbacks := rest\<rparr>))"

text \<open>\<^verbatim>\<open>rcu_barrier\<close> waits until all queued callbacks have run.\<close>

fun rcu_run :: "nat \<Rightarrow> slob \<Rightarrow> slob option" where
  "rcu_run 0 s = Some s"
| "rcu_run (Suc n) s = do { s \<leftarrow> kmem_rcu_free s; rcu_run n s }"

definition rcu_barrier :: "slob \<Rightarrow> slob option" where
  "rcu_barrier s = rcu_run (length (rcu_callbacks s)) s"

definition kmem_cache_destroy :: "nat \<Rightarrow> slob \<Rightarrow> slob option" where
  "kmem_cache_destroy c s =
     (case caches s c of
        None \<Rightarrow> None
      | Some k \<Rightarrow> do {
          s \<leftarrow> (if kc_flags k AND SLAB_DESTROY_BY_RCU \<noteq> 0 then rcu_barrier s else Some s);
          slob_free c sizeof_kmem_cache s
        })"

definition kmem_cache_size :: "kmem_cache \<Rightarrow> u32" where
  "kmem_cache_size c = kc_size c"

definition kmem_cache_name :: "kmem_cache \<Rightarrow> string" where
  "kmem_cache_name c = kc_name c"

definition kmem_cache_shrink :: "kmem_cache \<Rightarrow> int" where
  "kmem_cache_shrink d = 0"

definition kmem_ptr_validate :: "kmem_cache \<Rightarrow> nat \<Rightarrow> int" where
  "kmem_ptr_validate a b = 0"

definition slab_is_available :: "slob \<Rightarrow> bool" where
  "slab_is_available s = slob_ready s"

definition kmem_cache_init :: "slob \<Rightarrow> slob" where
  "kmem_cache_init s = s\<lparr>slob_ready := True\<rparr>"

section \<open>System calls\<close>

text \<open>\<^verbatim>\<open>UNSLOB_UNITS(size)\<close>, in the unsigned arithmetic of \<^verbatim>\<open>sizeof\<close>.\<close>

definition UNSLOB_UNITS :: "int \<Rightarrow> u32" where
  "UNSLOB_UNITS n = word_of_nat SLOB_UNIT * (word_of_int n - word_of_nat SLOB_UNIT + 1)"

definition sys_get_slob_amt_claimed :: "slob \<Rightarrow> u32" where
  "sys_get_slob_amt_claimed s = pages_alloc s * word_of_nat PAGE_SIZE"

definition sys_get_slob_amt_free :: "slob \<Rightarrow> u32" where
  "sys_get_slob_amt_free s =
     (let free_bytes = 0;
          free_bytes = foldl (\<lambda>n sp. n + UNSLOB_UNITS (sp_units s sp)) free_bytes (free_slob_small s);
          free_bytes = foldl (\<lambda>n sp. n + UNSLOB_UNITS (sp_units s sp)) free_bytes (free_slob_medium s)
      in foldl (\<lambda>n sp. n + UNSLOB_UNITS (sp_units s sp)) free_bytes (free_slob_large s))"

end
