(* ===== verification/Slob_Reach.thy ===== *)
theory Slob_Reach
  imports Slob_Free Slob_Api
begin

text \<open>
  The allocator as a state machine: any sequence of allocations and of frees of outstanding
  objects, small and large. In every reachable state the outstanding small objects and the free
  units partition the pages of the small allocator, and the page counter is the number of these
  pages and of all large allocations so far.
\<close>

section \<open>Steps\<close>

definition slob_empty :: "slob \<Rightarrow> bool" where
  "slob_empty s \<longleftrightarrow> page_slab s = (\<lambda>_. False) \<and> page_slob_free s = (\<lambda>_. False) \<and>
     free_slob_small s = [] \<and> free_slob_medium s = [] \<and> free_slob_large s = [] \<and> pages_alloc s = 0"

text \<open>What the callers and the page allocator guarantee.\<close>

definition alloc_call :: "slob \<Rightarrow> nat \<Rightarrow> nat \<Rightarrow> nat option \<Rightarrow> bool" where
  "alloc_call s sz align got \<longleftrightarrow> 0 < sz \<and> sz \<le> PAGE_SIZE \<and> good_align align \<and>
     (case got of None \<Rightarrow> True | Some p \<Rightarrow> usable_page p \<and> \<not> page_slab s p)"

text \<open>A page that the page allocator hands out is not one the small allocator holds.\<close>

definition page_call :: "slob \<Rightarrow> nat option \<Rightarrow> bool" where
  "page_call s got \<longleftrightarrow> (case got of None \<Rightarrow> True | Some p \<Rightarrow> usable_page p \<and> \<not> page_slab s p)"

text \<open>
  All that callers can do with SLOB, in any order. The second component is the set of outstanding
  small objects with their sizes, the last one the number of large allocations so far, those that
  \<^verbatim>\<open>kmalloc\<close> and the object caches take from the page allocator as a whole. A small object of
  \<^verbatim>\<open>kmalloc\<close> or of a cache is an allocation followed by a write into the object, its header or what
  the constructor puts there; owners write where they like but not into the free blocks; and
  what caches record about themselves and about deferred frees is of no concern here.
\<close>

inductive slob_run :: "slob \<Rightarrow> (nat \<times> nat) set \<Rightarrow> nat \<Rightarrow> bool" where
  run_init: "slob_empty s \<Longrightarrow> slob_run s {} 0"
| run_alloc: "slob_run s A n \<Longrightarrow> alloc_call s sz align got \<Longrightarrow>
    slob_alloc sz z align got s = Some (b, s') \<Longrightarrow>
    slob_run s' (if b = 0 then A else insert (b, sz) A) n"
| run_free: "slob_run s A n \<Longrightarrow> (b, sz) \<in> A \<Longrightarrow> slob_free b sz s = Some s' \<Longrightarrow>
    slob_run s' (A - {(b, sz)}) n"
| run_use: "slob_run s A n \<Longrightarrow>
    (\<And>u. u \<in> (\<Union>p \<in> {p. page_slab s p}. page_units p) - (\<Union>(b, sz) \<in> A. {b ..< b + SLOB_UNITS sz}) \<Longrightarrow> m u = smem s u) \<Longrightarrow>
    slob_run (s\<lparr>smem := m\<rparr>) A n"
| run_record: "slob_run s A n \<Longrightarrow> slob_run (s\<lparr>caches := cs, rcu_callbacks := rs, slob_ready := r\<rparr>) A n"
| run_kmalloc: "slob_run s A n \<Longrightarrow> PAGE_SIZE - kmalloc_align \<le> unat sz \<Longrightarrow> page_call s got \<Longrightarrow>
    kmalloc_node sz z got s = Some (b, s') \<Longrightarrow> slob_run s' A (if b = 0 then n else Suc n)"
| run_kfree: "slob_run s A n \<Longrightarrow> \<not> page_slab s (slob_page b) \<Longrightarrow> kfree b s = Some s' \<Longrightarrow> slob_run s' A n"
| run_cache_alloc: "slob_run s A n \<Longrightarrow> PAGE_SIZE \<le> unat (kc_size c) \<Longrightarrow> kc_ctor c = None \<Longrightarrow> page_call s got \<Longrightarrow>
    kmem_cache_alloc_node run_ctor c z got s = Some (b, s') \<Longrightarrow> slob_run s' A (if b = 0 then n else Suc n)"
| run_cache_free: "slob_run s A n \<Longrightarrow> PAGE_SIZE \<le> unat sz \<Longrightarrow> \<not> page_slab s (slob_page b) \<Longrightarrow>
    kmem_cache_free_block b sz s = Some s' \<Longrightarrow> slob_run s' A n"

definition slob_reach :: "slob \<Rightarrow> (nat \<times> nat) set \<Rightarrow> bool" where
  "slob_reach s A \<longleftrightarrow> (\<exists>n. slob_run s A n)"

lemma reach_init: "slob_empty s \<Longrightarrow> slob_reach s {}"
  unfolding slob_reach_def using run_init by blast

lemma reach_alloc: "slob_reach s A \<Longrightarrow> alloc_call s sz align got \<Longrightarrow> slob_alloc sz z align got s = Some (b, s') \<Longrightarrow>
    slob_reach s' (if b = 0 then A else insert (b, sz) A)"
  unfolding slob_reach_def using run_alloc by blast

lemma reach_free: "slob_reach s A \<Longrightarrow> (b, sz) \<in> A \<Longrightarrow> slob_free b sz s = Some s' \<Longrightarrow> slob_reach s' (A - {(b, sz)})"
  unfolding slob_reach_def using run_free by blast

lemma reach_use:
  assumes "slob_reach s A" "\<And>u. u \<notin> (\<Union>(b, sz) \<in> A. {b ..< b + SLOB_UNITS sz}) \<Longrightarrow> m u = smem s u"
  shows "slob_reach (s\<lparr>smem := m\<rparr>) A"
proof -
  obtain n where "slob_run s A n" using assms(1) by (auto simp: slob_reach_def)
  then have "slob_run (s\<lparr>smem := m\<rparr>) A n" by (rule run_use) (use assms(2) in blast)
  then show ?thesis by (auto simp: slob_reach_def)
qed

section \<open>The partition\<close>

definition region :: "nat \<times> nat \<Rightarrow> nat set" where
  "region x = {fst x ..< fst x + SLOB_UNITS (snd x)}"

definition slab_units :: "slob \<Rightarrow> nat set" where
  "slab_units s = (\<Union>p \<in> {p. page_slab s p}. page_units p)"

definition slob_owned :: "nat \<Rightarrow> slob \<Rightarrow> (nat \<Rightarrow> blocks) \<Rightarrow> (nat \<times> nat) set \<Rightarrow> bool" where
  "slob_owned extra s bl A \<longleftrightarrow> slob_inv s bl \<and>
     (\<forall>x \<in> A. 0 < snd x \<and> page_slab s (slob_page (fst x)) \<and> region x \<subseteq> page_units (slob_page (fst x))) \<and>
     (\<forall>p. page_slab s p \<longrightarrow> (\<exists>x \<in> A. slob_page (fst x) = p)) \<and>
     (\<forall>x \<in> A. \<forall>y \<in> A. x \<noteq> y \<longrightarrow> region x \<inter> region y = {}) \<and>
     (\<Union>x \<in> A. region x) \<inter> free_units bl = {} \<and>
     (\<Union>x \<in> A. region x) \<union> free_units bl = slab_units s \<and>
     finite {p. page_slab s p} \<and> pages_alloc s = word_of_nat (card {p. page_slab s p} + extra)"

lemma region_nonempty: "0 < snd x \<Longrightarrow> fst x \<in> region x"
  using SLOB_UNITS_bounds(1) by (simp add: region_def)

lemma slob_owned_allocated:
  assumes own: "slob_owned extra s bl A" and x: "(b, sz) \<in> A"
  shows "allocated s bl b (SLOB_UNITS sz)" "0 < sz"
proof -
  have "\<forall>x \<in> A. 0 < snd x \<and> page_slab s (slob_page (fst x)) \<and> region x \<subseteq> page_units (slob_page (fst x))"
    using own by (simp add: slob_owned_def)
  from bspec [OF this x] have b: "0 < sz" "page_slab s (slob_page b)" "region (b, sz) \<subseteq> page_units (slob_page b)"
    by simp_all
  have "(\<Union>x \<in> A. region x) \<inter> free_units bl = {}" using own by (simp add: slob_owned_def)
  then have "free_units bl \<inter> region (b, sz) = {}" using x by blast
  then show "allocated s bl b (SLOB_UNITS sz)" "0 < sz"
    using b SLOB_UNITS_bounds(1) [OF b(1)] by (simp_all add: allocated_def region_def)
qed

lemma region_in_page:
  assumes "{b ..< b + u} \<subseteq> page_units p" "0 < u"
  shows "slob_page b = p"
proof -
  have "b \<in> page_units p" using assms by auto
  then show ?thesis unfolding slob_page_def
    by (intro div_nat_eqI) (auto simp: page_units_def PAGE_UNITS_eq)
qed

lemma slob_empty_owned: "slob_empty s \<Longrightarrow> slob_owned 0 s (\<lambda>_. []) {}"
  by (simp add: slob_empty_def slob_owned_def slob_inv_def free_units_def slab_units_def)

lemma slob_owned_insert:
  assumes own: "slob_owned extra s bl A" and inv: "slob_inv s' bl'" and b: "0 < sz" "page_slab s' (slob_page b)"
    "region (b, sz) \<subseteq> page_units (slob_page b)"
    and avail: "region (b, sz) \<subseteq> avail" "free_units bl' = avail - region (b, sz)"
    and avail_eq: "avail \<inter> (\<Union>x \<in> A. region x) = {}" "avail \<union> (\<Union>x \<in> A. region x) = slab_units s'"
    and mono: "\<And>p. page_slab s' p \<longleftrightarrow> page_slab s p \<or> p = slob_page b"
    and count: "finite {p. page_slab s' p}" "pages_alloc s' = word_of_nat (card {p. page_slab s' p} + extra)"
  shows "slob_owned extra s' bl' (insert (b, sz) A)"
proof -
  have A: "\<forall>x \<in> A. 0 < snd x \<and> page_slab s (slob_page (fst x)) \<and> region x \<subseteq> page_units (slob_page (fst x))"
    and disj: "\<forall>x \<in> A. \<forall>y \<in> A. x \<noteq> y \<longrightarrow> region x \<inter> region y = {}"
    and used: "\<forall>p. page_slab s p \<longrightarrow> (\<exists>x \<in> A. slob_page (fst x) = p)"
    using own by (simp_all add: slob_owned_def)
  have "\<forall>x \<in> A. region (b, sz) \<inter> region x = {}" using avail(1) avail_eq(1) by blast
  then have "\<forall>x \<in> insert (b, sz) A. \<forall>y \<in> insert (b, sz) A. x \<noteq> y \<longrightarrow> region x \<inter> region y = {}"
    using disj by (auto simp: Int_commute)
  moreover have "(\<Union>x \<in> insert (b, sz) A. region x) \<inter> free_units bl' = {}"
    using avail avail_eq(1) by auto
  moreover have "(\<Union>x \<in> insert (b, sz) A. region x) \<union> free_units bl' = slab_units s'"
    using avail avail_eq(2) by auto
  moreover have "\<forall>x \<in> insert (b, sz) A. 0 < snd x \<and> page_slab s' (slob_page (fst x)) \<and> region x \<subseteq> page_units (slob_page (fst x))"
    using A b mono by auto
  moreover have "\<forall>p. page_slab s' p \<longrightarrow> (\<exists>x \<in> insert (b, sz) A. slob_page (fst x) = p)"
    using used mono by auto
  ultimately show ?thesis using inv count by (simp only: slob_owned_def)
qed

lemma slob_owned_parts:
  assumes "slob_owned extra s bl A"
  shows "slob_inv s bl" "(\<Union>x \<in> A. region x) \<inter> free_units bl = {}"
    "(\<Union>x \<in> A. region x) \<union> free_units bl = slab_units s"
    "finite {p. page_slab s p}" "pages_alloc s = word_of_nat (card {p. page_slab s p} + extra)"
  using assms unfolding slob_owned_def by blast+

lemma alloc_post_region:
  "alloc_post (SLOB_UNITS sz) align avail s b s' bl' \<Longrightarrow>
     b \<noteq> 0 \<and> region (b, sz) \<subseteq> avail \<and> free_units bl' = avail - region (b, sz)"
  by (simp add: alloc_post_def region_def)

lemma slab_units_cong: "page_slab s' = page_slab s \<Longrightarrow> slab_units s' = slab_units s"
  by (simp add: slab_units_def)

text \<open>The object is new and aligned.\<close>

definition new_object :: "(nat \<times> nat) set \<Rightarrow> nat \<Rightarrow> nat \<Rightarrow> nat \<Rightarrow> bool" where
  "new_object A align b sz \<longleftrightarrow> b \<noteq> 0 \<and> (b, sz) \<notin> A \<and> (align \<noteq> 0 \<longrightarrow> align dvd SLOB_UNIT * b)"

lemma alloc_post_new:
  assumes "alloc_post (SLOB_UNITS sz) align avail s b s' bl'" "0 < sz" "avail \<inter> (\<Union>x \<in> A. region x) = {}"
  shows "new_object A align b sz"
proof -
  have "b \<in> avail" using alloc_post_region [OF assms(1)] region_nonempty [of "(b, sz)"] assms(2) by auto
  then have "(b, sz) \<notin> A" using assms(3) region_nonempty [of "(b, sz)"] assms(2) by auto
  then show ?thesis using assms(1) by (simp add: new_object_def alloc_post_def)
qed

lemma slob_owned_reuse:
  assumes own: "slob_owned extra s bl A" and sz: "0 < sz" and al: "good_align align"
    and room: "has_room bl s (SLOB_UNITS sz) align"
  shows "\<exists>b s' bl'. slob_alloc sz z align got s = Some (b, s') \<and> new_object A align b sz \<and>
     slob_owned extra s' bl' (insert (b, sz) A)"
proof -
  let ?U = "SLOB_UNITS sz"
  note parts = slob_owned_parts [OF own]
  note inv = parts(1)
  from slob_alloc_reuse [OF inv sz al room] obtain p us a n vs b s' bl' where
    r: "bl p = us @ (a, n) # vs" "p \<in> set (free_slob_small s)" "?U + slob_delta a align \<le> n" "b = a + slob_delta a align"
      "slob_alloc sz z align got s = Some (b, s')" "slob_inv s' bl'"
      "alloc_post ?U align (free_units bl) s b s' bl'" "pages_alloc s' = pages_alloc s" "page_slab s' = page_slab s"
    by blast
  note post = alloc_post_region [OF r(7)]
  have "region (b, sz) \<subseteq> {a ..< a + n}" using r(3,4) by (simp add: region_def)
  also have "\<dots> \<subseteq> units_of (bl p)" using r(1) by auto
  finally have inp: "region (b, sz) \<subseteq> page_units p" using units_in_page [OF inv, of p] by blast
  then have pg: "slob_page b = p"
    using region_in_page [of b ?U p] SLOB_UNITS_bounds(1) [OF sz] by (simp add: region_def)
  have slab: "page_slab s p" using slob_inv_listed_slab [OF inv r(2)] .
  have free: "free_units bl \<inter> (\<Union>x \<in> A. region x) = {}" using parts(2) by (simp only: Int_commute)
  have "slob_owned extra s' bl' (insert (b, sz) A)"
  proof (rule slob_owned_insert [OF own r(6) sz])
    show "region (b, sz) \<subseteq> free_units bl" "free_units bl' = free_units bl - region (b, sz)" using post by simp_all
    show "free_units bl \<union> (\<Union>x \<in> A. region x) = slab_units s'"
      using parts(3) slab_units_cong [OF r(9)] by (simp add: Un_commute)
    show "free_units bl \<inter> (\<Union>x \<in> A. region x) = {}" by (rule free)
    show "page_slab s' (slob_page b)" "region (b, sz) \<subseteq> page_units (slob_page b)"
      using slab inp by (simp_all add: pg r(9))
    show "finite {p. page_slab s' p}" "pages_alloc s' = word_of_nat (card {p. page_slab s' p} + extra)"
      using parts(4,5) by (simp_all add: r(8,9))
    show "page_slab s' q \<longleftrightarrow> page_slab s q \<or> q = slob_page b" for q using slab by (auto simp: r(9) pg)
  qed
  with r(5) alloc_post_new [OF r(7) sz free] show ?thesis by blast
qed

lemma slob_owned_fresh:
  assumes own: "slob_owned extra s bl A" and sz: "0 < sz" "sz \<le> PAGE_SIZE" and al: "good_align align"
    and room: "\<not> has_room bl s (SLOB_UNITS sz) align" and p: "usable_page p" "\<not> page_slab s p"
  shows "\<exists>b s' bl'. slob_alloc sz z align (Some p) s = Some (b, s') \<and> new_object A align b sz \<and>
     slob_owned extra s' bl' (insert (b, sz) A)"
proof -
  let ?U = "SLOB_UNITS sz" and ?b = "page_base p"
  note parts = slob_owned_parts [OF own]
  from slob_alloc_fresh(2) [OF parts(1) sz al room p, of z] obtain s' bl' where
    r: "slob_alloc sz z align (Some p) s = Some (?b, s')" "slob_inv s' bl'"
      "alloc_post ?U align (free_units bl \<union> page_units p) s ?b s' bl'"
      "pages_alloc s' = pages_alloc s + 1" "page_slab s' = (page_slab s)(p := True)"
    by (elim exE conjE) (rule that)
  note post = alloc_post_region [OF r(3)]
  have inp: "region (?b, sz) \<subseteq> page_units p"
    using SLOB_UNITS_bounds(2) [OF sz(2)] unfolding region_def page_units_def fst_conv snd_conv
    by (simp only: ivl_subset) simp
  then have pg: "slob_page ?b = p"
    using region_in_page [of ?b ?U p] SLOB_UNITS_bounds(1) [OF sz(1)] unfolding region_def by simp
  have pages: "{q. page_slab s' q} = insert p {q. page_slab s q}" using r(5) by auto
  have units: "slab_units s' = page_units p \<union> slab_units s" by (simp add: slab_units_def pages)
  have "page_units p \<inter> slab_units s = {}"
  proof (rule equals0I)
    fix u assume u: "u \<in> page_units p \<inter> slab_units s"
    then obtain q where q: "page_slab s q" "u \<in> page_units q" by (auto simp: slab_units_def)
    then have "q \<noteq> p" using p(2) by blast
    from page_units_disjoint [OF this] show False using u q(2) by blast
  qed
  then have apart: "page_units p \<inter> (\<Union>x \<in> A. region x) = {}" using parts(3) by blast
  have free: "(free_units bl \<union> page_units p) \<inter> (\<Union>x \<in> A. region x) = {}" using parts(2) apart by blast
  have "slob_owned extra s' bl' (insert (?b, sz) A)"
  proof (rule slob_owned_insert [OF own r(2) sz(1)])
    show "region (?b, sz) \<subseteq> free_units bl \<union> page_units p"
      "free_units bl' = (free_units bl \<union> page_units p) - region (?b, sz)" using post by blast+
    show "(free_units bl \<union> page_units p) \<inter> (\<Union>x \<in> A. region x) = {}" by (rule free)
    show "(free_units bl \<union> page_units p) \<union> (\<Union>x \<in> A. region x) = slab_units s'"
      unfolding units parts(3) [symmetric] by blast
    show "finite {p. page_slab s' p}" unfolding pages using parts(4) by simp
    show "pages_alloc s' = word_of_nat (card {p. page_slab s' p} + extra)"
      unfolding pages using parts(4,5) p(2) r(4) by (simp add: add.commute)
    show "page_slab s' (slob_page ?b)" "region (?b, sz) \<subseteq> page_units (slob_page ?b)"
      unfolding pg r(5) using inp by simp_all
    show "page_slab s' q \<longleftrightarrow> page_slab s q \<or> q = slob_page ?b" for q unfolding pg r(5) by auto
  qed
  with r(1) alloc_post_new [OF r(3) sz(1) free] show ?thesis by blast
qed

lemma slob_owned_alloc:
  assumes own: "slob_owned extra s bl A" and call: "alloc_call s sz align got"
  shows "\<exists>b s' bl'. slob_alloc sz z align got s = Some (b, s') \<and>
     slob_owned extra s' bl' (if b = 0 then A else insert (b, sz) A) \<and>
     (b = 0 \<longrightarrow> got = None \<and> s' = s) \<and> (b \<noteq> 0 \<longrightarrow> new_object A align b sz)"
proof -
  have sz: "0 < sz" "sz \<le> PAGE_SIZE" and al: "good_align align"
    and got: "\<And>p. got = Some p \<Longrightarrow> usable_page p \<and> \<not> page_slab s p"
    using call by (simp_all add: alloc_call_def)
  show ?thesis
  proof (cases "has_room bl s (SLOB_UNITS sz) align")
    case True
    from slob_owned_reuse [OF own sz(1) al True, of z got] obtain b s' bl' where
      "slob_alloc sz z align got s = Some (b, s')" "new_object A align b sz" "slob_owned extra s' bl' (insert (b, sz) A)"
      by (elim exE conjE) (rule that)
    then show ?thesis by (intro exI [of _ b] exI [of _ s'] exI [of _ bl']) (simp add: new_object_def)
  next
    case False
    show ?thesis
    proof (cases got)
      case None
      then show ?thesis using slob_alloc_fresh(1) [OF slob_owned_parts(1) [OF own] sz al False, of z] own
        by (intro exI [of _ 0] exI [of _ s] exI [of _ bl]) simp
    next
      case (Some p)
      have "usable_page p" "\<not> page_slab s p" using got [OF Some] by simp_all
      from slob_owned_fresh [OF own sz al False this, of z] obtain b s' bl' where
        "slob_alloc sz z align (Some p) s = Some (b, s')" "new_object A align b sz" "slob_owned extra s' bl' (insert (b, sz) A)"
        by (elim exE conjE) (rule that)
      then show ?thesis unfolding Some by (intro exI [of _ b] exI [of _ s'] exI [of _ bl']) (simp add: new_object_def)
    qed
  qed
qed

lemma slob_owned_delete:
  assumes own: "slob_owned extra s bl A" and inv: "slob_inv s' bl'"
    and slab: "\<And>y. y \<in> A - {x} \<Longrightarrow> page_slab s' (slob_page (fst y))"
    and used: "\<And>p. page_slab s' p \<Longrightarrow> \<exists>y \<in> A - {x}. slob_page (fst y) = p"
    and free: "(\<Union>y \<in> A - {x}. region y) \<inter> free_units bl' = {}"
      "(\<Union>y \<in> A - {x}. region y) \<union> free_units bl' = slab_units s'"
    and count: "finite {p. page_slab s' p}" "pages_alloc s' = word_of_nat (card {p. page_slab s' p} + extra)"
  shows "slob_owned extra s' bl' (A - {x})"
proof -
  have A: "\<forall>x \<in> A. 0 < snd x \<and> page_slab s (slob_page (fst x)) \<and> region x \<subseteq> page_units (slob_page (fst x))"
    and disj: "\<forall>x \<in> A. \<forall>y \<in> A. x \<noteq> y \<longrightarrow> region x \<inter> region y = {}"
    using own by (simp_all add: slob_owned_def)
  have "\<forall>y \<in> A - {x}. 0 < snd y \<and> page_slab s' (slob_page (fst y)) \<and> region y \<subseteq> page_units (slob_page (fst y))"
    using A slab by simp
  moreover have "\<forall>y \<in> A - {x}. \<forall>z \<in> A - {x}. y \<noteq> z \<longrightarrow> region y \<inter> region z = {}" using disj by simp
  moreover have "\<forall>p. page_slab s' p \<longrightarrow> (\<exists>y \<in> A - {x}. slob_page (fst y) = p)" using used by blast
  ultimately show ?thesis using inv free count by (simp only: slob_owned_def)
qed

lemma free_units_drop:
  assumes "slob_inv s bl"
  shows "free_units (bl(p := [])) = free_units bl - page_units p"
proof -
  have "units_of (bl p') \<inter> page_units p = {}" if "p' \<noteq> p" for p'
    using units_in_page [OF assms, of p'] page_units_disjoint [OF that] by blast
  then have "(\<Union>p' \<in> - {p}. units_of (bl p')) \<inter> page_units p = {}" by blast
  moreover have "free_units bl = (\<Union>p' \<in> - {p}. units_of (bl p')) \<union> units_of (bl p)" by (auto simp: free_units_def)
  ultimately show ?thesis
    unfolding free_units_upd using units_in_page [OF assms, of p] by auto
qed

lemma slab_units_drop:
  "page_slab s' = (page_slab s)(p := False) \<Longrightarrow> slab_units s' = slab_units s - page_units p"
proof -
  assume s': "page_slab s' = (page_slab s)(p := False)"
  have "page_units q \<inter> page_units p = {}" if "q \<noteq> p" for q using page_units_disjoint [OF that] .
  moreover have "{q. page_slab s' q} = {q. page_slab s q} - {p}" using s' by auto
  ultimately show ?thesis unfolding slab_units_def by auto
qed

lemma slob_owned_rest:
  assumes own: "slob_owned extra s bl A" and x: "x \<in> A"
  shows "region x \<inter> (\<Union>y \<in> A - {x}. region y) = {}"
    "region x \<union> (\<Union>y \<in> A - {x}. region y) = (\<Union>y \<in> A. region y)"
proof -
  have "\<forall>x \<in> A. \<forall>y \<in> A. x \<noteq> y \<longrightarrow> region x \<inter> region y = {}"
    using own by (simp add: slob_owned_def)
  then have "\<forall>y \<in> A - {x}. region x \<inter> region y = {}" using x by blast
  then show "region x \<inter> (\<Union>y \<in> A - {x}. region y) = {}" by blast
  show "region x \<union> (\<Union>y \<in> A - {x}. region y) = (\<Union>y \<in> A. region y)" using x by blast
qed

lemma slob_owned_used:
  assumes "slob_owned extra s bl A" "page_slab s q" "q \<noteq> slob_page (fst x)"
  shows "\<exists>y \<in> A - {x}. slob_page (fst y) = q"
proof -
  have "\<forall>p. page_slab s p \<longrightarrow> (\<exists>x \<in> A. slob_page (fst x) = p)" using assms(1) by (simp add: slob_owned_def)
  then obtain y where "y \<in> A" "slob_page (fst y) = q" using assms(2) by blast
  then show ?thesis using assms(3) by blast
qed

lemma slob_owned_release:
  assumes own: "slob_owned extra s bl A" and x: "(b, sz) \<in> A" and p: "p = slob_page b"
    and all: "page_units p \<subseteq> free_units bl \<union> region (b, sz)"
    and inv: "slob_inv s' (bl(p := []))" and slab: "page_slab s' = (page_slab s)(p := False)"
    and count: "pages_alloc s' = pages_alloc s - 1"
  shows "slob_owned extra s' (bl(p := [])) (A - {(b, sz)})"
proof -
  note parts = slob_owned_parts [OF own] and rest = slob_owned_rest [OF own x]
  have xp: "page_slab s p" "region (b, sz) \<subseteq> page_units p"
    using slob_owned_allocated(1) [OF own x] by (simp_all add: allocated_def region_def p)
  define R where "R = (\<Union>y \<in> A - {(b, sz)}. region y)"
  have free: "free_units (bl(p := [])) = free_units bl - page_units p" by (rule free_units_drop [OF parts(1)])
  have apart: "R \<inter> page_units p = {}" using all rest parts(2) unfolding R_def by blast
  have pages: "{q. page_slab s' q} = {q. page_slab s q} - {p}" unfolding slab by auto
  show ?thesis
  proof (rule slob_owned_delete [OF own inv, of "(b, sz)", folded R_def])
    show "R \<inter> free_units (bl(p := [])) = {}" unfolding free R_def using parts(2) by blast
    have "R \<union> free_units bl \<union> region (b, sz) = slab_units s"
      using parts(3) rest(2) unfolding R_def by blast
    then show "R \<union> free_units (bl(p := [])) = slab_units s'"
      unfolding free slab_units_drop [OF slab] using apart xp(2) by blast
    show "finite {q. page_slab s' q}" unfolding pages using parts(4) by simp
    have "0 < card {q. page_slab s q}" using parts(4) xp(1) card_gt_0_iff by blast
    then show "pages_alloc s' = word_of_nat (card {q. page_slab s' q} + extra)"
      unfolding pages count parts(5) using xp(1) parts(4) by (simp add: card_Diff_singleton of_nat_diff)
  next
    fix y assume y: "y \<in> A - {(b, sz)}"
    have yA: "0 < snd y" "page_slab s (slob_page (fst y))" "region y \<subseteq> page_units (slob_page (fst y))"
      using own y by (simp_all add: slob_owned_def)
    have "fst y \<in> R" using region_nonempty [OF yA(1)] y unfolding R_def by blast
    moreover have "fst y \<in> page_units (slob_page (fst y))" using region_nonempty [OF yA(1)] yA(3) by blast
    ultimately have "slob_page (fst y) \<noteq> p" using apart by blast
    then show "page_slab s' (slob_page (fst y))" unfolding slab using yA(2) by simp
  next
    fix q assume "page_slab s' q"
    then have "page_slab s q" "q \<noteq> slob_page (fst (b, sz))" unfolding slab p by (auto split: if_splits)
    then show "\<exists>y \<in> A - {(b, sz)}. slob_page (fst y) = q" by (rule slob_owned_used [OF own])
  qed
qed

text \<open>A page that does not become free as a whole has another object.\<close>

lemma slob_owned_partial:
  assumes own: "slob_owned extra s bl A" and x: "(b, sz) \<in> A"
    and part: "\<not> page_units (slob_page b) \<subseteq> free_units bl \<union> region (b, sz)" and q: "page_slab s q"
  shows "\<exists>y \<in> A - {(b, sz)}. slob_page (fst y) = q"
proof (cases "q = slob_page b")
  case True
  from part obtain u where u: "u \<in> page_units q" "u \<notin> free_units bl" "u \<notin> region (b, sz)"
    unfolding True by blast
  then have "u \<in> slab_units s" using q unfolding slab_units_def by blast
  then have "u \<in> (\<Union>x \<in> A. region x)" using u(2) slob_owned_parts(3) [OF own] by blast
  then obtain y where y: "y \<in> A" "u \<in> region y" by blast
  have "\<forall>x \<in> A. 0 < snd x \<and> page_slab s (slob_page (fst x)) \<and> region x \<subseteq> page_units (slob_page (fst x))"
    using own by (simp add: slob_owned_def)
  then have "u \<in> page_units (slob_page (fst y))" using y by blast
  then have "slob_page (fst y) = q" using page_units_disjoint [of "slob_page (fst y)" q] u(1) by blast
  then show ?thesis using y u(3) by blast
next
  case False
  then show ?thesis using slob_owned_used [OF own q, of "(b, sz)"] by simp
qed

lemma slob_owned_free:
  assumes own: "slob_owned extra s bl A" and x: "(b, sz) \<in> A"
  shows "\<exists>s' bl'. slob_free b sz s = Some s' \<and> slob_owned extra s' bl' (A - {(b, sz)})"
proof -
  note parts = slob_owned_parts [OF own] and rest = slob_owned_rest [OF own x]
  note spec = slob_free_spec [OF parts(1) slob_owned_allocated [OF own x]]
  have reg: "{b ..< b + SLOB_UNITS sz} = region (b, sz)" by (simp add: region_def)
  show ?thesis
  proof (cases "page_units (slob_page b) \<subseteq> free_units bl \<union> region (b, sz)")
    case True
    from spec [unfolded reg if_P [OF True]] obtain s' where
      r: "slob_free b sz s = Some s'" "slob_inv s' (bl(slob_page b := []))"
        "page_slab s' = (page_slab s)(slob_page b := False)" "pages_alloc s' = pages_alloc s - 1"
      by (elim exE conjE) (rule that)
    from r(1) slob_owned_release [OF own x refl True r(2-4)] show ?thesis by (intro exI conjI)
  next
    case False
    from spec [unfolded reg if_not_P [OF False]] obtain s' bl' where
      r: "slob_free b sz s = Some s'" "slob_inv s' bl'" "free_units bl' = free_units bl \<union> region (b, sz)"
        "page_slab s' = page_slab s" "pages_alloc s' = pages_alloc s"
      by (elim exE conjE) (rule that)
    have "slob_owned extra s' bl' (A - {(b, sz)})"
    proof (rule slob_owned_delete [OF own r(2)])
      show "page_slab s' (slob_page (fst y))" if "y \<in> A - {(b, sz)}" for y
        using own that by (simp add: slob_owned_def r(4))
      show "\<exists>y \<in> A - {(b, sz)}. slob_page (fst y) = q" if "page_slab s' q" for q
        using slob_owned_partial [OF own x False] that unfolding r(4) .
      show "(\<Union>y \<in> A - {(b, sz)}. region y) \<inter> free_units bl' = {}"
        unfolding r(3) using rest parts(2) by blast
      show "(\<Union>y \<in> A - {(b, sz)}. region y) \<union> free_units bl' = slab_units s'"
        unfolding r(3) slab_units_cong [OF r(4)] parts(3) [symmetric] rest(2) [symmetric] by blast
    qed (simp_all add: r(4,5) parts(4,5))
    with r(1) show ?thesis by (intro exI conjI)
  qed
qed

lemma slob_owned_use:
  assumes own: "slob_owned extra s bl A" and m: "\<And>u. u \<in> slab_units s - (\<Union>x \<in> A. region x) \<Longrightarrow> m u = smem s u"
  shows "slob_owned extra (s\<lparr>smem := m\<rparr>) bl A"
proof -
  note parts = slob_owned_parts [OF own]
  have "slob_inv (s\<lparr>smem := m\<rparr>) bl"
    by (rule slob_inv_mem [OF parts(1)]) (use m parts(2,3) in blast)
  moreover have "slab_units (s\<lparr>smem := m\<rparr>) = slab_units s" by (rule slab_units_cong) simp
  ultimately show ?thesis using own unfolding slob_owned_def by simp
qed

text \<open>Fields that the small allocator does not look at.\<close>

lemma slob_owned_record:
  assumes "slob_owned extra s bl A"
  shows "slob_owned extra (s\<lparr>caches := cs, rcu_callbacks := rs, slob_ready := r\<rparr>) bl A"
    "slob_owned extra (s\<lparr>released := rel\<rparr>) bl A" "slob_owned extra (s\<lparr>reclaimed_slab := rec\<rparr>) bl A"
    "slob_owned extra (s\<lparr>page_private := pp\<rparr>) bl A"
  using assms by (simp_all add: slob_owned_def slob_inv_def page_ok_def slab_units_def)

text \<open>A large allocation is counted as one page that the small allocator does not have.\<close>

lemma slob_owned_new_pages:
  assumes own: "slob_owned extra s bl A" and got: "page_call s got" and run: "slob_new_pages got s = (b, s')"
  shows "slob_owned (if b = 0 then extra else Suc extra) s' bl A"
proof (cases got)
  case None
  then show ?thesis using own run by (simp add: slob_new_pages_def)
next
  case (Some p)
  then have "b \<noteq> 0" "s' = s\<lparr>pages_alloc := pages_alloc s + 1\<rparr>"
    using got run by (auto simp: page_call_def slob_new_pages_def usable_page_def PAGE_UNITS_eq)
  then show ?thesis using own
    by (simp add: slob_owned_def slob_inv_def page_ok_def slab_units_def)
qed

lemma slob_run_owned: "slob_run s A n \<Longrightarrow> \<exists>bl. slob_owned n s bl A"
proof (induction rule: slob_run.induct)
  case (run_init s)
  then show ?case using slob_empty_owned by blast
next
  case (run_alloc s A n sz align got z b s')
  then obtain bl where "slob_owned n s bl A" by blast
  from slob_owned_alloc [OF this run_alloc.hyps(2), of z] obtain b' s'' bl' where
    "slob_alloc sz z align got s = Some (b', s'')" "slob_owned n s'' bl' (if b' = 0 then A else insert (b', sz) A)"
    by (elim exE conjE) (rule that)
  then show ?case using run_alloc.hyps(3) by (intro exI [of _ bl']) (cases "b' = 0"; simp)
next
  case (run_free s A n b sz s')
  then obtain bl where "slob_owned n s bl A" by blast
  from slob_owned_free [OF this run_free.hyps(2)] show ?case
    unfolding run_free.hyps(3) by (elim exE conjE) (simp only: option.inject, blast)
next
  case (run_use s A n m)
  then obtain bl where bl: "slob_owned n s bl A" by blast
  have "slob_owned n (s\<lparr>smem := m\<rparr>) bl A"
    by (rule slob_owned_use [OF bl]) (use run_use.hyps(2) in \<open>auto simp: region_def split_def slab_units_def\<close>)
  then show ?case by blast
next
  case (run_record s A n cs rs r)
  then show ?case using slob_owned_record(1) by blast
next
  case (run_kmalloc s A n sz got z b s')
  then obtain bl where bl: "slob_owned n s bl A" by blast
  obtain b1 s1 where new: "slob_new_pages got s = (b1, s1)" by fastforce
  have "b = b1 \<and> (s' = s1 \<or> (\<exists>pp. s' = s1\<lparr>page_private := pp\<rparr>))"
    using run_kmalloc.hyps(2,4) new by (auto simp: kmalloc_node_def Let_def split: if_splits)
  then show ?case using slob_owned_new_pages [OF bl run_kmalloc.hyps(3) new] slob_owned_record(4) by blast
next
  case (run_kfree s A n b s')
  then obtain bl where bl: "slob_owned n s bl A" by blast
  have "s' = s \<or> (\<exists>rel. s' = s\<lparr>released := rel\<rparr>)"
    using run_kfree.hyps(2,3) by (auto simp: kfree_def Let_def split: if_splits)
  then show ?case using bl slob_owned_record(2) by blast
next
  case (run_cache_alloc s A n c got run_ctor z b s')
  then obtain bl where bl: "slob_owned n s bl A" by blast
  have "slob_new_pages got s = (b, s')"
    using run_cache_alloc.hyps(2,3,5) by (auto simp: kmem_cache_alloc_node_def)
  then show ?case using slob_owned_new_pages [OF bl run_cache_alloc.hyps(4)] by blast
next
  case (run_cache_free s A n sz b s')
  then obtain bl where bl: "slob_owned n s bl A" by blast
  have "\<exists>rec rel. s' = s\<lparr>reclaimed_slab := rec, released := rel\<rparr>"
    using run_cache_free.hyps(2,4) by (auto simp: kmem_cache_free_block_def slob_free_pages_def)
  then show ?case using slob_owned_record(2) [OF slob_owned_record(3) [OF bl]] by blast
qed

lemma slob_reach_owned: "slob_reach s A \<Longrightarrow> \<exists>extra bl. slob_owned extra s bl A"
  unfolding slob_reach_def using slob_run_owned by blast

end
