(* ===== verification/Slob_Props.thy ===== *)
theory Slob_Props
  imports Slob_Reach Slob_Api
begin

text \<open>
  Properties of the SLOB allocator of \<^verbatim>\<open>mm/slob.c\<close>: memory safety over any sequence of allocations
  and frees, the best-fit choice and where it fails, round trips of the block encoding, of
  allocation and free and of \<^verbatim>\<open>kmalloc\<close> and \<^verbatim>\<open>kfree\<close>, and the two system calls.
\<close>

section \<open>Sample states\<close>

definition slob0 :: slob where
  "slob0 = \<lparr>smem = (\<lambda>_. 0), sp_units = (\<lambda>_. 0), sp_free = (\<lambda>_. 0), page_slab = (\<lambda>_. False),
     page_slob_free = (\<lambda>_. False), page_private = (\<lambda>_. 0), free_slob_small = [], free_slob_medium = [],
     free_slob_large = [], pages_alloc = 0, reclaimed_slab = None, released = [], caches = Map.empty,
     rcu_callbacks = [], slob_ready = True\<rparr>"

lemma slob0_empty: "slob_empty slob0"
  by (simp add: slob_empty_def slob0_def)

lemma slob0_inv: "slob_inv slob0 (\<lambda>_. [])"
  by (simp add: slob_inv_def slob0_def)

lemma small_page: "0 < p \<Longrightarrow> p < 1000 \<Longrightarrow> usable_page p"
  by (simp add: usable_page_def good_addr_def PAGE_UNITS_eq) (simp add: PAGE_SIZE_def)

lemma good_align_samples: "good_align 0" "good_align 4" "good_align 8"
  using power2_eq_square [of "2 :: nat"] unfolding good_align_def
  by (auto intro: exI [of _ 2] exI [of _ 3])

text \<open>One object of ten bytes on page 5.\<close>

lemma sample_one: "\<exists>s. slob_alloc 10 False 0 (Some 5) slob0 = Some (10240, s) \<and> slob_reach s {(10240, 10)} \<and>
    page_slab s = (\<lambda>p. p = 5)"
proof -
  have call: "alloc_call slob0 10 0 (Some 5)"
    using small_page [of 5] good_align_samples(1) by (simp add: alloc_call_def PAGE_SIZE_def slob0_def)
  have room: "\<not> has_room (\<lambda>_. []) slob0 (SLOB_UNITS 10) 0" by (simp add: has_room_def listed_blocks_def slob0_def)
  have "usable_page 5" "\<not> page_slab slob0 5" "(0 :: nat) < 10" "10 \<le> PAGE_SIZE"
    using small_page [of 5] by (simp_all add: slob0_def PAGE_SIZE_def)
  from slob_alloc_fresh(2) [OF slob0_inv this(3,4) good_align_samples(1) room this(1,2), of False]
  obtain s where s: "slob_alloc 10 False 0 (Some 5) slob0 = Some (page_base 5, s)"
      "page_slab s = (page_slab slob0)(5 := True)"
    by blast
  have base: "page_base 5 = 10240" by (simp add: PAGE_UNITS_eq)
  have "slob_reach s {(10240, 10)}"
    using reach_alloc [OF reach_init [OF slob0_empty] call s(1)] base by simp
  moreover have "page_slab s = (\<lambda>p. p = 5)" using s(2) by (auto simp: slob0_def fun_eq_iff)
  ultimately show ?thesis using s(1) base by auto
qed

text \<open>A second object, of twenty bytes.\<close>

lemma sample_two: "\<exists>s b. slob_reach s {(b, 20), (10240, 10)}"
proof -
  obtain s where s: "slob_reach s {(10240, 10)}" "page_slab s = (\<lambda>p. p = 5)" using sample_one by blast
  obtain extra bl where bl: "slob_owned extra s bl {(10240, 10)}" using slob_reach_owned [OF s(1)] by blast
  have call: "alloc_call s 20 0 (Some 6)"
    using small_page [of 6] good_align_samples(1) s(2) by (simp add: alloc_call_def PAGE_SIZE_def)
  from slob_owned_alloc [OF bl call, of False] obtain b s' where
    "slob_alloc 20 False 0 (Some 6) s = Some (b, s')" "b \<noteq> 0" by blast
  with reach_alloc [OF s(1) call this(1)] show ?thesis by auto
qed

section \<open>Safety\<close>

text \<open>
  C1. Objects that are outstanding at the same time never share a unit, after any sequence of
  allocations, frees and writes into objects by their owners.
\<close>

theorem slob_objects_disjoint:
  assumes "slob_reach s A" "(b, sz) \<in> A" "(b', sz') \<in> A" "(b, sz) \<noteq> (b', sz')"
  shows "{b ..< b + SLOB_UNITS sz} \<inter> {b' ..< b' + SLOB_UNITS sz'} = {}"
proof -
  obtain extra bl where "slob_owned extra s bl A" using slob_reach_owned [OF assms(1)] by blast
  then have "\<forall>x \<in> A. \<forall>y \<in> A. x \<noteq> y \<longrightarrow> region x \<inter> region y = {}" by (simp add: slob_owned_def)
  then have "region (b, sz) \<inter> region (b', sz') = {}" using assms(2-4) by blast
  then show ?thesis by (simp add: region_def)
qed

theorem slob_objects_disjoint_witness:
  "\<exists>s b. slob_reach s {(b, 20), (10240, 10)} \<and>
     {b ..< b + SLOB_UNITS 20} \<inter> {10240 ..< 10240 + SLOB_UNITS 10} = {}"
proof -
  obtain s b where s: "slob_reach s {(b, 20), (10240, 10)}" using sample_two by blast
  have "{b ..< b + SLOB_UNITS 20} \<inter> {10240 ..< 10240 + SLOB_UNITS 10} = {}"
    by (rule slob_objects_disjoint [OF s]) simp_all
  then show ?thesis using s by blast
qed

text \<open>
  C2. After any sequence of allocations and frees, small and large, through \<^verbatim>\<open>kmalloc\<close> or the object
  caches, the outstanding small objects and the units of the free lists together are exactly the
  pages that the small allocator holds, with no unit in both, and each of these pages has an
  outstanding object. The system call that reports the claimed bytes counts these pages exactly,
  but adds one page for every large allocation ever made, however large and whether freed or not.
\<close>

theorem slob_no_leak:
  assumes "slob_run s A n"
  shows "\<exists>bl. slob_inv s bl \<and>
     (\<Union>(b, sz) \<in> A. {b ..< b + SLOB_UNITS sz}) \<union> free_units bl = (\<Union>p \<in> {p. page_slab s p}. page_units p) \<and>
     (\<Union>(b, sz) \<in> A. {b ..< b + SLOB_UNITS sz}) \<inter> free_units bl = {} \<and>
     (\<forall>p. page_slab s p \<longrightarrow> (\<exists>(b, sz) \<in> A. slob_page b = p)) \<and>
     sys_get_slob_amt_claimed s = word_of_nat ((card {p. page_slab s p} + n) * PAGE_SIZE)"
proof -
  obtain bl where own: "slob_owned n s bl A" using slob_run_owned [OF assms] by blast
  have regions: "(\<Union>(b, sz) \<in> A. {b ..< b + SLOB_UNITS sz}) = (\<Union>x \<in> A. region x)"
    by (simp add: region_def split_def)
  have "\<forall>p. page_slab s p \<longrightarrow> (\<exists>x \<in> A. slob_page (fst x) = p)" using own by (simp add: slob_owned_def)
  then have "\<forall>p. page_slab s p \<longrightarrow> (\<exists>(b, sz) \<in> A. slob_page b = p)" by (simp add: split_def)
  moreover have "sys_get_slob_amt_claimed s = word_of_nat ((card {p. page_slab s p} + n) * PAGE_SIZE)"
    using slob_owned_parts(5) [OF own] by (simp add: sys_get_slob_amt_claimed_def)
  ultimately show ?thesis
    using slob_owned_parts(1,2,3) [OF own] unfolding regions slab_units_def by (intro exI [of _ bl] conjI)
qed

text \<open>An object of ten bytes, and a large one of two pages that has been freed again.\<close>

theorem slob_no_leak_witness:
  "\<exists>s. slob_run s {(10240, 10)} 1 \<and> page_slab s = (\<lambda>p. p = 5) \<and> sys_get_slob_amt_claimed s = 8192"
proof -
  have call: "alloc_call slob0 10 0 (Some 5)"
    using small_page [of 5] good_align_samples(1) by (simp add: alloc_call_def PAGE_SIZE_def slob0_def)
  obtain s where s: "slob_alloc 10 False 0 (Some 5) slob0 = Some (10240, s)" "page_slab s = (\<lambda>p. p = 5)"
    using sample_one by blast
  have one: "slob_run s {(10240, 10)} 0"
    using run_alloc [OF run_init [OF slob0_empty] call s(1)] by simp
  let ?s = "s\<lparr>pages_alloc := pages_alloc s + 1, page_private := (page_private s)(6 := 8192)\<rparr>"
  have size: "PAGE_SIZE - kmalloc_align \<le> unat (8192 :: u32)" by (simp add: PAGE_SIZE_def)
  have large: "kmalloc_node 8192 False (Some 6) s = Some (12288, ?s)"
    using size by (simp add: kmalloc_node_def slob_new_pages_def Let_def PAGE_UNITS_eq slob_page_def)
  have two: "slob_run ?s {(10240, 10)} 1"
    using run_kmalloc [OF one size _ large] small_page [of 6] s(2) by (simp add: page_call_def)
  let ?t = "?s\<lparr>released := PutPage 6 # released s\<rparr>"
  have "\<not> page_slab ?s (slob_page 12288)" "kfree 12288 ?s = Some ?t"
    using s(2) by (simp_all add: kfree_def ZERO_OR_NULL_PTR_def ZERO_SIZE_PTR_def SLOB_UNIT_def Let_def slob_page_def PAGE_UNITS_eq)
  from run_kfree [OF two this] have three: "slob_run ?t {(10240, 10)} 1" .
  then have "sys_get_slob_amt_claimed ?t = word_of_nat ((card {p. page_slab ?t p} + 1) * PAGE_SIZE)"
    using slob_no_leak by blast
  moreover have "page_slab ?t = (\<lambda>p. p = 5)" using s(2) by simp
  ultimately show ?thesis using three by (intro exI [of _ ?t]) (simp add: PAGE_SIZE_def)
qed

text \<open>
  C3. In every reachable state an allocation that keeps to the calling conditions returns, with
  NULL only when the page allocator has no page, and every outstanding object can be freed: neither
  operation stops at a bug check or scans a free list forever.
\<close>

theorem slob_ops_return:
  assumes "slob_reach s A"
  shows "(alloc_call s sz align got \<longrightarrow>
       (\<exists>b s'. slob_alloc sz z align got s = Some (b, s') \<and> (b = 0 \<longrightarrow> got = None))) \<and>
     ((c, n) \<in> A \<longrightarrow> (\<exists>s'. slob_free c n s = Some s'))"
proof -
  obtain extra bl where own: "slob_owned extra s bl A" using slob_reach_owned [OF assms] by blast
  show ?thesis using slob_owned_alloc [OF own, of sz align got z] slob_owned_free [OF own, of c n] by blast
qed

theorem slob_ops_return_witness:
  "\<exists>s s' s'' b. slob_reach s {(10240, 10)} \<and> slob_alloc 20 True 8 (Some 6) s = Some (b, s') \<and> b \<noteq> 0 \<and>
     slob_free 10240 10 s = Some s''"
proof -
  obtain s where s: "slob_reach s {(10240, 10)}" "page_slab s = (\<lambda>p. p = 5)" using sample_one by blast
  have call: "alloc_call s 20 8 (Some 6)"
    using small_page [of 6] good_align_samples(3) s(2) by (simp add: alloc_call_def PAGE_SIZE_def)
  then show ?thesis using s(1) slob_ops_return [OF s(1), of 20 8 "Some 6" True 10240 10] by blast
qed

section \<open>Best fit\<close>

text \<open>
  C4. When no alignment is asked for and some free block is large enough, the object is cut from the
  start of a smallest free block that is large enough. No page is taken from the page allocator,
  and the object's units are the only ones that stop being free.
\<close>

theorem slob_alloc_best_fit:
  assumes "slob_inv s bl" "0 < sz" "(a0, n0) \<in> set (bl p0)" "SLOB_UNITS sz \<le> n0"
  shows "\<exists>b n s' bl'. slob_alloc sz z 0 got s = Some (b, s') \<and> (\<exists>p. (b, n) \<in> set (bl p)) \<and>
     SLOB_UNITS sz \<le> n \<and> (\<forall>p a' n'. (a', n') \<in> set (bl p) \<and> SLOB_UNITS sz \<le> n' \<longrightarrow> n \<le> n') \<and>
     slob_inv s' bl' \<and> free_units bl' = free_units bl - {b ..< b + SLOB_UNITS sz} \<and>
     pages_alloc s' = pages_alloc s"
proof -
  have listed: "(p, a, n) \<in> listed_blocks bl (free_slob_small s) \<longleftrightarrow> (a, n) \<in> set (bl p)" for p a n
    using slob_inv_listed [OF assms(1), of p] by (auto simp: listed_blocks_def page_blocks_def)
  have delta: "slob_delta a 0 = 0" for a by (simp add: slob_delta_def)
  have room: "has_room bl s (SLOB_UNITS sz) 0"
    unfolding has_room_def using assms(3,4) listed [of p0 a0 n0] by (auto simp: delta)
  from slob_alloc_reuse [OF assms(1,2) good_align_samples(1) room, of z got]
  obtain p us a n vs s' bl' where r: "bl p = us @ (a, n) # vs" "SLOB_UNITS sz \<le> n"
      "\<forall>(p', a', n') \<in> listed_blocks bl (free_slob_small s). SLOB_UNITS sz \<le> n' \<longrightarrow> n \<le> n'"
      "slob_alloc sz z 0 got s = Some (a, s')" "slob_inv s' bl'"
      "alloc_post (SLOB_UNITS sz) 0 (free_units bl) s a s' bl'" "pages_alloc s' = pages_alloc s"
    unfolding delta by auto
  have "\<forall>p a' n'. (a', n') \<in> set (bl p) \<and> SLOB_UNITS sz \<le> n' \<longrightarrow> n \<le> n'"
    using r(3) listed by blast
  moreover have "\<exists>p. (a, n) \<in> set (bl p)" using r(1) by (intro exI [of _ p]) simp
  moreover have "free_units bl' = free_units bl - {a ..< a + SLOB_UNITS sz}" using r(6) by (simp add: alloc_post_def)
  ultimately show ?thesis using r(2,4,5,7) by blast
qed

text \<open>A state with the free blocks of 9 and of 6 units on page 1, for objects of 8 bytes.\<close>

definition two_blocks :: "nat \<Rightarrow> nat \<Rightarrow> nat \<Rightarrow> nat \<Rightarrow> slob" where
  "two_blocks a n a' n' = slob0\<lparr>smem := set_slob (set_slob (\<lambda>_. 0) a' n' 4096) a n a',
     sp_units := (\<lambda>p. if p = 1 then int (n + n') else 0), sp_free := (\<lambda>p. if p = 1 then a else 0),
     page_slab := (\<lambda>p. p = 1), page_slob_free := (\<lambda>p. p = 1), free_slob_small := [1], pages_alloc := 1\<rparr>"

lemma two_blocks_enc:
  assumes "2048 \<le> a" "0 < n" "a + n < a'" "0 < n'" "a' + n' \<le> 4096"
  shows "wf_blocks 2048 [(a, n), (a', n')]"
    "enc (set_slob (set_slob (\<lambda>_. 0) a' n' 4096) a n a') [(a, n), (a', n')] 4096"
proof -
  show "wf_blocks 2048 [(a, n), (a', n')]" using assms by (simp add: wf_blocks_Cons PAGE_UNITS_eq)
  let ?m = "set_slob (\<lambda>_. 0) a' n' 4096"
  have page: "in_page 2048 a" "in_page 2048 a'" using assms by (simp_all add: in_page_def PAGE_UNITS_eq)
  have "is_block (set_slob ?m a n a') a n a'"
    by (rule set_slob_is_block [OF page(1)]) (use assms in \<open>simp_all add: PAGE_UNITS_eq\<close>)
  moreover have "is_block ?m a' n' 4096"
    by (rule set_slob_is_block [OF page(2)]) (use assms in \<open>simp_all add: PAGE_UNITS_eq\<close>)
  then have "is_block (set_slob ?m a n a') a' n' 4096"
    by (rule is_block_cong) (use assms set_slob_frame in auto)
  ultimately show "enc (set_slob ?m a n a') [(a, n), (a', n')] 4096" by simp
qed

lemma two_blocks_inv:
  assumes "2048 \<le> a" "0 < n" "a + n < a'" "0 < n'" "a' + n' \<le> 4096"
  shows "slob_inv (two_blocks a n a' n') (\<lambda>p. if p = 1 then [(a, n), (a', n')] else [])"
  using two_blocks_enc [OF assms] small_page [of 1]
  by (simp add: slob_inv_def page_ok_def two_blocks_def slob0_def PAGE_UNITS_eq)

theorem slob_alloc_best_fit_witness:
  "\<exists>b s'. slob_alloc 8 False 0 None (two_blocks 2050 9 2060 6) = Some (b, s') \<and> b = 2060"
proof -
  let ?bl = "\<lambda>p. if p = (1 :: nat) then [(2050, 9), (2060 :: nat, 6 :: nat)] else []"
  have inv: "slob_inv (two_blocks 2050 9 2060 6) ?bl" by (rule two_blocks_inv) simp_all
  have "(2060, 6) \<in> set (?bl 1)" "SLOB_UNITS 8 \<le> 6" by (simp_all add: SLOB_UNITS_def SLOB_UNIT_def)
  from slob_alloc_best_fit [OF inv _ this, of False None] obtain b n s' where
    r: "slob_alloc 8 False 0 None (two_blocks 2050 9 2060 6) = Some (b, s')" "\<exists>p. (b, n) \<in> set (?bl p)"
      "\<forall>p a' n'. (a', n') \<in> set (?bl p) \<and> SLOB_UNITS 8 \<le> n' \<longrightarrow> n \<le> n'" by auto
  have "n \<le> 6" using r(3) [rule_format, of 2060 6 1] by (simp add: SLOB_UNITS_def SLOB_UNIT_def)
  then have "b = 2060" using r(2) by (auto split: if_splits)
  then show ?thesis using r(1) by blast
qed

lemma wf_blocks_distinct: "wf_blocks B bs \<Longrightarrow> distinct (map fst bs)"
proof (induction bs)
  case (Cons x bs)
  obtain c m where x: "x = (c, m)" by fastforce
  show ?case using Cons by (force simp: x wf_blocks_Cons)
qed simp

text \<open>The block that a scan has chosen is one of those it has seen, and large enough.\<close>

definition picked :: "nat \<Rightarrow> nat \<Rightarrow> blocks \<Rightarrow> best_block_slob \<Rightarrow> bool" where
  "picked units align bs best \<longleftrightarrow> (\<exists>(c, m) \<in> set bs. best_cur best = c \<and> block_size best = int m \<and> units + slob_delta c align \<le> m)"

lemma picked_keeps:
  "best_fit_list sp units align prev bs e best = best \<or> picked units align bs (best_fit_list sp units align prev bs e best)"
proof (induction bs arbitrary: prev best)
  case (Cons x bs)
  obtain c m where x: "x = (c, m)" by fastforce
  let ?found = "best_found sp units prev c m (first_of bs e)"
  have "picked units align (x # bs) r" if "picked units align bs r" for r using that by (auto simp: picked_def)
  moreover have "picked units align (x # bs) ?found" if "units + slob_delta c align \<le> m"
    using that by (auto simp: picked_def x best_found_def)
  ultimately show ?case
    using Cons.IH [of c best] Cons.IH [of c ?found] by (auto simp: x Let_def)
qed simp

lemma exact_is_picked:
  "(a, units + slob_delta a align) \<in> set bs \<Longrightarrow> picked units align bs (best_fit_list sp units align prev bs e best)"
proof (induction bs arbitrary: prev best)
  case (Cons x bs)
  obtain c m where x: "x = (c, m)" by fastforce
  have more: "picked units align (x # bs) r" if "picked units align bs r" for r using that by (auto simp: picked_def)
  show ?case
  proof (cases "x = (a, units + slob_delta a align)")
    case True
    let ?found = "best_found sp units prev a (units + slob_delta a align) (first_of bs e)"
    have "picked units align (x # bs) ?found" by (auto simp: picked_def True best_found_def)
    then show ?thesis using picked_keeps [of sp units align a bs e ?found] more
      by (auto simp: True Let_def)
  next
    case False
    then have "(a, units + slob_delta a align) \<in> set bs" using Cons.prems by simp
    from Cons.IH [OF this] more show ?thesis by (simp add: x)
  qed
qed simp

lemma scan_avoids:
  "a \<notin> fst ` set bs \<Longrightarrow> best_cur best \<noteq> a \<Longrightarrow> best_cur (best_fit_list sp units align prev bs e best) \<noteq> a"
proof (induction bs arbitrary: prev best)
  case (Cons x bs)
  obtain c m where x: "x = (c, m)" by fastforce
  show ?case unfolding x best_fit_list.simps
    by (rule Cons.IH) (use Cons.prems x in \<open>auto simp: Let_def best_found_def\<close>)
qed simp

lemma scan_gives_up:
  "\<lbrakk>a \<notin> fst ` set bs; (a', n') \<in> set bs; units + slob_delta a' align < n'; n' - (units + slob_delta a' align) < d;
    best_cur best = a \<Longrightarrow> block_size best - object_size best = int d\<rbrakk>
   \<Longrightarrow> best_cur (best_fit_list sp units align prev bs e best) \<noteq> a"
proof (induction bs arbitrary: prev best)
  case (Cons x bs)
  obtain c m where x: "x = (c, m)" by fastforce
  let ?found = "best_found sp units prev c m (first_of bs e)"
  let ?best = "if m = units + slob_delta c align then ?found
     else if units + slob_delta c align \<le> m \<and> int m - int (units + slob_delta c align) < block_size best - object_size best
          then ?found else best"
  have step: "best_fit_list sp units align prev (x # bs) e best = best_fit_list sp units align c bs e ?best"
    by (simp add: x Let_def)
  have found: "best_cur ?found \<noteq> a" using Cons.prems(1) by (auto simp: x best_found_def)
  show ?case
  proof (cases "(c, m) = (a', n')")
    case True
    have "int n' - int (units + slob_delta a' align) < int d" using Cons.prems(3,4) by linarith
    then have "best_cur ?best \<noteq> a" using found True Cons.prems(3,5) by auto
    then show ?thesis unfolding step by (rule scan_avoids [rotated]) (use Cons.prems(1) in simp)
  next
    case False
    show ?thesis unfolding step
      by (rule Cons.IH) (use Cons.prems False found x in auto)
  qed
qed simp

lemma scan_skips_exact:
  "\<lbrakk>distinct (map fst (us @ (a, units + slob_delta a align) # vs)); (a', n') \<in> set vs;
    units + slob_delta a' align < n'; n' - (units + slob_delta a' align) < slob_delta a align\<rbrakk>
   \<Longrightarrow> best_cur (best_fit_list sp units align prev (us @ (a, units + slob_delta a align) # vs) e best) \<noteq> a"
proof (induction us arbitrary: prev best)
  case Nil
  show ?case unfolding append_Nil best_fit_list.simps Let_def
    by (rule scan_gives_up [where d = "slob_delta a align"]) (use Nil in \<open>auto simp: best_found_def\<close>)
next
  case (Cons x us)
  obtain c m where x: "x = (c, m)" by fastforce
  show ?case unfolding x append_Cons best_fit_list.simps by (rule Cons.IH) (use Cons.prems in auto)
qed

text \<open>
  C21. With an alignment the scan of a page is not best fit. Let a block be the only one of the page in
  which the object and its alignment gap fit exactly, and let some block behind it leave
  room, but less than that gap. Then the scan chooses a block that is not an exact fit: the room
  that the best block so far leaves is computed without subtracting its gap, so the exact fit is
  taken for a block that wastes its gap.
\<close>

theorem best_fit_misses_exact:
  assumes inv: "slob_inv s bl" and page: "bl p = us @ (a, n) # vs" and exact: "n = SLOB_UNITS sz + slob_delta a align"
    and only: "\<forall>(c, m) \<in> set (us @ vs). m \<noteq> SLOB_UNITS sz + slob_delta c align"
    and later: "(a', n') \<in> set vs" "SLOB_UNITS sz + slob_delta a' align < n'"
      "n' - (SLOB_UNITS sz + slob_delta a' align) < slob_delta a align"
  shows "\<exists>best' c m. find_best_fit_block s p best sz align = Some best' \<and> best_cur best' = c \<and> (c, m) \<in> set (bl p) \<and>
     c \<noteq> a \<and> SLOB_UNITS sz + slob_delta c align < m"
proof -
  have ne: "bl p \<noteq> []" using page by simp
  have ok: "page_ok s p (bl p)" using inv ne by (auto simp: slob_inv_def)
  then have wf: "wf_blocks (page_base p) (bl p)" by (simp add: page_ok_def)
  let ?best = "best_fit_list p (SLOB_UNITS sz) align 0 (bl p) (page_end p) best"
  have run: "find_best_fit_block s p best sz align = Some ?best"
    using best_fit_loop_list [OF wf _ ne] ok by (simp add: find_best_fit_block_def page_ok_def)
  have "best_cur ?best \<noteq> a" unfolding page exact
    by (rule scan_skips_exact [OF _ later]) (use wf_blocks_distinct [OF wf] in \<open>simp add: page exact\<close>)
  moreover have "picked (SLOB_UNITS sz) align (bl p) ?best" by (rule exact_is_picked [of a]) (simp add: page exact)
  ultimately show ?thesis using run only page exact by (fastforce simp: picked_def)
qed

theorem best_fit_misses_exact_witness:
  "\<exists>best' c. find_best_fit_block (two_blocks 2049 7 2060 6) 1 (best_init 8) 8 8 = Some best' \<and> best_cur best' = c \<and> c = 2060"
proof -
  let ?bl = "\<lambda>p. if p = (1 :: nat) then [(2049 :: nat, 7 :: nat), (2060, 6)] else []"
  have inv: "slob_inv (two_blocks 2049 7 2060 6) ?bl" by (rule two_blocks_inv) simp_all
  have delta: "slob_delta 2049 8 = 3" "slob_delta 2060 8 = 0"
    by (simp_all add: slob_delta_def slob_aligned_def ALIGN_def SLOB_UNIT_def)
  have units: "SLOB_UNITS 8 = 4" by (simp add: SLOB_UNITS_def SLOB_UNIT_def)
  have "?bl 1 = [] @ (2049, 7) # [(2060, 6)]" by simp
  from best_fit_misses_exact [OF inv this, of 8 8 2060 6 "best_init 8"] show ?thesis
    by (auto simp: delta units)
qed

section \<open>Round trips\<close>

text \<open>
  C29. What \<^verbatim>\<open>set_slob\<close> writes is what \<^verbatim>\<open>slob_units\<close>, \<^verbatim>\<open>slob_next\<close> and \<^verbatim>\<open>slob_last\<close> read, for a block of
  any length in its page and any successor up to the end of the page, although the length and the
  successor share one 16 bit unit when the block is a single unit; and only units of the block are
  written.
\<close>

theorem set_slob_roundtrip:
  assumes "in_page B a" "0 < n" "n \<le> PAGE_UNITS" "B < nxt" "nxt \<le> B + PAGE_UNITS"
  shows "slob_units (set_slob m a n nxt) a = n \<and> slob_next (set_slob m a n nxt) a = nxt \<and>
     (slob_last (set_slob m a n nxt) a \<longleftrightarrow> nxt = B + PAGE_UNITS) \<and>
     (\<forall>u. u \<notin> {a ..< a + n} \<longrightarrow> set_slob m a n nxt u = m u)"
proof -
  have base: "slob_base a < nxt" using in_page_base [OF assms(1)] assms(4) by simp
  note blk = set_slob_is_block [OF assms, of m]
  have nxt: "slob_next (set_slob m a n nxt) a = nxt" by (rule is_block_next [OF blk assms(2) base])
  obtain k where k: "B = PAGE_UNITS * k" using assms(1) by (auto simp: in_page_def)
  obtain d where d: "nxt = B + d" "0 < d" "d \<le> PAGE_UNITS" using assms(4,5) by (metis less_imp_add_positive nat_add_left_cancel_le)
  have "nxt mod PAGE_UNITS = d mod PAGE_UNITS" by (simp add: d(1) k)
  then have "slob_last (set_slob m a n nxt) a \<longleftrightarrow> d mod PAGE_UNITS = 0" by (simp only: slob_last_def nxt)
  also have "\<dots> \<longleftrightarrow> nxt = B + PAGE_UNITS" using d by (cases "d = PAGE_UNITS") simp_all
  finally show ?thesis using is_block_units [OF blk assms(2) base] nxt set_slob_frame [OF assms(2)] by blast
qed

theorem set_slob_roundtrip_witness:
  "slob_units (set_slob (\<lambda>_. 0) 2050 1 4096) 2050 = 1 \<and> slob_last (set_slob (\<lambda>_. 0) 2050 1 4096) 2050"
  using set_slob_roundtrip [of 2048 2050 1 4096 "\<lambda>_. 0"] by (simp add: in_page_def PAGE_UNITS_eq)

lemma alloc_free_reuse:
  assumes inv: "slob_inv s bl" and used: "\<And>p. page_slab s p \<Longrightarrow> \<not> page_units p \<subseteq> free_units bl"
    and sz: "0 < sz" "sz \<le> PAGE_SIZE" and al: "good_align align" and room: "has_room bl s (SLOB_UNITS sz) align"
    and run: "slob_alloc sz z align got s = Some (b, s')"
  shows "\<exists>s''. slob_free b sz s' = Some s'' \<and> slob_inv s'' bl \<and> page_slab s'' = page_slab s \<and>
     pages_alloc s'' = pages_alloc s"
proof -
  let ?U = "SLOB_UNITS sz" and ?R = "{b ..< b + SLOB_UNITS sz}" and ?p = "slob_page b"
  from slob_alloc_reuse [OF inv sz(1) al room, of z got] obtain p us a n vs bl' where
    r: "bl p = us @ (a, n) # vs" "p \<in> set (free_slob_small s)" "?U + slob_delta a align \<le> n"
      "b = a + slob_delta a align" "slob_inv s' bl'" "alloc_post ?U align (free_units bl) s b s' bl'"
      "pages_alloc s' = pages_alloc s" "page_slab s' = page_slab s"
    unfolding run by auto
  have "?R \<subseteq> {a ..< a + n}" using r(3,4) by simp
  also have "\<dots> \<subseteq> units_of (bl p)" using r(1) by auto
  finally have inp: "?R \<subseteq> page_units p" using units_in_page [OF inv, of p] by blast
  then have pg: "?p = p" by (rule region_in_page) (rule SLOB_UNITS_bounds(1) [OF sz(1)])
  have slab: "page_slab s p" using slob_inv_listed_slab [OF inv r(2)] .
  have free: "?R \<subseteq> free_units bl" "free_units bl' = free_units bl - ?R" using r(6) by (simp_all add: alloc_post_def)
  have undo: "free_units bl' \<union> ?R = free_units bl" using free by blast
  have "allocated s' bl' b ?U"
    using SLOB_UNITS_bounds(1) [OF sz(1)] inp slab free(2) by (simp add: allocated_def pg r(8) Diff_Int_distrib2)
  from slob_free_spec [OF r(5) this sz(1), unfolded undo] used [OF slab] obtain s'' bl'' where
    f: "slob_free b sz s' = Some s''" "slob_inv s'' bl''" "free_units bl'' = free_units bl"
      "page_slab s'' = page_slab s'" "pages_alloc s'' = pages_alloc s'"
    unfolding pg by auto
  have "bl'' = bl" by (rule slob_inv_unique [OF f(2) inv f(3)])
  then show ?thesis using f r(7,8) by simp
qed

lemma alloc_free_fresh:
  assumes inv: "slob_inv s bl" and sz: "0 < sz" "sz \<le> PAGE_SIZE" and al: "good_align align"
    and room: "\<not> has_room bl s (SLOB_UNITS sz) align" and p: "usable_page p" "\<not> page_slab s p"
    and run: "slob_alloc sz z align (Some p) s = Some (b, s')"
  shows "\<exists>s''. slob_free b sz s' = Some s'' \<and> slob_inv s'' bl \<and> page_slab s'' = page_slab s \<and>
     pages_alloc s'' = pages_alloc s"
proof -
  let ?U = "SLOB_UNITS sz" and ?R = "{b ..< b + SLOB_UNITS sz}" and ?p = "slob_page b"
  from slob_alloc_fresh(2) [OF inv sz al room p, of z] obtain bl' where
    r: "b = page_base p" "slob_inv s' bl'" "alloc_post ?U align (free_units bl \<union> page_units p) s b s' bl'"
      "pages_alloc s' = pages_alloc s + 1" "page_slab s' = (page_slab s)(p := True)"
    using run by auto
  have inp: "?R \<subseteq> page_units p" unfolding r(1) page_units_def using SLOB_UNITS_bounds(2) [OF sz(2)]
    by (simp only: ivl_subset) simp
  then have pg: "?p = p" by (rule region_in_page) (rule SLOB_UNITS_bounds(1) [OF sz(1)])
  have free: "free_units bl' = (free_units bl \<union> page_units p) - ?R" using r(3) by (simp add: alloc_post_def)
  have "free_units bl \<inter> page_units p = units_of (bl p)" by (rule free_units_page [OF inv])
  also have "bl p = []" using p inv by (auto simp: slob_inv_def)
  finally have apart: "free_units bl \<inter> page_units p = {}" by simp
  have all: "page_units ?p \<subseteq> free_units bl' \<union> ?R" unfolding pg free by blast
  have "allocated s' bl' b ?U"
    using SLOB_UNITS_bounds(1) [OF sz(1)] inp free by (simp add: allocated_def pg r(5) Diff_Int_distrib2)
  from slob_free_spec [OF r(2) this sz(1), unfolded if_P [OF all]] obtain s'' where
    f: "slob_free b sz s' = Some s''" "slob_inv s'' (bl'(p := []))"
      "page_slab s'' = (page_slab s')(p := False)" "pages_alloc s'' = pages_alloc s' - 1"
    unfolding pg by (elim exE conjE) (rule that)
  have "free_units (bl'(p := [])) = free_units bl"
    unfolding free_units_drop [OF r(2)] free using apart inp by blast
  then have "bl'(p := []) = bl" by (rule slob_inv_unique [OF f(2) inv])
  moreover have "page_slab s'' = page_slab s" unfolding f(3) r(5) using p(2) by (simp add: fun_eq_iff)
  ultimately show ?thesis using f(1,2,4) r(4) by simp
qed

text \<open>
  C22. Freeing what was just allocated restores the free lists of all pages, block by block, the set
  of pages of the allocator and the page counter: merging neighbours undoes every split, and a
  fresh page is returned. The allocator holds no page that is wholly free, as in every reachable
  state.
\<close>

theorem slob_alloc_free_roundtrip:
  assumes inv: "slob_inv s bl" and used: "\<And>p. page_slab s p \<Longrightarrow> \<not> page_units p \<subseteq> free_units bl"
    and call: "alloc_call s sz align got" and run: "slob_alloc sz z align got s = Some (b, s')" and b: "b \<noteq> 0"
  shows "\<exists>s''. slob_free b sz s' = Some s'' \<and> slob_inv s'' bl \<and> page_slab s'' = page_slab s \<and>
     pages_alloc s'' = pages_alloc s"
proof -
  have sz: "0 < sz" "sz \<le> PAGE_SIZE" and al: "good_align align"
    and got: "\<And>p. got = Some p \<Longrightarrow> usable_page p \<and> \<not> page_slab s p"
    using call by (simp_all add: alloc_call_def)
  show ?thesis
  proof (cases "has_room bl s (SLOB_UNITS sz) align")
    case True
    then show ?thesis using alloc_free_reuse [OF inv used sz al _ run] by blast
  next
    case False
    obtain p where p: "got = Some p"
      using slob_alloc_fresh(1) [OF inv sz al False, of z] run b by (cases got) auto
    then show ?thesis using alloc_free_fresh [OF inv sz al False, of p] got [OF p] run by blast
  qed
qed

theorem slob_alloc_free_roundtrip_witness:
  "\<exists>b s' s''. slob_alloc 8 True 4 None (two_blocks 2050 9 2060 6) = Some (b, s') \<and> slob_free b 8 s' = Some s'' \<and>
     slob_inv s'' (\<lambda>p. if p = 1 then [(2050, 9), (2060, 6)] else [])"
proof -
  let ?s = "two_blocks 2050 9 2060 6"
  let ?bl = "\<lambda>p. if p = (1 :: nat) then [(2050 :: nat, 9 :: nat), (2060, 6)] else []"
  have inv: "slob_inv ?s ?bl" by (rule two_blocks_inv) simp_all
  have units: "SLOB_UNITS 8 = 4" by (simp add: SLOB_UNITS_def SLOB_UNIT_def)
  have delta: "slob_delta 2060 4 = 0" by (simp add: slob_delta_def slob_aligned_def ALIGN_def SLOB_UNIT_def)
  have "has_room ?bl ?s (SLOB_UNITS 8) 4"
    unfolding has_room_def by (rule bexI [of _ "(1, 2060, 6)"])
      (simp_all add: listed_blocks_def page_blocks_def two_blocks_def units delta)
  from slob_alloc_reuse [OF inv _ good_align_samples(2) this, of True None] obtain b s' bl' where
    run: "slob_alloc 8 True 4 None ?s = Some (b, s')" and post: "alloc_post (SLOB_UNITS 8) 4 (free_units ?bl) ?s b s' bl'"
    by auto
  have used: "\<not> page_units p \<subseteq> free_units ?bl" if "page_slab ?s p" for p
  proof -
    have "2048 \<in> page_units p" using that by (simp add: two_blocks_def page_units_def PAGE_UNITS_eq)
    moreover have "2048 \<notin> free_units ?bl" by (simp add: free_units_def)
    ultimately show ?thesis by blast
  qed
  have call: "alloc_call ?s 8 4 None" using good_align_samples(2) by (simp add: alloc_call_def PAGE_SIZE_def)
  have "b \<noteq> 0" using post by (simp add: alloc_post_def)
  from slob_alloc_free_roundtrip [OF inv used call run this] run show ?thesis by blast
qed

section \<open>kmalloc\<close>

lemma read32_write32: "read32 (write32 m a v) a = v"
  by (rule bit_word_eqI) (auto simp: read32_def write32_def bit_simps)

lemma write32_frame: "u \<noteq> a \<Longrightarrow> u \<noteq> a + 1 \<Longrightarrow> write32 m a v u = m u"
  by (simp add: write32_def)

lemma page_same:
  assumes "{m ..< m + u} \<subseteq> page_units (slob_page m)" "d < u"
  shows "slob_page (m + d) = slob_page m"
  by (rule region_in_page [of _ 1]) (use assms in auto)

lemma kmalloc_align_eq: "kmalloc_align = 4"
  by (simp add: kmalloc_align_def ARCH_KMALLOC_MINALIGN_def ARCH_SLAB_MINALIGN_def)

text \<open>A small object is an object of the allocator behind a header of four bytes.\<close>

lemma kmalloc_small:
  assumes reach: "slob_reach s A" and sz: "sz \<noteq> 0" "unat sz < PAGE_SIZE - kmalloc_align"
    and call: "alloc_call s (unat sz + kmalloc_align) kmalloc_align got"
    and run: "kmalloc_node sz z got s = Some (p, s')" "p \<noteq> 0"
  shows "slob_reach s' (insert (p - 2, unat sz + 4) A)" "(p - 2, unat sz + 4) \<notin> A" "4 dvd SLOB_UNIT * p"
    "slob_page (p - 2) = slob_page p" "page_slab s' (slob_page p)" "read32 (smem s') (p - 2) = sz" "ZERO_SIZE_PTR < p"
proof -
  let ?n = "unat sz + 4"
  obtain extra bl where own: "slob_owned extra s bl A" using slob_reach_owned [OF reach] by blast
  from slob_owned_alloc [OF own call, of z] obtain m s1 bl1 where
    a: "slob_alloc ?n z 4 got s = Some (m, s1)" "slob_owned extra s1 bl1 (if m = 0 then A else insert (m, ?n) A)"
      "m \<noteq> 0 \<longrightarrow> new_object A 4 m ?n"
    unfolding kmalloc_align_eq by (elim exE conjE) (rule that)
  have m: "m \<noteq> 0" "p = m + 2" "s' = s1\<lparr>smem := write32 (smem s1) m sz\<rparr>"
    using run sz a(1) by (auto simp: kmalloc_node_def Let_def kmalloc_align_eq SLOB_UNIT_def split: if_splits)
  have own1: "slob_owned extra s1 bl1 (insert (m, ?n) A)" using a(2) m(1) by simp
  have new: "(m, ?n) \<notin> A" "4 dvd 2 * m" using a(3) m(1) by (simp_all add: new_object_def SLOB_UNIT_def)
  have "0 < unat sz" using sz(1) by (simp add: unat_gt_0)
  then have U: "2 < SLOB_UNITS ?n" unfolding SLOB_UNITS_def SLOB_UNIT_def by linarith
  have alloc: "page_slab s1 (slob_page m)" "{m ..< m + SLOB_UNITS ?n} \<subseteq> page_units (slob_page m)"
    using slob_owned_allocated(1) [OF own1 insertI1] by (simp_all add: allocated_def)
  note page = page_same [OF alloc(2) U]
  have reach1: "slob_reach s1 (insert (m, ?n) A)"
    using reach_alloc [OF reach call [unfolded kmalloc_align_eq] a(1)] m(1) by simp
  show "slob_reach s' (insert (p - 2, ?n) A)" unfolding m(2,3) diff_add_inverse2
    by (rule reach_use [OF reach1]) (rule write32_frame; use U in auto)
  show "(p - 2, ?n) \<notin> A" "slob_page (p - 2) = slob_page p" "page_slab s' (slob_page p)"
    using new(1) page alloc(1) by (simp_all add: m(2,3))
  show "4 dvd SLOB_UNIT * p" using new(2) unfolding m(2) SLOB_UNIT_def by presburger
  show "read32 (smem s') (p - 2) = sz" by (simp add: m(2,3) read32_write32)
  have "0 < slob_page m" using slob_inv_page [OF slob_owned_parts(1) [OF own1] alloc(1)] by (simp add: usable_page_def)
  then have "2048 \<le> m" by (simp add: slob_page_def PAGE_UNITS_eq div_greater_zero_iff)
  then show "ZERO_SIZE_PTR < p" using m(2) by (simp add: ZERO_SIZE_PTR_def SLOB_UNIT_def)
qed

text \<open>
  C23. A small object from \<^verbatim>\<open>kmalloc\<close> is aligned to four bytes, \<^verbatim>\<open>ksize\<close> reports its size rounded up to
  a whole unit, never less than what was asked for, and \<^verbatim>\<open>kfree\<close> finds the size in the header and
  gives back exactly what was taken: the outstanding objects are those of before the call.
\<close>

theorem kmalloc_kfree_roundtrip:
  assumes "slob_reach s A" "sz \<noteq> 0" "unat sz < PAGE_SIZE - kmalloc_align"
    "alloc_call s (unat sz + kmalloc_align) kmalloc_align got"
    "kmalloc_node sz z got s = Some (p, s')" "p \<noteq> 0"
  shows "4 dvd SLOB_UNIT * p \<and> ksize p s' = Some (2 * ((unat sz + 1) div 2)) \<and> unat sz \<le> 2 * ((unat sz + 1) div 2) \<and>
     (\<exists>s''. kfree p s' = Some s'' \<and> slob_reach s'' A)"
proof -
  note k = kmalloc_small [OF assms]
  let ?n = "unat sz + 4"
  have ks: "ksize p s' = Some (2 * ((unat sz + 1) div 2))"
    using k(5,6,7) assms(6) by (simp add: ksize_def Let_def kmalloc_align_eq SLOB_UNIT_def SLOB_UNITS_def)
  have "unat (sz + 4) = ?n"
    using assms(3) by (subst unat_add_lem [THEN iffD1]) (simp_all add: kmalloc_align_eq PAGE_SIZE_def)
  then have kf: "kfree p s' = slob_free (p - 2) ?n s'"
    using k(5,6,7) assms(6) by (simp add: kfree_def ZERO_OR_NULL_PTR_def Let_def kmalloc_align_eq SLOB_UNIT_def ZERO_SIZE_PTR_def)
  obtain extra bl where "slob_owned extra s' bl (insert (p - 2, ?n) A)" using slob_reach_owned [OF k(1)] by blast
  from slob_owned_free [OF this insertI1] obtain s'' where f: "slob_free (p - 2) ?n s' = Some s''" by blast
  have "slob_reach s'' (insert (p - 2, ?n) A - {(p - 2, ?n)})" by (rule reach_free [OF k(1) insertI1 f])
  then have "slob_reach s'' A" using k(2) by simp
  then show ?thesis using k(3) ks kf f by auto
qed

theorem kmalloc_kfree_roundtrip_witness:
  "\<exists>p s' s''. kmalloc_node 99 True (Some 5) slob0 = Some (p, s') \<and> p \<noteq> 0 \<and> ksize p s' = Some 100 \<and>
     kfree p s' = Some s'' \<and> slob_reach s'' {}"
proof -
  have call: "alloc_call slob0 (unat (99 :: u32) + kmalloc_align) kmalloc_align (Some 5)"
    using small_page [of 5] good_align_samples(2)
    by (simp add: alloc_call_def kmalloc_align_eq PAGE_SIZE_def slob0_def)
  from slob_owned_alloc [OF slob_empty_owned [OF slob0_empty] call, of True] obtain m s1 where
    "slob_alloc (unat (99 :: u32) + kmalloc_align) True kmalloc_align (Some 5) slob0 = Some (m, s1)" "m \<noteq> 0" by blast
  then have run: "\<exists>p s'. kmalloc_node 99 True (Some 5) slob0 = Some (p, s') \<and> p \<noteq> 0"
    by (simp add: kmalloc_node_def Let_def kmalloc_align_eq PAGE_SIZE_def)
  then obtain p s' where r: "kmalloc_node 99 True (Some 5) slob0 = Some (p, s')" "p \<noteq> 0" by blast
  have small: "unat (99 :: u32) < PAGE_SIZE - kmalloc_align" by (simp add: kmalloc_align_eq PAGE_SIZE_def)
  show ?thesis
    using r kmalloc_kfree_roundtrip [OF reach_init [OF slob0_empty] _ small call r] by auto
qed

text \<open>
  The degenerate calls: a size of zero yields the zero-size pointer and no memory, freeing that
  pointer or NULL changes nothing, its size is zero, asking for the size of NULL is a bug, and so is
  freeing an object with size zero.
\<close>

theorem kmalloc_degenerate:
  "kmalloc_node 0 z got s = Some (ZERO_SIZE_PTR, s) \<and> kfree ZERO_SIZE_PTR s = Some s \<and> kfree 0 s = Some s \<and>
   ksize ZERO_SIZE_PTR s = Some 0 \<and> ksize 0 s = None \<and>
   slob_free b 0 s = (if ZERO_OR_NULL_PTR b then Some s else None)"
  by (simp add: kmalloc_node_def kfree_def ksize_def slob_free_def ZERO_OR_NULL_PTR_def kmalloc_align_eq
      PAGE_SIZE_def ZERO_SIZE_PTR_def SLOB_UNIT_def)

section \<open>Accounting\<close>

lemma foldl_units:
  "foldl (\<lambda>n sp. n + UNSLOB_UNITS (f sp)) x ps = x + (\<Sum>p \<leftarrow> ps. UNSLOB_UNITS (f p))"
  by (induction ps arbitrary: x) (simp_all add: add.assoc)

lemma UNSLOB_UNITS_eq: "UNSLOB_UNITS (int n) = word_of_nat (2 * n) - 2"
  by (simp add: UNSLOB_UNITS_def SLOB_UNIT_def algebra_simps)

lemma sum_unslob: "(\<Sum>p \<leftarrow> ps. UNSLOB_UNITS (int (f p))) = word_of_nat (2 * (\<Sum>p \<leftarrow> ps. f p)) - 2 * word_of_nat (length ps)"
  by (induction ps) (simp_all add: UNSLOB_UNITS_eq algebra_simps)

lemma card_free_units:
  assumes inv: "slob_inv s bl"
  shows "card (free_units bl) = (\<Sum>p \<leftarrow> free_slob_small s. total (bl p))"
proof -
  let ?L = "free_slob_small s"
  have wf: "wf_blocks (page_base p) (bl p)" if "p \<in> set ?L" for p
    using slob_inv_page [OF inv slob_inv_listed_slab [OF inv that]] by (simp add: page_ok_def)
  have "units_of (bl p) = {}" if "p \<notin> set ?L" for p using that slob_inv_listed [OF inv, of p] by simp
  then have "free_units bl = (\<Union>p \<in> set ?L. units_of (bl p))" unfolding free_units_def by blast
  also have "card \<dots> = (\<Sum>p \<in> set ?L. card (units_of (bl p)))"
  proof (rule card_UN_disjoint)
    show "\<forall>p \<in> set ?L. finite (units_of (bl p))" by (auto simp: units_of_def)
    show "\<forall>p \<in> set ?L. \<forall>q \<in> set ?L. p \<noteq> q \<longrightarrow> units_of (bl p) \<inter> units_of (bl q) = {}"
      using units_in_page [OF inv] page_units_disjoint by blast
  qed simp
  also have "\<dots> = (\<Sum>p \<in> set ?L. total (bl p))" using card_units_of [OF wf] by (intro sum.cong) simp_all
  also have "\<dots> = (\<Sum>p \<leftarrow> ?L. total (bl p))"
    using inv by (simp add: sum_list_distinct_conv_sum_set slob_inv_def)
  finally show ?thesis .
qed

text \<open>
  C24. The system call that reports the free bytes reports, for every page with free units, two
  bytes less than the page has: the macro that turns units into bytes is not the inverse of the one
  that turns bytes into units. (All modulo the 32 bit result.)
\<close>

theorem slob_amt_free_short:
  assumes "slob_reach s A"
  shows "sys_get_slob_amt_free s =
     word_of_nat (SLOB_UNIT * card (slab_units s - (\<Union>(b, sz) \<in> A. {b ..< b + SLOB_UNITS sz}))) -
     2 * word_of_nat (length (free_slob_small s))"
proof -
  obtain extra bl where own: "slob_owned extra s bl A" using slob_reach_owned [OF assms] by blast
  note parts = slob_owned_parts [OF own]
  have lists: "free_slob_medium s = []" "free_slob_large s = []" using parts(1) by (simp_all add: slob_inv_def)
  have regions: "(\<Union>(b, sz) \<in> A. {b ..< b + SLOB_UNITS sz}) = (\<Union>x \<in> A. region x)" by (simp add: region_def split_def)
  have free: "slab_units s - (\<Union>x \<in> A. region x) = free_units bl" using parts(2,3) by blast
  have units: "sp_units s p = int (total (bl p))" if "p \<in> set (free_slob_small s)" for p
    using slob_inv_page [OF parts(1) slob_inv_listed_slab [OF parts(1) that]] by (simp add: page_ok_def)
  have "sys_get_slob_amt_free s = (\<Sum>p \<leftarrow> free_slob_small s. UNSLOB_UNITS (sp_units s p))"
    by (simp add: sys_get_slob_amt_free_def Let_def lists foldl_units)
  also have "\<dots> = (\<Sum>p \<leftarrow> free_slob_small s. UNSLOB_UNITS (int (total (bl p))))"
    by (rule arg_cong [of _ _ sum_list], rule map_cong) (simp_all add: units)
  also have "\<dots> = word_of_nat (2 * card (free_units bl)) - 2 * word_of_nat (length (free_slob_small s))"
    unfolding sum_unslob card_free_units [OF parts(1)] ..
  finally show ?thesis unfolding regions free SLOB_UNIT_def .
qed

theorem slob_amt_free_short_witness:
  "\<exists>s. slob_reach s {(10240, 10)} \<and> SLOB_UNIT * card (slab_units s - {10240 ..< 10245}) = 4086 \<and>
     sys_get_slob_amt_free s = 4084"
proof -
  obtain s where s: "slob_reach s {(10240, 10)}" "page_slab s = (\<lambda>p. p = 5)" using sample_one by blast
  obtain extra bl where own: "slob_owned extra s bl {(10240, 10)}" using slob_reach_owned [OF s(1)] by blast
  note parts = slob_owned_parts [OF own]
  have units: "SLOB_UNITS 10 = 5" by (simp add: SLOB_UNITS_def SLOB_UNIT_def)
  have slab: "slab_units s = {10240 ..< 12288}" by (simp add: slab_units_def s(2) page_units_def PAGE_UNITS_eq)
  have rest: "slab_units s - {10240 ..< 10245} = {10245 ..< 12288}" unfolding slab by auto
  have "free_units bl \<noteq> {}" using parts(2,3) rest by (auto simp: region_def units)
  then obtain p u where "u \<in> units_of (bl p)" unfolding free_units_def by blast
  then have p: "bl p \<noteq> []" by auto
  have only: "q = 5" if "bl q \<noteq> []" for q using parts(1) s(2) that by (auto simp: slob_inv_def)
  have "set (free_slob_small s) = {5}" using slob_inv_listed [OF parts(1)] only p by blast
  moreover have "distinct (free_slob_small s)" using parts(1) by (simp add: slob_inv_def)
  ultimately have len: "length (free_slob_small s) = 1" using distinct_card by fastforce
  have "sys_get_slob_amt_free s = 4084" using slob_amt_free_short [OF s(1)] by (simp add: units rest len SLOB_UNIT_def)
  then show ?thesis using s(1) by (auto simp: rest SLOB_UNIT_def)
qed

text \<open>
  C25. A large object, which \<^verbatim>\<open>kmalloc\<close> takes from the page allocator as a whole, is counted as one
  page whatever its size, and \<^verbatim>\<open>kfree\<close> gives its pages back without counting down: the number of
  claimed bytes grows by a page with every such pair of calls.
\<close>

theorem kmalloc_large_miscounted:
  assumes "PAGE_SIZE - kmalloc_align \<le> unat sz" "usable_page p" "\<not> page_slab s p"
  shows "\<exists>s' s''. kmalloc_node sz z (Some p) s = Some (page_base p, s') \<and> ksize (page_base p) s' = Some (unat sz) \<and>
     kfree (page_base p) s' = Some s'' \<and> released s'' = PutPage p # released s \<and>
     sys_get_slob_amt_claimed s'' = sys_get_slob_amt_claimed s + word_of_nat PAGE_SIZE"
proof -
  have p: "page_base p \<noteq> 0" "slob_page (page_base p) = p" "ZERO_SIZE_PTR < page_base p"
    using assms(2) by (simp_all add: usable_page_def slob_page_def PAGE_UNITS_eq ZERO_SIZE_PTR_def SLOB_UNIT_def)
  let ?s = "s\<lparr>pages_alloc := pages_alloc s + 1, page_private := (page_private s)(p := sz)\<rparr>"
  have run: "kmalloc_node sz z (Some p) s = Some (page_base p, ?s)"
    using assms(1) p by (simp add: kmalloc_node_def slob_new_pages_def Let_def)
  have "kfree (page_base p) ?s = Some (?s\<lparr>released := PutPage p # released s\<rparr>)"
    using assms(3) p by (simp add: kfree_def ZERO_OR_NULL_PTR_def Let_def)
  moreover have "ksize (page_base p) ?s = Some (unat sz)"
    using assms(3) p by (simp add: ksize_def Let_def)
  ultimately show ?thesis using run by (simp add: sys_get_slob_amt_claimed_def algebra_simps)
qed

theorem kmalloc_large_miscounted_witness:
  "\<exists>s' s''. kmalloc_node 8192 False (Some 5) slob0 = Some (10240, s') \<and> kfree 10240 s' = Some s'' \<and>
     released s'' = [PutPage 5] \<and> sys_get_slob_amt_claimed s'' = 4096"
proof -
  have "sys_get_slob_amt_claimed slob0 = 0" "released slob0 = []" "page_base 5 = 10240"
    by (simp_all add: sys_get_slob_amt_claimed_def slob0_def PAGE_UNITS_eq)
  moreover have "PAGE_SIZE - kmalloc_align \<le> unat (8192 :: u32)" "\<not> page_slab slob0 5"
    by (simp_all add: PAGE_SIZE_def slob0_def)
  ultimately show ?thesis
    using kmalloc_large_miscounted [of 8192 5 slob0 False] small_page [of 5] by (auto simp: PAGE_SIZE_def)
qed

section \<open>Page orders\<close>

lemma order_loop_bounds: "n < 2 * 2 ^ order_loop n \<and> (0 < order_loop n \<longrightarrow> 2 ^ order_loop n \<le> n)"
proof (induction n rule: order_loop.induct)
  case (1 n)
  show ?case
  proof (cases "n div 2 = 0")
    case True
    then show ?thesis by (subst (1 2 3) order_loop.simps) auto
  next
    case False
    then have "order_loop n = Suc (order_loop (n div 2))" by (subst order_loop.simps) simp
    moreover have "2 ^ order_loop (n div 2) \<le> n div 2" using 1 [OF False] False by (cases "order_loop (n div 2)") auto
    ultimately show ?thesis using 1 [OF False] by simp linarith
  qed
qed

text \<open>
  The order computed for a size is the smallest power of two of pages that holds it.
\<close>

theorem get_order_least:
  assumes "sz \<noteq> 0"
  shows "unat sz \<le> PAGE_SIZE * 2 ^ get_order sz \<and>
     (\<forall>k < get_order sz. PAGE_SIZE * 2 ^ k < unat sz)"
proof -
  let ?n = "unat (sz - 1) div 2048"
  have ord: "get_order sz = order_loop ?n"
    by (simp add: get_order_def drop_bit_eq_div unat_div)
  have sz: "unat sz = Suc (unat (sz - 1))" using assms by (simp add: unat_minus_one unat_gt_0)
  note b = order_loop_bounds [of ?n, folded ord]
  have up: "unat sz \<le> PAGE_SIZE * 2 ^ get_order sz" using b sz unfolding PAGE_SIZE_def by linarith
  have "PAGE_SIZE * 2 ^ k < unat sz" if k: "k < get_order sz" for k
  proof -
    have "(2 :: nat) * 2 ^ k \<le> 2 ^ get_order sz" using k power_increasing [of "Suc k" "get_order sz" "2 :: nat"] by simp
    then have "2 * 2 ^ k \<le> ?n" using b k by linarith
    then show ?thesis using sz unfolding PAGE_SIZE_def by linarith
  qed
  then show ?thesis using up by blast
qed

theorem get_order_least_witness: "4097 \<le> PAGE_SIZE * 2 ^ get_order 4097 \<and> get_order 4097 = 1"
proof -
  have "get_order 4097 = 1" by (simp add: get_order_def order_loop.simps)
  then show ?thesis using get_order_least [of 4097] by simp
qed

section \<open>Deferred frees\<close>

lemma slob_free_callbacks: "slob_free b sz s = Some s' \<Longrightarrow> rcu_callbacks s' = rcu_callbacks s"
  by (auto simp: slob_free_def Let_def slob_free_pages_def clear_slob_page_free_def set_slob_page_free_def
      split: if_splits bind_splits)

lemma slob_owned_callbacks: "slob_owned extra s bl A \<Longrightarrow> slob_owned extra (s\<lparr>rcu_callbacks := cs\<rparr>) bl A"
  by (simp add: slob_owned_def slob_inv_def page_ok_def slab_units_def)

text \<open>The objects in the queue, with the size at which they will be freed.\<close>

definition queued :: "(nat \<times> u32) list \<Rightarrow> (nat \<times> nat) list" where
  "queued cs = map (\<lambda>(b, sz). (b, unat sz)) cs"

lemma queued_simps [simp]: "queued [] = []" "queued ((b, sz) # cs) = (b, unat sz) # queued cs"
  by (simp_all add: queued_def)

lemma rcu_run_frees:
  assumes "slob_owned extra s bl A" "distinct (queued (rcu_callbacks s))" "set (queued (rcu_callbacks s)) \<subseteq> A"
    "\<forall>(b, sz) \<in> set (queued (rcu_callbacks s)). sz < PAGE_SIZE"
  shows "\<exists>s' bl'. rcu_run (length (rcu_callbacks s)) s = Some s' \<and> rcu_callbacks s' = [] \<and>
     slob_owned extra s' bl' (A - set (queued (rcu_callbacks s)))"
  using assms
proof (induction "rcu_callbacks s" arbitrary: s bl A)
  case Nil
  then show ?case by auto
next
  case (Cons c cs)
  obtain b sz where c: "c = (b, sz)" by fastforce
  have cb: "rcu_callbacks s = (b, sz) # cs" using Cons.hyps(2) c by simp
  let ?s = "s\<lparr>rcu_callbacks := cs\<rparr>"
  have own: "slob_owned extra ?s bl A" using slob_owned_callbacks [OF Cons.prems(1)] .
  have x: "(b, unat sz) \<in> A" "unat sz < PAGE_SIZE" "(b, unat sz) \<notin> set (queued cs)"
    using Cons.prems(2,3,4) by (auto simp: cb)
  from slob_owned_free [OF own x(1)] obtain s1 bl1 where
    f: "slob_free b (unat sz) ?s = Some s1" "slob_owned extra s1 bl1 (A - {(b, unat sz)})" by blast
  have cs: "rcu_callbacks s1 = cs" using slob_free_callbacks [OF f(1)] by simp
  have step: "kmem_rcu_free s = Some s1" using f(1) x(2) by (simp add: kmem_rcu_free_def cb kmem_cache_free_block_def)
  have "distinct (queued (rcu_callbacks s1))" "set (queued (rcu_callbacks s1)) \<subseteq> A - {(b, unat sz)}"
    "\<forall>(b, sz) \<in> set (queued (rcu_callbacks s1)). sz < PAGE_SIZE"
    using Cons.prems(2,3,4) x(3) by (auto simp: cs cb)
  from Cons.hyps(1) [OF cs [symmetric] f(2) this] obtain s' bl' where
    r: "rcu_run (length cs) s1 = Some s'" "rcu_callbacks s' = []"
      "slob_owned extra s' bl' (A - {(b, unat sz)} - set (queued cs))"
    unfolding cs by blast
  have "A - {(b, unat sz)} - set (queued cs) = A - set (queued (rcu_callbacks s))"
    by (auto simp: cb)
  then show ?case using r step by (auto simp: cb)
qed

text \<open>
  The frees that a cache defers until after a grace period are all carried out by the time
  \<^verbatim>\<open>rcu_barrier\<close> returns, which it does: exactly the queued objects are gone, so that destroying
  the cache afterwards leaves none behind.
\<close>

theorem rcu_barrier_frees_all:
  assumes "slob_owned extra s bl A" "distinct (queued (rcu_callbacks s))" "set (queued (rcu_callbacks s)) \<subseteq> A"
    "\<forall>(b, sz) \<in> set (queued (rcu_callbacks s)). sz < PAGE_SIZE"
  shows "\<exists>s' bl'. rcu_barrier s = Some s' \<and> rcu_callbacks s' = [] \<and>
     slob_owned extra s' bl' (A - set (queued (rcu_callbacks s)))"
  using rcu_run_frees [OF assms] by (simp add: rcu_barrier_def)

theorem rcu_barrier_frees_all_witness:
  "\<exists>extra s bl s' bl'. slob_owned extra s bl {(10240, 10)} \<and> rcu_callbacks s = [(10240, 10)] \<and> rcu_barrier s = Some s' \<and>
     rcu_callbacks s' = [] \<and> slob_owned extra s' bl' {}"
proof -
  obtain s where s: "slob_reach s {(10240, 10)}" using sample_one by blast
  obtain extra bl where own: "slob_owned extra s bl {(10240, 10)}" using slob_reach_owned [OF s] by blast
  let ?s = "s\<lparr>rcu_callbacks := [(10240, 10)]\<rparr>"
  have "slob_owned extra ?s bl {(10240, 10)}" by (rule slob_owned_callbacks [OF own])
  moreover from rcu_barrier_frees_all [OF this] obtain s' bl' where
    "rcu_barrier ?s = Some s'" "rcu_callbacks s' = []" "slob_owned extra s' bl' {}" by (auto simp: PAGE_SIZE_def)
  moreover have "rcu_callbacks ?s = [(10240, 10)]" by simp
  ultimately show ?thesis by blast
qed

end
