(* ===== verification/Limits.thy ===== *)
theory Limits
  imports Blk
begin

text \<open>
  Queue limits: \<^verbatim>\<open>block/blk-settings.c\<close>, the accessors of \<^verbatim>\<open>include/linux/blkdev.h\<close> and the two
  number functions of \<^verbatim>\<open>lib/gcd.c\<close> and \<^verbatim>\<open>lib/lcm.c\<close> that the stacking of limits uses. All members
  keep the width they have in C on a 32 bit machine, so every computation wraps where the code
  wraps. Function pointers are numbers.
\<close>

section \<open>Greatest common divisor and least common multiple\<close>

text \<open>
  The loop of \<^verbatim>\<open>gcd\<close>; \<open>None\<close> is the fault of a remainder by zero.
\<close>

function gcd_loop :: "u32 \<Rightarrow> u32 \<Rightarrow> u32 option" where
  "gcd_loop a b =
     (if b = 0 then None
      else let r = a mod b in if r \<noteq> 0 then gcd_loop b r else Some b)"
  by pat_completeness auto

termination gcd_loop
proof (relation "measure (\<lambda>(a, b). unat b)")
  fix a b x :: u32
  assume "b \<noteq> 0" "x = a mod b" "x \<noteq> 0"
  then have "unat x < unat b" by (simp add: unat_mod unat_gt_0)
  then show "((b, x), (a, b)) \<in> measure (\<lambda>(a, b). unat b)" by simp
qed simp

declare gcd_loop.simps [simp del]

definition kgcd :: "u32 \<Rightarrow> u32 \<Rightarrow> u32 option" where
  "kgcd a b = (if a < b then gcd_loop b a else gcd_loop a b)"

definition klcm :: "u32 \<Rightarrow> u32 \<Rightarrow> u32 option" where
  "klcm a b =
     (if a \<noteq> 0 \<and> b \<noteq> 0 then do { g \<leftarrow> kgcd a b; Some ((a * b) div g) }
      else if b \<noteq> 0 then Some b
      else Some a)"

section \<open>Limits of a queue\<close>

record queue_limits =
  bounce_pfn :: u32
  seg_boundary_mask :: u32
  max_hw_sectors :: u32
  max_sectors :: u32
  max_segment_size :: u32
  physical_block_size :: u32
  alignment_offset :: u32
  io_min :: u32
  io_opt :: u32
  max_discard_sectors :: u32
  discard_granularity :: u32
  discard_alignment :: u32
  logical_block_size :: "16 word"
  max_segments :: "16 word"
  misaligned :: "8 word"
  discard_misaligned :: "8 word"
  no_cluster :: "8 word"
  discard_zeroes_data :: "8 word"

definition BLK_MAX_SEGMENTS :: "16 word" where "BLK_MAX_SEGMENTS = 128"
definition BLK_SAFE_MAX_SECTORS :: u32 where "BLK_SAFE_MAX_SECTORS = 255"
definition BLK_DEF_MAX_SECTORS :: u32 where "BLK_DEF_MAX_SECTORS = 1024"
definition BLK_MAX_SEGMENT_SIZE :: u32 where "BLK_MAX_SEGMENT_SIZE = 65536"
definition BLK_SEG_BOUNDARY_MASK :: u32 where "BLK_SEG_BOUNDARY_MASK = 0xFFFFFFFF"

definition BLK_BOUNCE_ANY :: "64 word" where "BLK_BOUNCE_ANY = - 1"

definition BLK_BOUNCE_HIGH :: "u32 \<Rightarrow> 64 word" where
  "BLK_BOUNCE_HIGH blk_max_low_pfn = push_bit 12 (ucast blk_max_low_pfn)"

definition PAGE_CACHE_SIZE :: u32 where "PAGE_CACHE_SIZE = 4096"

text \<open>The members of the queue that the settings touch.\<close>

record queue_settings =
  limits :: queue_limits
  nr_requests :: u32
  nr_congestion_on :: u32
  nr_congestion_off :: u32
  nr_batching :: u32
  qs_unplug_thresh :: int
  unplug_delay :: u32
  bounce_dma :: bool
  dma_alignment :: int
  dma_pad_mask :: u32
  dma_drain_needed :: "nat option"
  dma_drain_buffer :: nat
  dma_drain_size :: u32
  rq_timeout :: u32
  prep_rq_fn :: "nat option"
  merge_bvec_fn :: "nat option"
  softirq_done_fn :: "nat option"
  rq_timed_out_fn :: "nat option"
  lld_busy_fn :: "nat option"
  make_request_fn :: "nat option"
  queue_lock :: bool
  qs_cluster :: bool

section \<open>Setting limits\<close>

definition blk_queue_prep_rq :: "queue_settings \<Rightarrow> nat option \<Rightarrow> queue_settings" where
  "blk_queue_prep_rq q pfn = q\<lparr>prep_rq_fn := pfn\<rparr>"

definition blk_queue_merge_bvec :: "queue_settings \<Rightarrow> nat option \<Rightarrow> queue_settings" where
  "blk_queue_merge_bvec q mbfn = q\<lparr>merge_bvec_fn := mbfn\<rparr>"

definition blk_queue_softirq_done :: "queue_settings \<Rightarrow> nat option \<Rightarrow> queue_settings" where
  "blk_queue_softirq_done q fn = q\<lparr>softirq_done_fn := fn\<rparr>"

definition blk_queue_rq_timeout :: "queue_settings \<Rightarrow> u32 \<Rightarrow> queue_settings" where
  "blk_queue_rq_timeout q timeout = q\<lparr>rq_timeout := timeout\<rparr>"

definition blk_queue_rq_timed_out :: "queue_settings \<Rightarrow> nat option \<Rightarrow> queue_settings" where
  "blk_queue_rq_timed_out q fn = q\<lparr>rq_timed_out_fn := fn\<rparr>"

definition blk_queue_lld_busy :: "queue_settings \<Rightarrow> nat option \<Rightarrow> queue_settings" where
  "blk_queue_lld_busy q fn = q\<lparr>lld_busy_fn := fn\<rparr>"

definition blk_set_default_limits :: "queue_limits \<Rightarrow> queue_limits" where
  "blk_set_default_limits lim =
     lim\<lparr>max_segments := BLK_MAX_SEGMENTS, seg_boundary_mask := BLK_SEG_BOUNDARY_MASK,
       max_segment_size := BLK_MAX_SEGMENT_SIZE, max_sectors := BLK_DEF_MAX_SECTORS,
       max_hw_sectors := 0x7FFFFFFF, max_discard_sectors := 0, discard_granularity := 0,
       discard_alignment := 0, discard_misaligned := 0, discard_zeroes_data := - 1,
       logical_block_size := 512, physical_block_size := 512, io_min := 512,
       bounce_pfn := ucast (drop_bit 12 BLK_BOUNCE_ANY), alignment_offset := 0, io_opt := 0,
       misaligned := 0, no_cluster := 0\<rparr>"

definition blk_queue_max_hw_sectors :: "queue_settings \<Rightarrow> u32 \<Rightarrow> queue_settings" where
  "blk_queue_max_hw_sectors q n =
     (let n = (if push_bit 9 n < PAGE_CACHE_SIZE then push_bit (12 - 9) 1 else n)
      in q\<lparr>limits := (limits q)\<lparr>max_hw_sectors := n, max_sectors := min n BLK_DEF_MAX_SECTORS\<rparr>\<rparr>)"

definition blk_queue_max_discard_sectors :: "queue_settings \<Rightarrow> u32 \<Rightarrow> queue_settings" where
  "blk_queue_max_discard_sectors q n = q\<lparr>limits := (limits q)\<lparr>max_discard_sectors := n\<rparr>\<rparr>"

definition blk_queue_max_segments :: "queue_settings \<Rightarrow> 16 word \<Rightarrow> queue_settings" where
  "blk_queue_max_segments q n =
     (let n = (if n = 0 then 1 else n) in q\<lparr>limits := (limits q)\<lparr>max_segments := n\<rparr>\<rparr>)"

definition blk_queue_max_segment_size :: "queue_settings \<Rightarrow> u32 \<Rightarrow> queue_settings" where
  "blk_queue_max_segment_size q n =
     (let n = (if n < PAGE_CACHE_SIZE then PAGE_CACHE_SIZE else n)
      in q\<lparr>limits := (limits q)\<lparr>max_segment_size := n\<rparr>\<rparr>)"

text \<open>The last step of both block size settings.\<close>

definition raise_io_min :: "queue_limits \<Rightarrow> queue_limits" where
  "raise_io_min l = (if io_min l < physical_block_size l then l\<lparr>io_min := physical_block_size l\<rparr> else l)"

definition blk_queue_logical_block_size :: "queue_settings \<Rightarrow> 16 word \<Rightarrow> queue_settings" where
  "blk_queue_logical_block_size q sz =
     (let l = (limits q)\<lparr>logical_block_size := sz\<rparr>;
          l = (if physical_block_size l < ucast sz then l\<lparr>physical_block_size := ucast sz\<rparr> else l)
      in q\<lparr>limits := raise_io_min l\<rparr>)"

definition blk_queue_physical_block_size :: "queue_settings \<Rightarrow> 16 word \<Rightarrow> queue_settings" where
  "blk_queue_physical_block_size q sz =
     (let l = (limits q)\<lparr>physical_block_size := ucast sz\<rparr>;
          l = (if physical_block_size l < ucast (logical_block_size l)
               then l\<lparr>physical_block_size := ucast (logical_block_size l)\<rparr> else l)
      in q\<lparr>limits := raise_io_min l\<rparr>)"

definition blk_queue_alignment_offset :: "queue_settings \<Rightarrow> u32 \<Rightarrow> queue_settings" where
  "blk_queue_alignment_offset q offset =
     q\<lparr>limits := (limits q)\<lparr>alignment_offset := offset AND (physical_block_size (limits q) - 1),
       misaligned := 0\<rparr>\<rparr>"

definition blk_limits_io_min :: "queue_limits \<Rightarrow> u32 \<Rightarrow> queue_limits" where
  "blk_limits_io_min l n =
     (let l = l\<lparr>io_min := n\<rparr>;
          l = (if io_min l < ucast (logical_block_size l) then l\<lparr>io_min := ucast (logical_block_size l)\<rparr> else l)
      in raise_io_min l)"

definition blk_queue_io_min :: "queue_settings \<Rightarrow> u32 \<Rightarrow> queue_settings" where
  "blk_queue_io_min q n = q\<lparr>limits := blk_limits_io_min (limits q) n\<rparr>"

definition blk_limits_io_opt :: "queue_limits \<Rightarrow> u32 \<Rightarrow> queue_limits" where
  "blk_limits_io_opt l n = l\<lparr>io_opt := n\<rparr>"

definition blk_queue_io_opt :: "queue_settings \<Rightarrow> u32 \<Rightarrow> queue_settings" where
  "blk_queue_io_opt q n = q\<lparr>limits := blk_limits_io_opt (limits q) n\<rparr>"

definition blk_queue_dma_pad :: "queue_settings \<Rightarrow> u32 \<Rightarrow> queue_settings" where
  "blk_queue_dma_pad q m = q\<lparr>dma_pad_mask := m\<rparr>"

definition blk_queue_update_dma_pad :: "queue_settings \<Rightarrow> u32 \<Rightarrow> queue_settings" where
  "blk_queue_update_dma_pad q m = (if m > dma_pad_mask q then q\<lparr>dma_pad_mask := m\<rparr> else q)"

definition queue_max_segments :: "queue_settings \<Rightarrow> 16 word" where
  "queue_max_segments q = max_segments (limits q)"

definition EINVAL :: int where "EINVAL = 22"

definition blk_queue_dma_drain ::
    "queue_settings \<Rightarrow> nat option \<Rightarrow> nat \<Rightarrow> u32 \<Rightarrow> int \<times> queue_settings" where
  "blk_queue_dma_drain q needed buf sz =
     (if queue_max_segments q < 2 then (- EINVAL, q)
      else
        (let q = blk_queue_max_segments q (queue_max_segments q - 1)
         in (0, q\<lparr>dma_drain_needed := needed, dma_drain_buffer := buf, dma_drain_size := sz\<rparr>)))"

definition blk_queue_segment_boundary :: "queue_settings \<Rightarrow> u32 \<Rightarrow> queue_settings" where
  "blk_queue_segment_boundary q m =
     (let m = (if m < PAGE_CACHE_SIZE - 1 then PAGE_CACHE_SIZE - 1 else m)
      in q\<lparr>limits := (limits q)\<lparr>seg_boundary_mask := m\<rparr>\<rparr>)"

definition blk_queue_dma_alignment :: "queue_settings \<Rightarrow> int \<Rightarrow> queue_settings" where
  "blk_queue_dma_alignment q m = q\<lparr>dma_alignment := m\<rparr>"

text \<open>The comparison with \<^verbatim>\<open>PAGE_SIZE\<close> is unsigned, so a negative mask is a bug.\<close>

definition blk_queue_update_dma_alignment :: "queue_settings \<Rightarrow> int \<Rightarrow> queue_settings option" where
  "blk_queue_update_dma_alignment q m =
     (if (word_of_int m :: u32) > PAGE_CACHE_SIZE then None
      else Some (if m > dma_alignment q then q\<lparr>dma_alignment := m\<rparr> else q))"

definition blk_queue_bounce_limit :: "u32 \<Rightarrow> queue_settings \<Rightarrow> 64 word \<Rightarrow> queue_settings" where
  "blk_queue_bounce_limit blk_max_low_pfn q dma_mask =
     (let b_pfn = ucast (drop_bit 12 dma_mask);
          q = q\<lparr>bounce_dma := False\<rparr>;
          dma = (b_pfn < blk_max_low_pfn);
          q = q\<lparr>limits := (limits q)\<lparr>bounce_pfn := b_pfn\<rparr>\<rparr>
      in if dma then q\<lparr>bounce_dma := True, limits := (limits q)\<lparr>bounce_pfn := b_pfn\<rparr>\<rparr> else q)"

text \<open>The first comparison is with an unsigned number, the second is signed.\<close>

definition blk_queue_congestion_threshold :: "queue_settings \<Rightarrow> queue_settings" where
  "blk_queue_congestion_threshold q =
     (let n = nr_requests q;
          nr = n - n div 8 + 1;
          nr = (if nr > n then n else nr);
          q = q\<lparr>nr_congestion_on := nr\<rparr>;
          nr = n - n div 8 - n div 16 - 1;
          nr = (if sint nr < 1 then 1 else nr)
      in q\<lparr>nr_congestion_off := nr\<rparr>)"

definition HZ :: u32 where "HZ = 250"

definition msecs_to_jiffies :: "u32 \<Rightarrow> u32" where
  "msecs_to_jiffies m = (if bit m 31 then 0x3FFFFFFE else (m + (1000 div HZ) - 1) div (1000 div HZ))"

definition BLKDEV_MAX_RQ :: u32 where "BLKDEV_MAX_RQ = 128"

definition BLK_BATCH_REQ :: u32 where "BLK_BATCH_REQ = 32"

definition blk_queue_make_request :: "u32 \<Rightarrow> queue_settings \<Rightarrow> nat option \<Rightarrow> queue_settings" where
  "blk_queue_make_request blk_max_low_pfn q mfn =
     (let q = q\<lparr>nr_requests := BLKDEV_MAX_RQ, make_request_fn := mfn\<rparr>;
          q = blk_queue_dma_alignment q 511;
          q = blk_queue_congestion_threshold q;
          q = q\<lparr>nr_batching := BLK_BATCH_REQ, qs_unplug_thresh := 4, unplug_delay := msecs_to_jiffies 3\<rparr>;
          q = (if unplug_delay q = 0 then q\<lparr>unplug_delay := 1\<rparr> else q);
          q = q\<lparr>limits := blk_set_default_limits (limits q)\<rparr>;
          q = blk_queue_max_hw_sectors q BLK_SAFE_MAX_SECTORS;
          q = (if \<not> queue_lock q then q\<lparr>queue_lock := True\<rparr> else q)
      in blk_queue_bounce_limit blk_max_low_pfn q (BLK_BOUNCE_HIGH blk_max_low_pfn))"

section \<open>Stacking limits\<close>

definition min_not_zero :: "'a :: len word \<Rightarrow> 'a word \<Rightarrow> 'a word" where
  "min_not_zero l r = (if l = 0 then r else if r = 0 then l else min l r)"

definition queue_limit_alignment_offset :: "queue_limits \<Rightarrow> sector_t \<Rightarrow> u32" where
  "queue_limit_alignment_offset lim sec =
     (let granularity = max (physical_block_size lim) (io_min lim);
          alignment = ucast (push_bit 9 sec AND ucast (granularity - 1))
      in (granularity + alignment_offset lim - alignment) AND (granularity - 1))"

definition queue_limit_discard_alignment :: "queue_limits \<Rightarrow> sector_t \<Rightarrow> u32" where
  "queue_limit_discard_alignment lim sec =
     (let alignment = ucast (push_bit 9 sec AND ucast (discard_granularity lim - 1))
      in (discard_granularity lim + discard_alignment lim - alignment) AND (discard_granularity lim - 1))"

definition queue_alignment_offset :: "queue_settings \<Rightarrow> int" where
  "queue_alignment_offset q = (if misaligned (limits q) \<noteq> 0 then - 1 else sint (alignment_offset (limits q)))"

text \<open>The limits that are combined by taking the smaller one.\<close>

definition stack_minima :: "queue_limits \<Rightarrow> queue_limits \<Rightarrow> queue_limits" where
  "stack_minima t b =
     t\<lparr>max_sectors := min_not_zero (max_sectors t) (max_sectors b),
       max_hw_sectors := min_not_zero (max_hw_sectors t) (max_hw_sectors b),
       bounce_pfn := min_not_zero (bounce_pfn t) (bounce_pfn b),
       seg_boundary_mask := min_not_zero (seg_boundary_mask t) (seg_boundary_mask b),
       max_segments := min_not_zero (max_segments t) (max_segments b),
       max_segment_size := min_not_zero (max_segment_size t) (max_segment_size b),
       misaligned := misaligned t OR misaligned b\<rparr>"

text \<open>A failed check marks the result and makes the function return -1.\<close>

definition mark_if :: "bool \<Rightarrow> queue_limits \<times> int \<Rightarrow> queue_limits \<times> int" where
  "mark_if c r = (if c then ((fst r)\<lparr>misaligned := 1\<rparr>, - 1) else r)"

text \<open>Whether intervals that start at the two offsets line up.\<close>

definition line_up :: "u32 \<Rightarrow> u32 \<Rightarrow> bool" where
  "line_up top_end bottom_end \<longleftrightarrow> max top_end bottom_end AND (min top_end bottom_end - 1) = 0"

definition stack_alignment :: "queue_limits \<Rightarrow> queue_limits \<Rightarrow> u32 \<Rightarrow> queue_limits \<times> int" where
  "stack_alignment t b alignment =
     (if alignment_offset t \<noteq> alignment then
        (let top_end = max (physical_block_size t) (io_min t) + alignment_offset t;
             bottom_end = max (physical_block_size b) (io_min b) + alignment
         in mark_if (\<not> line_up top_end bottom_end) (t, 0))
      else (t, 0))"

definition stack_sizes :: "queue_limits \<Rightarrow> queue_limits \<Rightarrow> queue_limits option" where
  "stack_sizes t b = do {
     opt \<leftarrow> klcm (io_opt t) (io_opt b);
     Some (t\<lparr>logical_block_size := max (logical_block_size t) (logical_block_size b),
             physical_block_size := max (physical_block_size t) (physical_block_size b),
             io_min := max (io_min t) (io_min b), io_opt := opt,
             no_cluster := no_cluster t OR no_cluster b,
             discard_zeroes_data := discard_zeroes_data t AND discard_zeroes_data b\<rparr>)
   }"

text \<open>The three checks that sizes are multiples of each other.\<close>

definition check_physical :: "queue_limits \<times> int \<Rightarrow> queue_limits \<times> int" where
  "check_physical r =
     (let t = fst r in
      if physical_block_size t AND (ucast (logical_block_size t) - 1) \<noteq> 0
      then mark_if True (t\<lparr>physical_block_size := ucast (logical_block_size t)\<rparr>, snd r) else r)"

definition check_io_min :: "queue_limits \<times> int \<Rightarrow> queue_limits \<times> int" where
  "check_io_min r =
     (let t = fst r in
      if io_min t AND (physical_block_size t - 1) \<noteq> 0
      then mark_if True (t\<lparr>io_min := physical_block_size t\<rparr>, snd r) else r)"

definition check_io_opt :: "queue_limits \<times> int \<Rightarrow> queue_limits \<times> int" where
  "check_io_opt r =
     (let t = fst r in
      if io_opt t AND (physical_block_size t - 1) \<noteq> 0
      then mark_if True (t\<lparr>io_opt := 0\<rparr>, snd r) else r)"

definition stack_offset :: "u32 \<Rightarrow> queue_limits \<times> int \<Rightarrow> (queue_limits \<times> int) option" where
  "stack_offset alignment r = do {
     let t = fst r;
     m \<leftarrow> klcm (alignment_offset t) alignment;
     let t = t\<lparr>alignment_offset := m AND (max (physical_block_size t) (io_min t) - 1)\<rparr>;
     Some (mark_if (alignment_offset t AND (ucast (logical_block_size t) - 1) \<noteq> 0) (t, snd r))
   }"

definition stack_discard :: "queue_limits \<Rightarrow> queue_limits \<Rightarrow> sector_t \<Rightarrow> queue_limits option" where
  "stack_discard t b start =
     (if discard_granularity b \<noteq> 0 then do {
        let alignment = queue_limit_discard_alignment b start;
        let t = (if discard_granularity t \<noteq> 0 \<and> discard_alignment t \<noteq> alignment \<and>
                    \<not> line_up (discard_granularity t + discard_alignment t) (discard_granularity b + alignment)
                 then t\<lparr>discard_misaligned := 1\<rparr> else t);
        m \<leftarrow> klcm (discard_alignment t) alignment;
        let t = t\<lparr>max_discard_sectors := min_not_zero (max_discard_sectors t) (max_discard_sectors b),
                  discard_granularity := max (discard_granularity t) (discard_granularity b)\<rparr>;
        Some (t\<lparr>discard_alignment := m AND (discard_granularity t - 1)\<rparr>)
      } else Some t)"

definition blk_stack_limits ::
    "queue_limits \<Rightarrow> queue_limits \<Rightarrow> sector_t \<Rightarrow> (int \<times> queue_limits) option" where
  "blk_stack_limits t b start = do {
     let t = stack_minima t b;
     let alignment = queue_limit_alignment_offset b start;
     let (t, ret) = stack_alignment t b alignment;
     t \<leftarrow> stack_sizes t b;
     let r = check_io_opt (check_io_min (check_physical (t, ret)));
     (t, ret) \<leftarrow> stack_offset alignment r;
     t \<leftarrow> stack_discard t b start;
     Some (ret, t)
   }"

definition blk_queue_stack_limits :: "queue_settings \<Rightarrow> queue_settings \<Rightarrow> queue_settings option" where
  "blk_queue_stack_limits t b = do {
     (ret, l) \<leftarrow> blk_stack_limits (limits t) (limits b) 0;
     let t = t\<lparr>limits := l\<rparr>;
     Some (if \<not> queue_lock t then t else if \<not> qs_cluster b then t\<lparr>qs_cluster := False\<rparr> else t)
   }"

text \<open>A block device is its queue and the first sector of the partition it stands for.\<close>

definition bdev_stack_limits ::
    "queue_limits \<Rightarrow> queue_settings \<Rightarrow> sector_t \<Rightarrow> sector_t \<Rightarrow> (int \<times> queue_limits) option" where
  "bdev_stack_limits t bq start_sect start = blk_stack_limits t (limits bq) (start + start_sect)"

definition disk_stack_limits ::
    "queue_settings \<Rightarrow> queue_settings \<Rightarrow> sector_t \<Rightarrow> sector_t \<Rightarrow> queue_settings option" where
  "disk_stack_limits t b start_sect offset = do {
     (ret, l) \<leftarrow> bdev_stack_limits (limits t) b start_sect (drop_bit 9 offset);
     let t = t\<lparr>limits := l\<rparr>;
     Some (if \<not> queue_lock t then t else if \<not> qs_cluster b then t\<lparr>qs_cluster := False\<rparr> else t)
   }"

section \<open>Number functions\<close>

lemma gcd_loop_correct: "b \<noteq> 0 \<Longrightarrow> \<exists>g. gcd_loop a b = Some g \<and> unat g = gcd (unat a) (unat b)"
proof (induction a b rule: gcd_loop.induct)
  case (1 a b)
  have red: "gcd (unat a) (unat b) = gcd (unat b) (unat (a mod b))"
    by (simp add: unat_mod gcd.commute gcd_red_nat [of "unat a"])
  show ?case
  proof (cases "a mod b = 0")
    case True
    then show ?thesis using "1.prems" red by (simp add: gcd_loop.simps)
  next
    case False
    then show ?thesis using "1.IH" [OF "1.prems" refl False False] "1.prems" red
      by (simp add: gcd_loop.simps [of a b] Let_def)
  qed
qed

lemma kgcd_correct:
  assumes "a \<noteq> 0" "b \<noteq> 0"
  shows "\<exists>g. kgcd a b = Some g \<and> unat g = gcd (unat a) (unat b)"
  using gcd_loop_correct [of a b] gcd_loop_correct [of b a] assms by (simp add: kgcd_def gcd.commute)

lemma klcm_total: "\<exists>m. klcm a b = Some m"
  using kgcd_correct [of a b] by (auto simp: klcm_def)

section \<open>Combining\<close>

text \<open>A limit that is no laxer than another one, where 0 stands for no limit.\<close>

definition within :: "'a :: len word \<Rightarrow> 'a word \<Rightarrow> bool" where
  "within x y \<longleftrightarrow> y = 0 \<or> (x \<noteq> 0 \<and> x \<le> y)"

lemma within_min: "within (min_not_zero x y) x" "within (min_not_zero x y) y"
  by (auto simp: within_def min_not_zero_def min_def)

lemma within_trans: "within x y \<Longrightarrow> within y z \<Longrightarrow> within x z"
  by (auto simp: within_def)

text \<open>A request that the first limits allow is allowed by the second.\<close>

definition limits_within :: "queue_limits \<Rightarrow> queue_limits \<Rightarrow> bool" where
  "limits_within l m \<longleftrightarrow> within (max_sectors l) (max_sectors m) \<and> within (max_hw_sectors l) (max_hw_sectors m) \<and>
     within (max_segments l) (max_segments m) \<and> within (max_segment_size l) (max_segment_size m) \<and>
     within (seg_boundary_mask l) (seg_boundary_mask m) \<and> within (bounce_pfn l) (bounce_pfn m)"

lemma limits_within_trans: "limits_within l m \<Longrightarrow> limits_within m n \<Longrightarrow> limits_within l n"
  unfolding limits_within_def by (elim conjE, intro conjI; erule (1) within_trans)

text \<open>Block sizes are powers of two, and a physical block is made of logical blocks.\<close>

definition sizes_ok :: "queue_limits \<Rightarrow> bool" where
  "sizes_ok l \<longleftrightarrow> (\<exists>i j. i \<le> j \<and> j < 32 \<and> unat (logical_block_size l) = 2 ^ i \<and> unat (physical_block_size l) = 2 ^ j)"

lemma and_pow2:
  assumes "unat (p :: u32) = 2 ^ j" "j < 32"
  shows "x AND (p - 1) = 0 \<longleftrightarrow> unat p dvd unat x"
proof -
  have "p = word_of_nat (unat p)" by simp
  also have "\<dots> = 2 ^ j" unfolding assms(1) by simp
  finally have "p = 2 ^ j" .
  then have "x AND (p - 1) = take_bit j x" by (simp add: take_bit_eq_mask mask_eq_exp_minus_1)
  moreover have "take_bit j x = 0 \<longleftrightarrow> unat (take_bit j x) = 0" by (simp add: unat_eq_zero)
  moreover have "unat (take_bit j x) = unat x mod 2 ^ j" by (simp only: unsigned_take_bit_eq take_bit_nat_def)
  ultimately show ?thesis using assms(1) by (simp add: dvd_eq_mod_eq_0)
qed

text \<open>What each step keeps.\<close>

definition same_minima :: "queue_limits \<Rightarrow> queue_limits \<Rightarrow> bool" where
  "same_minima l m \<longleftrightarrow> max_sectors l = max_sectors m \<and> max_hw_sectors l = max_hw_sectors m \<and>
     max_segments l = max_segments m \<and> max_segment_size l = max_segment_size m \<and>
     seg_boundary_mask l = seg_boundary_mask m \<and> bounce_pfn l = bounce_pfn m"

definition same_sizes :: "queue_limits \<Rightarrow> queue_limits \<Rightarrow> bool" where
  "same_sizes l m \<longleftrightarrow> logical_block_size l = logical_block_size m \<and> physical_block_size l = physical_block_size m \<and>
     io_min l = io_min m \<and> io_opt l = io_opt m"

text \<open>The result code and the mark tell whether a check has failed.\<close>

definition verdict :: "8 word \<Rightarrow> bool \<Rightarrow> queue_limits \<times> int \<Rightarrow> bool" where
  "verdict old failed r \<longleftrightarrow> snd r = (if failed then - 1 else 0) \<and> misaligned (fst r) = (if failed then 1 else old)"

text \<open>The intervals at which the two devices start do not line up.\<close>

definition offsets_differ :: "queue_limits \<Rightarrow> queue_limits \<Rightarrow> u32 \<Rightarrow> bool" where
  "offsets_differ t b alignment \<longleftrightarrow> alignment_offset t \<noteq> alignment \<and>
     \<not> line_up (max (physical_block_size t) (io_min t) + alignment_offset t) (max (physical_block_size b) (io_min b) + alignment)"

lemma stack_minima_within: "limits_within (stack_minima t b) t \<and> limits_within (stack_minima t b) b"
  by (simp add: limits_within_def stack_minima_def within_min)

lemma stack_alignment_spec:
  assumes "stack_alignment t b al = (t', ret)"
  shows "same_minima t' t" "same_sizes t' t" "alignment_offset t' = alignment_offset t"
    "verdict (misaligned t) (offsets_differ t b al) (t', ret)"
  using assms
  by (auto simp: stack_alignment_def mark_if_def same_minima_def same_sizes_def verdict_def offsets_differ_def Let_def split: if_splits)

lemma stack_sizes_spec:
  assumes "sizes_ok t" "sizes_ok b"
  shows "\<exists>t'. stack_sizes t b = Some t' \<and> sizes_ok t' \<and> same_minima t' t \<and> misaligned t' = misaligned t \<and>
     logical_block_size t' = max (logical_block_size t) (logical_block_size b) \<and>
     physical_block_size t' = max (physical_block_size t) (physical_block_size b) \<and>
     io_min t' = max (io_min t) (io_min b) \<and> klcm (io_opt t) (io_opt b) = Some (io_opt t') \<and>
     alignment_offset t' = alignment_offset t"
proof -
  obtain opt where "klcm (io_opt t) (io_opt b) = Some opt" using klcm_total by blast
  moreover obtain i j where t: "i \<le> j" "j < 32" "unat (logical_block_size t) = 2 ^ i" "unat (physical_block_size t) = 2 ^ j"
    using assms(1) by (auto simp: sizes_ok_def)
  moreover obtain k l where b: "k \<le> l" "l < 32" "unat (logical_block_size b) = 2 ^ k" "unat (physical_block_size b) = 2 ^ l"
    using assms(2) by (auto simp: sizes_ok_def)
  moreover have "unat (max (logical_block_size t) (logical_block_size b)) = 2 ^ max i k"
    "unat (max (physical_block_size t) (physical_block_size b)) = 2 ^ max j l"
    using t b by (simp_all add: max_def word_le_nat_alt)
  moreover have "max i k \<le> max j l" "max j l < 32" using t(1,2) b(1,2) by auto
  ultimately show ?thesis by (auto simp: stack_sizes_def same_minima_def sizes_ok_def)
qed

lemma sizes_ok_dvd:
  assumes "sizes_ok t"
  shows "physical_block_size t AND (ucast (logical_block_size t) - 1) = 0"
    "x AND (physical_block_size t - 1) = 0 \<longleftrightarrow> unat (physical_block_size t) dvd unat x"
    "x AND (ucast (logical_block_size t) - 1) = 0 \<longleftrightarrow> unat (logical_block_size t) dvd unat x"
proof -
  obtain i j where t: "i \<le> j" "j < 32" "unat (logical_block_size t) = 2 ^ i" "unat (physical_block_size t) = 2 ^ j"
    using assms by (auto simp: sizes_ok_def)
  have l: "unat (ucast (logical_block_size t) :: u32) = 2 ^ i" using t(1,2,3) by (simp add: unsigned_ucast_eq take_bit_nat_eq_self_iff)
  note pow = and_pow2 [OF l le_less_trans [OF t(1,2)]]
  show "physical_block_size t AND (ucast (logical_block_size t) - 1) = 0"
    unfolding pow l t(4) by (rule le_imp_power_dvd [OF t(1)])
  show "x AND (physical_block_size t - 1) = 0 \<longleftrightarrow> unat (physical_block_size t) dvd unat x"
    by (rule and_pow2 [OF t(4,2)])
  show "x AND (ucast (logical_block_size t) - 1) = 0 \<longleftrightarrow> unat (logical_block_size t) dvd unat x"
    unfolding pow l t(3) ..
qed

lemma checks_spec:
  assumes "sizes_ok t" "verdict old failed (t, ret)"
  shows "\<exists>t' ret'. check_io_opt (check_io_min (check_physical (t, ret))) = (t', ret') \<and> sizes_ok t' \<and>
     same_minima t' t \<and> logical_block_size t' = logical_block_size t \<and> physical_block_size t' = physical_block_size t \<and>
     io_min t' = (if unat (physical_block_size t) dvd unat (io_min t) then io_min t else physical_block_size t) \<and>
     io_opt t' = (if unat (physical_block_size t) dvd unat (io_opt t) then io_opt t else 0) \<and>
     alignment_offset t' = alignment_offset t \<and>
     verdict old (failed \<or> \<not> unat (physical_block_size t) dvd unat (io_min t) \<or> \<not> unat (physical_block_size t) dvd unat (io_opt t)) (t', ret')"
proof -
  have 1: "check_physical (t, ret) = (t, ret)" by (simp add: check_physical_def sizes_ok_dvd(1) [OF assms(1)])
  show ?thesis
    using assms unfolding 1
    by (auto simp: check_io_min_def check_io_opt_def mark_if_def Let_def sizes_ok_dvd(2) [OF assms(1)] sizes_ok_def same_minima_def verdict_def)
qed

lemma stack_offset_spec:
  assumes "sizes_ok t" "verdict old failed (t, ret)"
  shows "\<exists>t' ret' m. stack_offset al (t, ret) = Some (t', ret') \<and> sizes_ok t' \<and> same_sizes t' t \<and> same_minima t' t \<and>
     klcm (alignment_offset t) al = Some m \<and>
     alignment_offset t' = m AND (max (physical_block_size t) (io_min t) - 1) \<and>
     verdict old (failed \<or> \<not> unat (logical_block_size t) dvd unat (alignment_offset t')) (t', ret')"
proof -
  obtain m where "klcm (alignment_offset t) al = Some m" using klcm_total by blast
  then show ?thesis using assms
    by (auto simp: stack_offset_def mark_if_def sizes_ok_dvd(3) [OF assms(1)] sizes_ok_def same_sizes_def same_minima_def verdict_def Let_def)
qed

lemma stack_discard_spec:
  shows "\<exists>t'. stack_discard t b start = Some t' \<and> same_sizes t' t \<and> same_minima t' t \<and> misaligned t' = misaligned t \<and>
     alignment_offset t' = alignment_offset t"
proof -
  obtain m where "klcm (discard_alignment t) (queue_limit_discard_alignment b start) = Some m" using klcm_total by blast
  then show ?thesis by (auto simp: stack_discard_def same_sizes_def same_minima_def Let_def)
qed

lemma same_minima_within: "same_minima l m \<Longrightarrow> limits_within m n \<Longrightarrow> limits_within l n"
  by (simp add: same_minima_def limits_within_def)

text \<open>The combined sizes, and the failure of one of the checks on them.\<close>

definition stacked :: "queue_limits \<Rightarrow> queue_limits \<Rightarrow> u32 \<Rightarrow> queue_limits \<Rightarrow> bool" where
  "stacked t b alignment t' \<longleftrightarrow>
     (let phys = max (physical_block_size t) (physical_block_size b); small = max (io_min t) (io_min b)
      in logical_block_size t' = max (logical_block_size t) (logical_block_size b) \<and> physical_block_size t' = phys \<and>
         io_min t' = (if unat phys dvd unat small then small else phys) \<and>
         (\<exists>opt. klcm (io_opt t) (io_opt b) = Some opt \<and> io_opt t' = (if unat phys dvd unat opt then opt else 0)) \<and>
         (\<exists>m. klcm (alignment_offset t) alignment = Some m \<and> alignment_offset t' = m AND (max phys (io_min t') - 1)))"

definition stack_fails :: "queue_limits \<Rightarrow> queue_limits \<Rightarrow> u32 \<Rightarrow> queue_limits \<Rightarrow> bool" where
  "stack_fails t b alignment t' \<longleftrightarrow>
     (let phys = max (physical_block_size t) (physical_block_size b)
      in offsets_differ t b alignment \<or> \<not> unat phys dvd unat (max (io_min t) (io_min b)) \<or>
         (\<exists>opt. klcm (io_opt t) (io_opt b) = Some opt \<and> \<not> unat phys dvd unat opt) \<or>
         \<not> unat (max (logical_block_size t) (logical_block_size b)) dvd unat (alignment_offset t'))"

lemma blk_stack_limits_spec:
  assumes "sizes_ok t" "sizes_ok b"
  shows "\<exists>ret t'. blk_stack_limits t b start = Some (ret, t') \<and> sizes_ok t' \<and> limits_within t' t \<and> limits_within t' b \<and>
     stacked t b (queue_limit_alignment_offset b start) t' \<and>
     verdict (misaligned t OR misaligned b) (stack_fails t b (queue_limit_alignment_offset b start) t') (t', ret)"
proof -
  let ?t0 = "stack_minima t b" and ?al = "queue_limit_alignment_offset b start" and ?old = "misaligned t OR misaligned b"
  have 0: "sizes_ok ?t0" "misaligned ?t0 = ?old" "same_sizes ?t0 t" "alignment_offset ?t0 = alignment_offset t"
    using assms(1) by (simp_all add: stack_minima_def sizes_ok_def same_sizes_def)
  obtain t1 r1 where e1: "stack_alignment ?t0 b ?al = (t1, r1)" by fastforce
  note s1 = stack_alignment_spec [OF e1]
  have ok1: "sizes_ok t1" using s1(2) 0(1) by (simp add: sizes_ok_def same_sizes_def)
  have sz1: "same_sizes t1 t" "offsets_differ ?t0 b ?al = offsets_differ t b ?al"
    using s1(2) 0(3,4) by (simp_all add: same_sizes_def offsets_differ_def)
  from stack_sizes_spec [OF ok1 assms(2)] obtain t2 where e2: "stack_sizes t1 b = Some t2" "sizes_ok t2"
      "same_minima t2 t1" "misaligned t2 = misaligned t1"
      "logical_block_size t2 = max (logical_block_size t1) (logical_block_size b)"
      "physical_block_size t2 = max (physical_block_size t1) (physical_block_size b)"
      "io_min t2 = max (io_min t1) (io_min b)" "klcm (io_opt t1) (io_opt b) = Some (io_opt t2)"
      "alignment_offset t2 = alignment_offset t1" by blast
  have "verdict ?old (offsets_differ t b ?al) (t2, r1)" using s1(4) e2(4) 0(2) sz1(2) by (simp add: verdict_def)
  note checks = checks_spec [OF e2(2) this]
  then obtain t3 r3 failed where e3: "check_io_opt (check_io_min (check_physical (t2, r1))) = (t3, r3)" "sizes_ok t3" "same_minima t3 t2"
      "logical_block_size t3 = logical_block_size t2" "physical_block_size t3 = physical_block_size t2"
      "io_min t3 = (if unat (physical_block_size t2) dvd unat (io_min t2) then io_min t2 else physical_block_size t2)"
      "io_opt t3 = (if unat (physical_block_size t2) dvd unat (io_opt t2) then io_opt t2 else 0)"
      "alignment_offset t3 = alignment_offset t2" "verdict ?old failed (t3, r3)"
      "failed \<longleftrightarrow> offsets_differ t b ?al \<or> \<not> unat (physical_block_size t2) dvd unat (io_min t2) \<or> \<not> unat (physical_block_size t2) dvd unat (io_opt t2)"
    by blast
  from stack_offset_spec [OF e3(2,9), of ?al] obtain t4 r4 m where
    e4: "stack_offset ?al (t3, r3) = Some (t4, r4)" "sizes_ok t4" "same_sizes t4 t3" "same_minima t4 t3"
      "klcm (alignment_offset t3) ?al = Some m" "alignment_offset t4 = m AND (max (physical_block_size t3) (io_min t3) - 1)"
      "verdict ?old (failed \<or> \<not> unat (logical_block_size t3) dvd unat (alignment_offset t4)) (t4, r4)"
    by blast
  from stack_discard_spec [of t4 b start] obtain t5 where
    e5: "stack_discard t4 b start = Some t5" "same_sizes t5 t4" "same_minima t5 t4" "misaligned t5 = misaligned t4"
      "alignment_offset t5 = alignment_offset t4"
    by blast
  have run: "blk_stack_limits t b start = Some (r4, t5)"
    by (simp add: blk_stack_limits_def Let_def e1 e2(1) e3(1) e4(1) e5(1))
  have "same_minima t5 ?t0" using e5(3) e4(4) e3(3) e2(3) s1(1) by (simp add: same_minima_def)
  then have lim: "limits_within t5 t" "limits_within t5 b"
    using stack_minima_within [of t b] same_minima_within by blast+
  have ok5: "sizes_ok t5" using e5(2) e4(2) by (simp add: sizes_ok_def same_sizes_def)
  note same = sz1(1) e5(2) e4(3)
  have "stacked t b ?al t5"
    using same e2(5-9) e3(4-8) e4(5,6) e5(5) s1(3) 0(4) unfolding stacked_def Let_def by (simp add: same_sizes_def)
  moreover have "verdict ?old (stack_fails t b ?al t5) (t5, r4)"
    using same e2(5-8) e3(4,10) e4(7) e5(4,5) unfolding stack_fails_def Let_def by (simp add: same_sizes_def verdict_def)
  ultimately show ?thesis using run lim ok5 by blast
qed

section \<open>Properties\<close>


text \<open>The limits of a disk with 512 byte sectors and of one with 4096 byte sectors.\<close>

definition limits0 :: queue_limits where
  "limits0 = blk_set_default_limits \<lparr>bounce_pfn = 0, seg_boundary_mask = 0, max_hw_sectors = 0, max_sectors = 0,
     max_segment_size = 0, physical_block_size = 0, alignment_offset = 0, io_min = 0, io_opt = 0,
     max_discard_sectors = 0, discard_granularity = 0, discard_alignment = 0, logical_block_size = 0,
     max_segments = 0, misaligned = 0, discard_misaligned = 0, no_cluster = 0, discard_zeroes_data = 0\<rparr>"

definition limits4k :: queue_limits where
  "limits4k = limits0\<lparr>logical_block_size := 4096, physical_block_size := 4096, io_min := 4096, max_sectors := 128\<rparr>"

lemma sample_sizes: "sizes_ok limits0" "sizes_ok limits4k"
proof -
  show "sizes_ok limits0" unfolding sizes_ok_def
    by (intro exI [of _ 9]) (simp add: limits0_def blk_set_default_limits_def)
  show "sizes_ok limits4k" unfolding sizes_ok_def
    by (intro exI [of _ 12]) (simp add: limits4k_def)
qed


text \<open>All component devices of a stacked device, one after the other.\<close>

fun stack_all :: "queue_limits \<Rightarrow> (queue_limits \<times> sector_t) list \<Rightarrow> queue_limits option" where
  "stack_all t [] = Some t"
| "stack_all t ((b, start) # bs) = do { (ret, t) \<leftarrow> blk_stack_limits t b start; stack_all t bs }"

lemma stack_all_spec:
  "sizes_ok t \<Longrightarrow> \<forall>(b, start) \<in> set bs. sizes_ok b \<Longrightarrow>
     \<exists>t'. stack_all t bs = Some t' \<and> sizes_ok t' \<and> limits_within t' t \<and> (\<forall>(b, start) \<in> set bs. limits_within t' b)"
proof (induction bs arbitrary: t)
  case Nil
  then show ?case by (auto simp: limits_within_def within_def)
next
  case (Cons c bs)
  obtain b start where c: "c = (b, start)" by fastforce
  obtain ret t1 where s: "blk_stack_limits t b start = Some (ret, t1)" "sizes_ok t1" "limits_within t1 t" "limits_within t1 b"
    using blk_stack_limits_spec [OF Cons.prems(1), of b start] Cons.prems(2) c by auto
  obtain t' where "stack_all t1 bs = Some t'" "sizes_ok t'" "limits_within t' t1" "\<forall>(b, start) \<in> set bs. limits_within t' b"
    using Cons.IH [OF s(2)] Cons.prems(2) by auto
  then show ?case using s limits_within_trans by (auto simp: c)
qed

text \<open>
  C36. Whatever devices are stacked, in whatever order, a request that keeps to the resulting limits
  on its sectors, segments, segment size, segment boundary and bounce page keeps to those of every
  component device. A limit of zero stands for no limit.
\<close>

theorem stacked_limits_safe:
  assumes "sizes_ok t" "\<forall>(b, start) \<in> set bs. sizes_ok b" "(b, start) \<in> set bs"
  shows "\<exists>t'. stack_all t bs = Some t' \<and>
     (max_sectors b \<noteq> 0 \<longrightarrow> 0 < max_sectors t' \<and> max_sectors t' \<le> max_sectors b) \<and>
     (max_hw_sectors b \<noteq> 0 \<longrightarrow> 0 < max_hw_sectors t' \<and> max_hw_sectors t' \<le> max_hw_sectors b) \<and>
     (max_segments b \<noteq> 0 \<longrightarrow> 0 < max_segments t' \<and> max_segments t' \<le> max_segments b) \<and>
     (max_segment_size b \<noteq> 0 \<longrightarrow> 0 < max_segment_size t' \<and> max_segment_size t' \<le> max_segment_size b) \<and>
     (seg_boundary_mask b \<noteq> 0 \<longrightarrow> 0 < seg_boundary_mask t' \<and> seg_boundary_mask t' \<le> seg_boundary_mask b) \<and>
     (bounce_pfn b \<noteq> 0 \<longrightarrow> 0 < bounce_pfn t' \<and> bounce_pfn t' \<le> bounce_pfn b)"
proof -
  obtain t' where t': "stack_all t bs = Some t'" "\<forall>(b, start) \<in> set bs. limits_within t' b"
    using stack_all_spec [OF assms(1,2)] by blast
  have "limits_within t' b" using t'(2) assms(3) by blast
  then show ?thesis using t'(1) by (intro exI [of _ t']) (auto simp: limits_within_def within_def word_neq_0_conv)
qed

theorem stacked_limits_safe_witness:
  "\<exists>t'. stack_all limits0 [(limits0, 63), (limits4k, 0)] = Some t' \<and> max_sectors t' \<le> 128"
proof -
  have "max_sectors limits4k = 128" by (simp add: limits4k_def)
  then show ?thesis
    using stacked_limits_safe [OF sample_sizes(1), of "[(limits0, 63), (limits4k, 0)]" limits4k 0] sample_sizes by auto
qed

text \<open>
  C37. \<^verbatim>\<open>lcm\<close> always returns. Of two numbers that are not zero it computes the least common multiple
  exactly if their product fits in 32 bits; beyond that the product wraps before it is divided by
  the greatest common divisor. If a number is zero the result is the other one.
\<close>

theorem klcm_correct:
  "\<exists>m. klcm a b = Some m \<and>
     (if a = 0 then m = b else if b = 0 then m = a
      else unat m = (unat a * unat b mod 2 ^ 32) div gcd (unat a) (unat b) \<and>
           (unat m = lcm (unat a) (unat b) \<longleftrightarrow> unat a * unat b < 2 ^ 32))"
proof (cases "a = 0 \<or> b = 0")
  case True
  then show ?thesis by (auto simp: klcm_def)
next
  case False
  then obtain g where g: "kgcd a b = Some g" "unat g = gcd (unat a) (unat b)" using kgcd_correct [of a b] by blast
  let ?x = "unat a * unat b" and ?g = "gcd (unat a) (unat b)"
  have m: "unat ((a * b) div g) = (?x mod 2 ^ 32) div ?g" by (simp add: unat_div g(2) unat_word_ariths)
  have "(?x mod 2 ^ 32) div ?g = lcm (unat a) (unat b) \<longleftrightarrow> ?x < 2 ^ 32"
  proof
    assume eq: "(?x mod 2 ^ 32) div ?g = lcm (unat a) (unat b)"
    have pos: "0 < ?g" "?g dvd ?x" using False by (simp_all add: unat_gt_0)
    have "?x = lcm (unat a) (unat b) * ?g" by (simp add: lcm_nat_def pos(2))
    also have "\<dots> \<le> ?x mod 2 ^ 32" unfolding eq [symmetric] by (simp add: div_times_less_eq_dividend)
    also have "\<dots> < 2 ^ 32" by simp
    finally show "?x < 2 ^ 32" .
  qed (simp add: lcm_nat_def)
  then show ?thesis using False g(1) m by (simp add: klcm_def)
qed

text \<open>The optimal I/O sizes of 64 KiB and 192 KiB are combined to 0.\<close>

theorem klcm_correct_witness: "klcm 0x10000 0x30000 = Some 0 \<and> (\<exists>m. klcm 12 18 = Some m \<and> unat m = 36)"
proof -
  have "lcm (12 :: nat) 18 = 36" by (simp add: lcm_nat_def gcd_non_0_nat)
  then show ?thesis using klcm_correct [of 12 18] klcm_correct [of "0x10000" "0x30000"] by (auto simp: unat_eq_zero)
qed

text \<open>
  The hard limit on the sectors of a request is at least one page, and the soft limit is the
  hard one or the default, whichever is smaller, for every value below \<open>2\<^sup>2\<^sup>3\<close>. The value \<open>2\<^sup>2\<^sup>3\<close> itself,
  which is 4 GiB, wraps to zero bytes in the test for too small a limit and is replaced by the
  minimum of 8 sectors.
\<close>

theorem blk_queue_max_hw_sectors_page:
  "(n < 0x800000 \<longrightarrow> max_hw_sectors (limits (blk_queue_max_hw_sectors q n)) = max 8 n \<and>
      max_sectors (limits (blk_queue_max_hw_sectors q n)) = min (max 8 n) BLK_DEF_MAX_SECTORS) \<and>
   max_hw_sectors (limits (blk_queue_max_hw_sectors q 0x800000)) = 8"
proof -
  have small: "push_bit 9 n < PAGE_CACHE_SIZE \<longleftrightarrow> n < 8" if n: "n < 0x800000"
  proof -
    have n': "unat n < 0x800000" using n by (simp add: word_less_nat_alt)
    have "unat (push_bit 9 n) = unat n * 512"
      using n' by (simp add: push_bit_eq_mult unat_mult_lem [THEN iffD1])
    then show ?thesis by (simp add: PAGE_CACHE_SIZE_def word_less_nat_alt)
  qed
  have "push_bit 9 (0x800000 :: u32) < PAGE_CACHE_SIZE" by (simp add: PAGE_CACHE_SIZE_def)
  then show ?thesis using small by (auto simp: blk_queue_max_hw_sectors_def Let_def max_def)
qed

theorem blk_queue_max_hw_sectors_page_witness:
  "\<exists>q. max_hw_sectors (limits (blk_queue_max_hw_sectors q 2)) = 8 \<and> max_sectors (limits (blk_queue_max_hw_sectors q 2)) = 8"
  using blk_queue_max_hw_sectors_page [of 2] by (simp add: BLK_DEF_MAX_SECTORS_def max_def min_def)

end
