(* ===== verification/Segments.thy ===== *)
theory Segments
  imports Limits Elevator
begin

text \<open>
  Segments and merges: \<^verbatim>\<open>block/blk-merge.c\<close> with the macros of \<^verbatim>\<open>include/linux/bio.h\<close> that it uses.
  A page is its frame number, and physical addresses have 32 bits. The scatterlist that a request
  is mapped to is an array that the driver supplies; a write past its end is the stop \<open>None\<close>. The
  settings of the queue, which the code reaches through the queue, are an argument.
\<close>

section \<open>Segments of bios\<close>

definition BIO_UPTODATE :: nat where "BIO_UPTODATE = 0"
definition BIO_SEG_VALID :: nat where "BIO_SEG_VALID = 3"
definition BIO_QUIET :: nat where "BIO_QUIET = 11"

definition bio_flagged :: "bio \<Rightarrow> nat \<Rightarrow> bool" where
  "bio_flagged b f \<longleftrightarrow> bi_flags b AND push_bit f 1 \<noteq> 0"

definition bio_has_data :: "bio \<Rightarrow> bool" where
  "bio_has_data b \<longleftrightarrow> bi_io_vec b \<noteq> []"

text \<open>The vectors that \<^verbatim>\<open>bio_for_each_segment\<close> visits.\<close>

definition bio_segs :: "bio \<Rightarrow> bio_vec list" where
  "bio_segs b = take (bi_vcnt b - bi_idx b) (drop (bi_idx b) (bi_io_vec b))"

definition rq_segs :: "request \<Rightarrow> bio_vec list" where
  "rq_segs r = concat (map bio_segs (bios r))"

definition bio_iovec_idx :: "bio \<Rightarrow> nat \<Rightarrow> bio_vec option" where
  "bio_iovec_idx b i = (if i < length (bi_io_vec b) then Some (bi_io_vec b ! i) else None)"

definition bvec_to_phys :: "bio_vec \<Rightarrow> u32" where
  "bvec_to_phys bv = push_bit 12 (word_of_nat (bv_page bv)) + bv_offset bv"

definition BIOVEC_PHYS_MERGEABLE :: "bio_vec \<Rightarrow> bio_vec \<Rightarrow> bool" where
  "BIOVEC_PHYS_MERGEABLE v1 v2 \<longleftrightarrow> bvec_to_phys v1 + bv_len v1 = bvec_to_phys v2"

definition BIO_SEG_BOUNDARY :: "u32 \<Rightarrow> u32 \<Rightarrow> u32 \<Rightarrow> bool" where
  "BIO_SEG_BOUNDARY addr1 addr2 m \<longleftrightarrow> addr1 OR m = (addr2 - 1) OR m"

definition BIOVEC_SEG_BOUNDARY :: "queue_settings \<Rightarrow> bio_vec \<Rightarrow> bio_vec \<Rightarrow> bool" where
  "BIOVEC_SEG_BOUNDARY qs b1 b2 =
     BIO_SEG_BOUNDARY (bvec_to_phys b1) (bvec_to_phys b2 + bv_len b2) (seg_boundary_mask (limits qs))"

text \<open>Whether a vector can be appended to a segment of the given size that ends with another one.\<close>

definition seg_fits :: "queue_settings \<Rightarrow> u32 \<Rightarrow> bio_vec \<Rightarrow> bio_vec \<Rightarrow> bool" where
  "seg_fits qs seg_size bvprv bv \<longleftrightarrow>
     \<not> (seg_size + bv_len bv > max_segment_size (limits qs)) \<and>
     BIOVEC_PHYS_MERGEABLE bvprv bv \<and> BIOVEC_SEG_BOUNDARY qs bvprv bv"

text \<open>
  The loop of \<^verbatim>\<open>__blk_recalc_rq_segments\<close>. Before the first vector \<open>highprv\<close> is set, so the previous
  vector is read only when there is one.
\<close>

record seg_state =
  nr_phys_segs :: u32
  cur_size :: u32
  cur_prv :: "bio_vec option"
  highprv :: bool
  front_size :: u32

definition recalc_step :: "queue_settings \<Rightarrow> seg_state \<Rightarrow> bio_vec \<Rightarrow> seg_state" where
  "recalc_step qs st bv =
     (let high = (word_of_nat (bv_page bv) > bounce_pfn (limits qs))
      in if \<not> (high \<or> highprv st) \<and> qs_cluster qs \<and>
            (case cur_prv st of Some prv \<Rightarrow> seg_fits qs (cur_size st) prv bv | None \<Rightarrow> False)
         then st\<lparr>cur_size := cur_size st + bv_len bv, cur_prv := Some bv\<rparr>
         else
           (let st = (if nr_phys_segs st = 1 \<and> cur_size st > front_size st
                      then st\<lparr>front_size := cur_size st\<rparr> else st)
            in st\<lparr>nr_phys_segs := nr_phys_segs st + 1, cur_prv := Some bv, cur_size := bv_len bv, highprv := high\<rparr>))"

definition recalc_init :: "u32 \<Rightarrow> seg_state" where
  "recalc_init front =
     \<lparr>nr_phys_segs = 0, cur_size = 0, cur_prv = None, highprv = True, front_size = front\<rparr>"

text \<open>\<^verbatim>\<open>__blk_recalc_rq_segments\<close> on a chain of bios, which it returns with the sizes of the first and last
  segment noted in the first and last bio.\<close>

definition recalc_rq_segments :: "queue_settings \<Rightarrow> bio list \<Rightarrow> u32 \<times> bio list" where
  "recalc_rq_segments qs bs =
     (case bs of
        [] \<Rightarrow> (0, [])
      | fbio # _ \<Rightarrow>
          (let st = foldl (recalc_step qs) (recalc_init (bi_seg_front_size fbio)) (concat (map bio_segs bs));
               st = (if nr_phys_segs st = 1 \<and> cur_size st > front_size st
                     then st\<lparr>front_size := cur_size st\<rparr> else st);
               bs = bs[0 := fbio\<lparr>bi_seg_front_size := front_size st\<rparr>];
               l = length bs - 1;
               bbio = bs ! l;
               bs = (if cur_size st > bi_seg_back_size bbio then bs[l := bbio\<lparr>bi_seg_back_size := cur_size st\<rparr>] else bs)
           in (nr_phys_segs st, bs)))"

definition blk_recalc_rq_segments :: "queue_settings \<Rightarrow> request \<Rightarrow> request" where
  "blk_recalc_rq_segments qs r =
     (case recalc_rq_segments qs (bios r) of (n, bs) \<Rightarrow> r\<lparr>nr_phys_segments := ucast n, bios := bs\<rparr>)"

definition blk_recount_segments :: "queue_settings \<Rightarrow> bio \<Rightarrow> bio" where
  "blk_recount_segments qs b =
     (case recalc_rq_segments qs [b] of
        (n, bs) \<Rightarrow> (hd bs)\<lparr>bi_phys_segments := n, bi_flags := bi_flags (hd bs) OR push_bit BIO_SEG_VALID 1\<rparr>)"

text \<open>The count is taken anew when it is not valid.\<close>

definition seg_valid :: "queue_settings \<Rightarrow> bio \<Rightarrow> bio" where
  "seg_valid qs b = (if \<not> bio_flagged b BIO_SEG_VALID then blk_recount_segments qs b else b)"

definition bio_phys_segments :: "queue_settings \<Rightarrow> bio \<Rightarrow> int \<times> bio" where
  "bio_phys_segments qs b = (let b = seg_valid qs b in (sint (bi_phys_segments b), b))"

definition blk_phys_contig_segment :: "queue_settings \<Rightarrow> bio \<Rightarrow> bio \<Rightarrow> bool option" where
  "blk_phys_contig_segment qs b nxt =
     (if \<not> qs_cluster qs then Some False
      else if bi_seg_back_size b + bi_seg_front_size nxt > max_segment_size (limits qs) then Some False
      else if \<not> bio_has_data b then Some True
      else do {
        e \<leftarrow> (if bi_vcnt b = 0 then None else bio_iovec_idx b (bi_vcnt b - 1));
        s \<leftarrow> bio_iovec_idx nxt (bi_idx nxt);
        Some (if \<not> BIOVEC_PHYS_MERGEABLE e s then False else BIOVEC_SEG_BOUNDARY qs e s)
      })"

section \<open>Mapping to a scatterlist\<close>

record scatterlist =
  sg_page :: nat
  sg_offset :: u32
  sg_length :: u32
  sg_last :: bool

record sg_state =
  sgl :: "scatterlist list"
  sg_cur :: "nat option"
  nsegs :: nat
  sg_prv :: "bio_vec option"

definition sg_set_page :: "scatterlist \<Rightarrow> nat \<Rightarrow> u32 \<Rightarrow> u32 \<Rightarrow> scatterlist" where
  "sg_set_page sg page len offset = sg\<lparr>sg_page := page, sg_offset := offset, sg_length := len\<rparr>"

text \<open>The next entry of the array, after the termination bit of the current one has been cleared.\<close>

definition sg_advance :: "sg_state \<Rightarrow> (nat \<times> scatterlist list) option" where
  "sg_advance st =
     (case sg_cur st of
        None \<Rightarrow> if sgl st = [] then None else Some (0, sgl st)
      | Some i \<Rightarrow>
          (let l = (sgl st)[i := (sgl st ! i)\<lparr>sg_last := False\<rparr>]
           in if Suc i < length l then Some (Suc i, l) else None))"

definition map_sg_step :: "queue_settings \<Rightarrow> sg_state \<Rightarrow> bio_vec \<Rightarrow> sg_state option" where
  "map_sg_step qs st bvec =
     (case (sg_prv st, sg_cur st) of
        (Some prv, Some i) \<Rightarrow>
          if qs_cluster qs \<and> seg_fits qs (sg_length (sgl st ! i)) prv bvec
          then Some (st\<lparr>sgl := (sgl st)[i := (sgl st ! i)\<lparr>sg_length := sg_length (sgl st ! i) + bv_len bvec\<rparr>],
                        sg_prv := Some bvec\<rparr>)
          else do {
            (j, l) \<leftarrow> sg_advance st;
            Some (st\<lparr>sgl := l[j := sg_set_page (l ! j) (bv_page bvec) (bv_len bvec) (bv_offset bvec)],
                     sg_cur := Some j, nsegs := nsegs st + 1, sg_prv := Some bvec\<rparr>)
          }
      | _ \<Rightarrow> do {
          (j, l) \<leftarrow> sg_advance st;
          Some (st\<lparr>sgl := l[j := sg_set_page (l ! j) (bv_page bvec) (bv_len bvec) (bv_offset bvec)],
                   sg_cur := Some j, nsegs := nsegs st + 1, sg_prv := Some bvec\<rparr>)
        })"

fun map_sg_loop :: "queue_settings \<Rightarrow> sg_state \<Rightarrow> bio_vec list \<Rightarrow> sg_state option" where
  "map_sg_loop qs st [] = Some st"
| "map_sg_loop qs st (bv # bvs) = do { st \<leftarrow> map_sg_step qs st bv; map_sg_loop qs st bvs }"

definition sg_init :: "scatterlist list \<Rightarrow> sg_state" where
  "sg_init l = \<lparr>sgl = l, sg_cur = None, nsegs = 0, sg_prv = None\<rparr>"

text \<open>
  The result is the number of entries, the array and what is added to \<^verbatim>\<open>rq->extra_len\<close>. The
  arguments \<open>needed\<close> and \<open>virt_to_page\<close> stand for the driver's \<^verbatim>\<open>dma_drain_needed\<close> and for the memory map;
  clearing the drain buffer is left out.
\<close>

definition blk_rq_map_sg ::
    "(request \<Rightarrow> bool) \<Rightarrow> (nat \<Rightarrow> nat) \<Rightarrow> queue_settings \<Rightarrow> request \<Rightarrow> scatterlist list \<Rightarrow>
     (nat \<times> scatterlist list \<times> u32) option" where
  "blk_rq_map_sg needed virt_to_page qs rq sglist = do {
     st \<leftarrow> map_sg_loop qs (sg_init sglist) (rq_segs rq);
     (st, extra) \<leftarrow>
       (if rq_flagged rq REQ_COPY_USER \<and> blk_rq_bytes rq AND dma_pad_mask qs \<noteq> 0 then
          (let pad_len = (dma_pad_mask qs AND NOT (blk_rq_bytes rq)) + 1
           in case sg_cur st of
                None \<Rightarrow> None
              | Some i \<Rightarrow> Some (st\<lparr>sgl := (sgl st)[i := (sgl st ! i)\<lparr>sg_length := sg_length (sgl st ! i) + pad_len\<rparr>]\<rparr>,
                               pad_len))
        else Some (st, 0));
     (st, extra) \<leftarrow>
       (if dma_drain_size qs \<noteq> 0 \<and> needed rq then
          (case sg_cur st of
             None \<Rightarrow> None
           | Some _ \<Rightarrow> do {
               (j, l) \<leftarrow> sg_advance st;
               Some (st\<lparr>sgl := l[j := sg_set_page (l ! j) (virt_to_page (dma_drain_buffer qs)) (dma_drain_size qs)
                                       (word_of_nat (dma_drain_buffer qs) AND (PAGE_CACHE_SIZE - 1))],
                        sg_cur := Some j, nsegs := nsegs st + 1\<rparr>, extra + dma_drain_size qs)
             })
        else Some (st, extra));
     Some (nsegs st,
           (case sg_cur st of None \<Rightarrow> sgl st | Some i \<Rightarrow> (sgl st)[i := (sgl st ! i)\<lparr>sg_last := True\<rparr>]),
           extra)
   }"

section \<open>Merging\<close>

definition blk_pc_request :: "request \<Rightarrow> bool" where
  "blk_pc_request r \<longleftrightarrow> cmd_type r = REQ_TYPE_BLOCK_PC"

text \<open>A refused merge marks the request and takes it out of the one-hit cache.\<close>

definition refuse_merge :: "'d request_queue \<Rightarrow> rqp \<Rightarrow> 'd request_queue" where
  "refuse_merge q rq =
     (let q = rq_upd rq (rq_set_flag REQ_NOMERGE) q
      in if last_merge q = Some rq then q\<lparr>last_merge := None\<rparr> else q)"

definition ll_new_hw_segment ::
    "queue_settings \<Rightarrow> 'd request_queue \<Rightarrow> rqp \<Rightarrow> bio \<Rightarrow> bool \<times> 'd request_queue \<times> bio" where
  "ll_new_hw_segment qs q rq b =
     (case bio_phys_segments qs b of (n, b) \<Rightarrow>
        if int (unat (nr_phys_segments (rqs q rq))) + n > int (unat (queue_max_segments qs))
        then (False, refuse_merge q rq, b)
        else (True, rq_upd rq (\<lambda>r. r\<lparr>nr_phys_segments := nr_phys_segments r + word_of_int n\<rparr>) q, b))"

text \<open>The limit is kept in an \<^verbatim>\<open>unsigned short\<close>.\<close>

definition merge_max_sectors :: "queue_settings \<Rightarrow> request \<Rightarrow> 16 word" where
  "merge_max_sectors qs r =
     (if blk_pc_request r then ucast (max_hw_sectors (limits qs)) else ucast (max_sectors (limits qs)))"

definition ll_back_merge_fn ::
    "queue_settings \<Rightarrow> 'd request_queue \<Rightarrow> rqp \<Rightarrow> bio \<Rightarrow> (bool \<times> 'd request_queue \<times> bio) option" where
  "ll_back_merge_fn qs q rq b =
     (if blk_rq_sectors (rqs q rq) + bio_sectors b > ucast (merge_max_sectors qs (rqs q rq))
      then Some (False, refuse_merge q rq, b)
      else if bios (rqs q rq) = [] then None
      else
        (let q = rq_upd rq (\<lambda>r. r\<lparr>bios := butlast (bios r) @ [seg_valid qs (last (bios r))]\<rparr>) q;
             b = seg_valid qs b
         in Some (ll_new_hw_segment qs q rq b)))"

definition ll_front_merge_fn ::
    "queue_settings \<Rightarrow> 'd request_queue \<Rightarrow> rqp \<Rightarrow> bio \<Rightarrow> (bool \<times> 'd request_queue \<times> bio) option" where
  "ll_front_merge_fn qs q rq b =
     (if blk_rq_sectors (rqs q rq) + bio_sectors b > ucast (merge_max_sectors qs (rqs q rq))
      then Some (False, refuse_merge q rq, b)
      else
        (let b = seg_valid qs b
         in if bios (rqs q rq) = [] then None
            else
              (let q = rq_upd rq (\<lambda>r. r\<lparr>bios := seg_valid qs (hd (bios r)) # tl (bios r)\<rparr>) q
               in Some (ll_new_hw_segment qs q rq b))))"

definition set_front_size :: "u32 \<Rightarrow> request \<Rightarrow> request" where
  "set_front_size n r = r\<lparr>bios := (hd (bios r))\<lparr>bi_seg_front_size := n\<rparr> # tl (bios r)\<rparr>"

definition set_back_size :: "u32 \<Rightarrow> request \<Rightarrow> request" where
  "set_back_size n r = r\<lparr>bios := butlast (bios r) @ [(last (bios r))\<lparr>bi_seg_back_size := n\<rparr>]\<rparr>"

definition ll_merge_requests_fn ::
    "queue_settings \<Rightarrow> 'd request_queue \<Rightarrow> rqp \<Rightarrow> rqp \<Rightarrow> (bool \<times> 'd request_queue) option" where
  "ll_merge_requests_fn qs q rq nxt =
     (let r = rqs q rq; n = rqs q nxt
      in if bios r = [] \<or> bios n = [] then None
         else
           (let seg_size = bi_seg_back_size (last (bios r)) + bi_seg_front_size (hd (bios n))
            in if special r \<noteq> None \<or> special n \<noteq> None then Some (False, q)
               else if blk_rq_sectors r + blk_rq_sectors n > max_sectors (limits qs) then Some (False, q)
               else do {
                 let total = int (unat (nr_phys_segments r)) + int (unat (nr_phys_segments n));
                 contig \<leftarrow> blk_phys_contig_segment qs (last (bios r)) (hd (bios n));
                 let (total, q) =
                   (if contig then
                      (let q = (if nr_phys_segments r = 1 then rq_upd rq (set_front_size seg_size) q else q);
                           q = (if nr_phys_segments n = 1 then rq_upd nxt (set_back_size seg_size) q else q)
                       in (total - 1, q))
                    else (total, q));
                 if total > int (unat (queue_max_segments qs)) then Some (False, q)
                 else Some (True, rq_upd rq (\<lambda>r. r\<lparr>nr_phys_segments := word_of_int total\<rparr>) q)
               }))"

definition REQ_FAILFAST_MASK :: u32 where
  "REQ_FAILFAST_MASK = REQ REQ_FAILFAST_DEV OR REQ REQ_FAILFAST_TRANSPORT OR REQ REQ_FAILFAST_DRIVER"

definition blk_rq_set_mixed_merge :: "request \<Rightarrow> request" where
  "blk_rq_set_mixed_merge r =
     (let ff = cmd_flags r AND REQ_FAILFAST_MASK
      in if rq_flagged r REQ_MIXED_MERGE then r
         else rq_set_flag REQ_MIXED_MERGE (r\<lparr>bios := map (\<lambda>b. b\<lparr>bi_rw := bi_rw b OR ff\<rparr>) (bios r)\<rparr>))"

definition IOPRIO_PRIO_CLASS :: "16 word \<Rightarrow> 16 word" where
  "IOPRIO_PRIO_CLASS p = drop_bit 13 p"

definition ioprio_best :: "16 word \<Rightarrow> 16 word \<Rightarrow> 16 word" where
  "ioprio_best aprio bprio =
     (let aclass = IOPRIO_PRIO_CLASS aprio;
          bclass = IOPRIO_PRIO_CLASS bprio;
          aclass = (if aclass = 0 then 2 else aclass);
          bclass = (if bclass = 0 then 2 else bclass)
      in if aclass = bclass then min aprio bprio
         else if aclass > bclass then bprio
         else aprio)"

end
