(* ===== verification/Segments_Props.thy ===== *)
theory Segments_Props
  imports Segments
begin

text \<open>
  The scatterlist that a request is mapped to has at most as many entries as segments were counted,
  and covers the memory of the request byte by byte. Merges keep to the limits of the queue.
\<close>

section \<open>Bytes\<close>

definition addr_bytes :: "u32 \<Rightarrow> u32 \<Rightarrow> u32 list" where
  "addr_bytes a n = map (\<lambda>i. a + word_of_nat i) [0..<unat n]"

definition bvec_bytes :: "bio_vec \<Rightarrow> u32 list" where
  "bvec_bytes bv = addr_bytes (bvec_to_phys bv) (bv_len bv)"

definition sg_start :: "scatterlist \<Rightarrow> u32" where
  "sg_start sg = push_bit 12 (word_of_nat (sg_page sg)) + sg_offset sg"

definition sg_bytes :: "scatterlist \<Rightarrow> u32 list" where
  "sg_bytes sg = addr_bytes (sg_start sg) (sg_length sg)"

definition bytes_of :: "bio_vec list \<Rightarrow> nat" where
  "bytes_of bvs = (\<Sum>bv \<leftarrow> bvs. unat (bv_len bv))"

lemma bytes_of_simps [simp]:
  "bytes_of [] = 0" "bytes_of (bv # bvs) = unat (bv_len bv) + bytes_of bvs"
  "bytes_of (xs @ ys) = bytes_of xs + bytes_of ys"
  by (simp_all add: bytes_of_def)

lemma addr_bytes_append:
  assumes "unat m + unat n < 2 ^ 32"
  shows "addr_bytes a (m + n) = addr_bytes a m @ addr_bytes (a + m) n"
proof -
  have len: "unat (m + n) = unat m + unat n" using assms by (simp add: unat_add_lem [THEN iffD1])
  show ?thesis
  proof (rule nth_equalityI)
    fix i assume i: "i < length (addr_bytes a (m + n))"
    show "addr_bytes a (m + n) ! i = (addr_bytes a m @ addr_bytes (a + m) n) ! i"
    proof (cases "i < unat m")
      case True
      then show ?thesis using i by (simp add: addr_bytes_def nth_append)
    next
      case False
      then have "word_of_nat i = word_of_nat (unat m) + (word_of_nat (i - unat m) :: u32)"
        unfolding of_nat_add [symmetric] by simp
      then have "word_of_nat i = m + (word_of_nat (i - unat m) :: u32)" by simp
      then show ?thesis using i False by (simp add: addr_bytes_def nth_append len add.assoc)
    qed
  qed (simp add: addr_bytes_def len)
qed

section \<open>Counting and mapping in step\<close>

text \<open>
  Behind every vector the mapper has used fewer entries than segments were counted, or equally many
  with a shorter current one.
\<close>

definition sg_rel :: "bio_vec list \<Rightarrow> seg_state \<Rightarrow> sg_state \<Rightarrow> bool" where
  "sg_rel bs st ms \<longleftrightarrow>
     (if bs = [] then nr_phys_segs st = 0 \<and> highprv st \<and> cur_prv st = None \<and>
        sg_cur ms = None \<and> nsegs ms = 0 \<and> sg_prv ms = None
      else \<exists>i. sg_cur ms = Some i \<and> nsegs ms = Suc i \<and> i < length (sgl ms) \<and>
        sg_prv ms = Some (last bs) \<and> cur_prv st = Some (last bs) \<and>
        (nsegs ms < unat (nr_phys_segs st) \<or>
         nsegs ms = unat (nr_phys_segs st) \<and> sg_length (sgl ms ! i) \<le> cur_size st) \<and>
        unat (cur_size st) \<le> bytes_of bs \<and> unat (sg_length (sgl ms ! i)) \<le> bytes_of bs \<and>
        unat (nr_phys_segs st) \<le> length bs \<and>
        sg_start (sgl ms ! i) + sg_length (sgl ms ! i) = bvec_to_phys (last bs) + bv_len (last bs) \<and>
        (\<forall>k < i. \<not> sg_last (sgl ms ! k)) \<and>
        concat (map sg_bytes (take (Suc i) (sgl ms))) = concat (map bvec_bytes bs))"

text \<open>The two ways a step of the counter can go.\<close>

lemma recalc_step_cases:
  assumes "unat (nr_phys_segs st) < 2 ^ 32 - 1"
  obtains (join) prv where "cur_prv st = Some prv" "qs_cluster qs" "seg_fits qs (cur_size st) prv bv"
      "nr_phys_segs (recalc_step qs st bv) = nr_phys_segs st"
      "cur_size (recalc_step qs st bv) = cur_size st + bv_len bv" "cur_prv (recalc_step qs st bv) = Some bv"
      "\<not> highprv st"
    | (new) "unat (nr_phys_segs (recalc_step qs st bv)) = unat (nr_phys_segs st) + 1"
      "cur_size (recalc_step qs st bv) = bv_len bv" "cur_prv (recalc_step qs st bv) = Some bv"
proof -
  have "unat (nr_phys_segs st + 1) = unat (nr_phys_segs st) + 1"
    using assms by (simp add: unat_add_lem [THEN iffD1])
  then have n: "unat (1 + nr_phys_segs st) = unat (nr_phys_segs st) + 1" by (simp add: add.commute)
  let ?high = "word_of_nat (bv_page bv) > bounce_pfn (limits qs)"
  show thesis
  proof (cases "\<not> (?high \<or> highprv st) \<and> qs_cluster qs \<and>
      (case cur_prv st of Some prv \<Rightarrow> seg_fits qs (cur_size st) prv bv | None \<Rightarrow> False)")
    case True
    then obtain prv where "cur_prv st = Some prv" "seg_fits qs (cur_size st) prv bv" by (cases "cur_prv st") auto
    then show thesis using True join by (simp add: recalc_step_def)
  next
    case False
    show thesis by (rule new) (use False n in \<open>simp_all only: recalc_step_def Let_def if_False\<close>, simp_all add: add.commute)
  qed
qed

lemma recalc_mono:
  "unat (nr_phys_segs st) + length bvs < 2 ^ 32 - 1 \<Longrightarrow>
     unat (nr_phys_segs st) \<le> unat (nr_phys_segs (foldl (recalc_step qs) st bvs))"
proof (induction bvs arbitrary: st)
  case (Cons bv bvs)
  have lt: "unat (nr_phys_segs st) < 2 ^ 32 - 1" using Cons.prems by simp
  have "unat (nr_phys_segs st) \<le> unat (nr_phys_segs (recalc_step qs st bv)) \<and>
      unat (nr_phys_segs (recalc_step qs st bv)) \<le> unat (nr_phys_segs st) + 1"
    by (rule recalc_step_cases [OF lt, of qs bv]) auto
  then show ?case using Cons.IH [of "recalc_step qs st bv"] Cons.prems by simp
qed simp

text \<open>Starting an entry for a vector.\<close>

definition sg_new :: "sg_state \<Rightarrow> bio_vec \<Rightarrow> sg_state option" where
  "sg_new st bv = do {
     (j, l) \<leftarrow> sg_advance st;
     Some (st\<lparr>sgl := l[j := sg_set_page (l ! j) (bv_page bv) (bv_len bv) (bv_offset bv)],
              sg_cur := Some j, nsegs := nsegs st + 1, sg_prv := Some bv\<rparr>)
   }"

definition sg_join :: "sg_state \<Rightarrow> nat \<Rightarrow> bio_vec \<Rightarrow> sg_state" where
  "sg_join st i bv =
     st\<lparr>sgl := (sgl st)[i := (sgl st ! i)\<lparr>sg_length := sg_length (sgl st ! i) + bv_len bv\<rparr>], sg_prv := Some bv\<rparr>"

lemma map_sg_step_eq:
  "map_sg_step qs st bv =
     (case (sg_prv st, sg_cur st) of
        (Some prv, Some i) \<Rightarrow>
          if qs_cluster qs \<and> seg_fits qs (sg_length (sgl st ! i)) prv bv then Some (sg_join st i bv) else sg_new st bv
      | _ \<Rightarrow> sg_new st bv)"
  unfolding map_sg_step_def sg_new_def sg_join_def ..

lemma sg_new_first:
  assumes "sg_rel [] st ms" "0 < length (sgl ms)"
  shows "\<exists>ms'. map_sg_step qs ms bv = Some ms' \<and> sg_cur ms' = Some 0 \<and> nsegs ms' = 1 \<and> sg_prv ms' = Some bv \<and>
     length (sgl ms') = length (sgl ms) \<and> sg_length (sgl ms' ! 0) = bv_len bv \<and>
     sg_start (sgl ms' ! 0) = bvec_to_phys bv \<and> concat (map sg_bytes (take 1 (sgl ms'))) = bvec_bytes bv"
proof -
  have "sg_advance ms = Some (0, sgl ms)" using assms by (simp add: sg_rel_def sg_advance_def)
  moreover obtain sg rest where "sgl ms = sg # rest" using assms(2) by (cases "sgl ms") auto
  ultimately show ?thesis using assms(1)
    by (simp add: map_sg_step_eq sg_rel_def sg_new_def sg_set_page_def sg_start_def sg_bytes_def bvec_bytes_def bvec_to_phys_def)
qed

lemma sg_new_next:
  assumes cur: "sg_cur ms = Some i" "nsegs ms = Suc i" and room: "Suc i < length (sgl ms)"
    and marks: "\<forall>k < i. \<not> sg_last (sgl ms ! k)"
    and cover: "concat (map sg_bytes (take (Suc i) (sgl ms))) = bytes"
  shows "\<exists>ms'. sg_new ms bv = Some ms' \<and> sg_cur ms' = Some (Suc i) \<and> nsegs ms' = Suc (Suc i) \<and> sg_prv ms' = Some bv \<and>
     length (sgl ms') = length (sgl ms) \<and> sg_length (sgl ms' ! Suc i) = bv_len bv \<and>
     sg_start (sgl ms' ! Suc i) = bvec_to_phys bv \<and> (\<forall>k < Suc i. \<not> sg_last (sgl ms' ! k)) \<and>
     concat (map sg_bytes (take (Suc (Suc i)) (sgl ms'))) = bytes @ bvec_bytes bv"
proof -
  let ?l = "(sgl ms)[i := (sgl ms ! i)\<lparr>sg_last := False\<rparr>]"
  let ?sg = "sg_set_page (?l ! Suc i) (bv_page bv) (bv_len bv) (bv_offset bv)"
  let ?l' = "?l[Suc i := ?sg]"
  have run: "sg_new ms bv = Some (ms\<lparr>sgl := ?l', sg_cur := Some (Suc i), nsegs := nsegs ms + 1, sg_prv := Some bv\<rparr>)"
    using cur room by (simp add: sg_new_def sg_advance_def Let_def)
  have i: "i < length (sgl ms)" using room by simp
  have "take (Suc i) ?l' = (take (Suc i) (sgl ms))[i := (sgl ms ! i)\<lparr>sg_last := False\<rparr>]"
    by (simp add: take_update_swap list_update_beyond)
  also have "\<dots> = take i (sgl ms) @ [(sgl ms ! i)\<lparr>sg_last := False\<rparr>]"
    using i by (simp add: take_Suc_conv_app_nth list_update_append)
  finally have "concat (map sg_bytes (take (Suc i) ?l')) = bytes"
    using cover i by (simp add: take_Suc_conv_app_nth sg_bytes_def sg_start_def)
  moreover have "take (Suc (Suc i)) ?l' = take (Suc i) ?l' @ [?sg]"
    using room by (simp add: take_Suc_conv_app_nth [of "Suc i"])
  moreover have "sg_bytes ?sg = bvec_bytes bv" "sg_start ?sg = bvec_to_phys bv"
    by (simp_all add: sg_set_page_def sg_bytes_def bvec_bytes_def sg_start_def bvec_to_phys_def)
  moreover have "\<forall>k < Suc i. \<not> sg_last (?l' ! k)" using marks i by (auto simp: nth_list_update less_Suc_eq)
  ultimately show ?thesis using run room cur(2) by (simp add: sg_set_page_def)
qed

lemma sg_join_spec:
  assumes cur: "sg_cur ms = Some i" "i < length (sgl ms)" and marks: "\<forall>k < i. \<not> sg_last (sgl ms ! k)"
    and fits: "unat (sg_length (sgl ms ! i)) + unat (bv_len bv) < 2 ^ 32"
    and adj: "sg_start (sgl ms ! i) + sg_length (sgl ms ! i) = bvec_to_phys bv"
    and cover: "concat (map sg_bytes (take (Suc i) (sgl ms))) = bytes"
  shows "sg_cur (sg_join ms i bv) = Some i" "nsegs (sg_join ms i bv) = nsegs ms" "sg_prv (sg_join ms i bv) = Some bv"
    "length (sgl (sg_join ms i bv)) = length (sgl ms)"
    "sg_length (sgl (sg_join ms i bv) ! i) = sg_length (sgl ms ! i) + bv_len bv"
    "sg_start (sgl (sg_join ms i bv) ! i) = sg_start (sgl ms ! i)"
    "\<forall>k < i. \<not> sg_last (sgl (sg_join ms i bv) ! k)"
    "concat (map sg_bytes (take (Suc i) (sgl (sg_join ms i bv)))) = bytes @ bvec_bytes bv"
proof -
  let ?sg = "sgl ms ! i"
  let ?sg' = "?sg\<lparr>sg_length := sg_length ?sg + bv_len bv\<rparr>"
  have "sg_bytes ?sg' = sg_bytes ?sg @ bvec_bytes bv"
    using addr_bytes_append [OF fits, of "sg_start ?sg"] adj by (simp add: sg_bytes_def bvec_bytes_def sg_start_def)
  moreover have "take (Suc i) ((sgl ms)[i := ?sg']) = take i (sgl ms) @ [?sg']"
    using cur(2) by (simp add: take_Suc_conv_app_nth)
  moreover have "take (Suc i) (sgl ms) = take i (sgl ms) @ [?sg]" using cur(2) by (simp add: take_Suc_conv_app_nth)
  ultimately show "concat (map sg_bytes (take (Suc i) (sgl (sg_join ms i bv)))) = bytes @ bvec_bytes bv"
    using cover by (simp add: sg_join_def)
qed (use cur marks in \<open>simp_all add: sg_join_def sg_start_def\<close>)

text \<open>A vector that is counted into the current segment can also be mapped into the current entry.\<close>

lemma seg_fits_mono:
  assumes "seg_fits qs l2 prv bv" "l1 \<le> l2" "unat l2 + unat (bv_len bv) < 2 ^ 32"
  shows "seg_fits qs l1 prv bv"
proof -
  have "unat l1 \<le> unat l2" using assms(2) by (simp add: word_le_nat_alt)
  then have "l1 + bv_len bv \<le> l2 + bv_len bv"
    using assms(3) by (simp add: word_le_nat_alt unat_add_lem [THEN iffD1])
  then show ?thesis using assms(1) by (auto simp: seg_fits_def)
qed

lemma map_sg_step_rel:
  assumes rel: "sg_rel bs st ms" and bytes: "bytes_of bs + unat (bv_len bv) < 2 ^ 32"
    and count: "length bs < 2 ^ 32 - 1" and room: "unat (nr_phys_segs (recalc_step qs st bv)) \<le> length (sgl ms)"
  shows "\<exists>ms'. map_sg_step qs ms bv = Some ms' \<and> sg_rel (bs @ [bv]) (recalc_step qs st bv) ms' \<and>
     length (sgl ms') = length (sgl ms)"
proof (cases "bs = []")
  case True
  have st: "nr_phys_segs st = 0" "highprv st" "cur_prv st = None" using rel True by (simp_all add: sg_rel_def)
  let ?st = "recalc_step qs st bv"
  have s: "nr_phys_segs ?st = 1" "cur_size ?st = bv_len bv" "cur_prv ?st = Some bv"
    using st by (simp_all add: recalc_step_def Let_def)
  have "0 < length (sgl ms)" using room unfolding s(1) unsigned_1 by linarith
  from sg_new_first [OF rel [unfolded True] this] obtain ms' where
    "map_sg_step qs ms bv = Some ms'" "sg_cur ms' = Some 0" "nsegs ms' = 1" "sg_prv ms' = Some bv"
    "length (sgl ms') = length (sgl ms)" "sg_length (sgl ms' ! 0) = bv_len bv"
    "sg_start (sgl ms' ! 0) = bvec_to_phys bv" "concat (map sg_bytes (take 1 (sgl ms'))) = bvec_bytes bv"
    by blast
  then show ?thesis using s \<open>0 < length (sgl ms)\<close> by (simp add: sg_rel_def True)
next
  case False
  let ?prv = "last bs" and ?st = "recalc_step qs st bv"
  obtain i where r: "sg_cur ms = Some i" "nsegs ms = Suc i" "i < length (sgl ms)" "sg_prv ms = Some ?prv"
      "cur_prv st = Some ?prv"
      "nsegs ms < unat (nr_phys_segs st) \<or> nsegs ms = unat (nr_phys_segs st) \<and> sg_length (sgl ms ! i) \<le> cur_size st"
      "unat (cur_size st) \<le> bytes_of bs" "unat (sg_length (sgl ms ! i)) \<le> bytes_of bs"
      "unat (nr_phys_segs st) \<le> length bs"
      "sg_start (sgl ms ! i) + sg_length (sgl ms ! i) = bvec_to_phys ?prv + bv_len ?prv"
      "\<forall>k < i. \<not> sg_last (sgl ms ! k)"
      "concat (map sg_bytes (take (Suc i) (sgl ms))) = concat (map bvec_bytes bs)"
    using rel False unfolding sg_rel_def by auto
  let ?l1 = "sg_length (sgl ms ! i)"
  have lt: "unat (nr_phys_segs st) < 2 ^ 32 - 1" using r(9) count by simp
  have sum: "unat (cur_size st) + unat (bv_len bv) < 2 ^ 32" "unat ?l1 + unat (bv_len bv) < 2 ^ 32" using r(7,8) bytes by simp_all
  have grow: "unat (cur_size st + bv_len bv) = unat (cur_size st) + unat (bv_len bv)"
      "unat (?l1 + bv_len bv) = unat ?l1 + unat (bv_len bv)"
    using sum by (simp_all add: unat_add_lem [THEN iffD1])
  have mono: "?l1 \<le> cur_size st \<Longrightarrow> ?l1 + bv_len bv \<le> cur_size st + bv_len bv"
    "bv_len bv \<le> cur_size st + bv_len bv" by (simp_all add: word_le_nat_alt grow)
  have cnt: "unat (nr_phys_segs ?st) = unat (nr_phys_segs st) \<and> cur_size ?st = cur_size st + bv_len bv \<and>
        qs_cluster qs \<and> seg_fits qs (cur_size st) ?prv bv \<or>
      unat (nr_phys_segs ?st) = unat (nr_phys_segs st) + 1 \<and> cur_size ?st = bv_len bv" and prv: "cur_prv ?st = Some bv"
    by (rule recalc_step_cases [OF lt, of qs bv]; use r(5) in auto)+
  show ?thesis
  proof (cases "qs_cluster qs \<and> seg_fits qs ?l1 ?prv bv")
    case join: True
    let ?ms = "sg_join ms i bv"
    have run: "map_sg_step qs ms bv = Some ?ms" using join r(1,4) by (simp add: map_sg_step_eq)
    have "sg_start (sgl ms ! i) + ?l1 = bvec_to_phys bv"
      using join r(10) by (simp add: seg_fits_def BIOVEC_PHYS_MERGEABLE_def)
    note j = sg_join_spec [OF r(1,3,11) sum(2) this r(12)]
    have "nsegs ?ms < unat (nr_phys_segs ?st) \<or> nsegs ?ms = unat (nr_phys_segs ?st) \<and> sg_length (sgl ?ms ! i) \<le> cur_size ?st"
      using r(6) cnt j(2,5) mono(1) by auto
    moreover have "unat (cur_size ?st) \<le> bytes_of (bs @ [bv])" "unat (nr_phys_segs ?st) \<le> length (bs @ [bv])"
      using cnt r(7,9) grow(1) by auto
    ultimately show ?thesis using run j r(2,3,8,10) grow(2) prv \<open>sg_start (sgl ms ! i) + ?l1 = bvec_to_phys bv\<close>
      by (simp add: sg_rel_def add.assoc [symmetric])
  next
    case new: False
    have run: "map_sg_step qs ms bv = sg_new ms bv" using new r(1,4) by (auto simp: map_sg_step_eq)
    have more: "Suc (Suc i) < unat (nr_phys_segs ?st) \<or>
        Suc (Suc i) = unat (nr_phys_segs ?st) \<and> bv_len bv \<le> cur_size ?st"
      using r(2,6) cnt new seg_fits_mono [OF _ _ sum(1), of qs ?prv ?l1] mono(2) by auto
    then have "Suc i < length (sgl ms)" using room by auto
    from sg_new_next [OF r(1,2) this r(11,12), of bv] obtain ms' where
      n: "sg_new ms bv = Some ms'" "sg_cur ms' = Some (Suc i)" "nsegs ms' = Suc (Suc i)" "sg_prv ms' = Some bv"
        "length (sgl ms') = length (sgl ms)" "sg_length (sgl ms' ! Suc i) = bv_len bv"
        "sg_start (sgl ms' ! Suc i) = bvec_to_phys bv" "\<forall>k < Suc i. \<not> sg_last (sgl ms' ! k)"
        "concat (map sg_bytes (take (Suc (Suc i)) (sgl ms'))) = concat (map bvec_bytes bs) @ bvec_bytes bv"
      by blast
    have "unat (cur_size ?st) \<le> bytes_of (bs @ [bv])" "unat (nr_phys_segs ?st) \<le> length (bs @ [bv])"
      using cnt r(7,9) grow(1) by auto
    then show ?thesis using run n more prv \<open>Suc i < length (sgl ms)\<close> by (simp add: sg_rel_def)
  qed
qed

lemma map_sg_loop_rel:
  assumes "sg_rel bs st ms" "bytes_of (bs @ bvs) < 2 ^ 32" "length (bs @ bvs) < 2 ^ 32 - 1"
    "unat (nr_phys_segs (foldl (recalc_step qs) st bvs)) \<le> length (sgl ms)" "unat (nr_phys_segs st) \<le> length bs"
  shows "\<exists>ms'. map_sg_loop qs ms bvs = Some ms' \<and> sg_rel (bs @ bvs) (foldl (recalc_step qs) st bvs) ms' \<and>
     length (sgl ms') = length (sgl ms)"
  using assms
proof (induction bvs arbitrary: bs st ms)
  case (Cons bv bvs)
  let ?st = "recalc_step qs st bv"
  have lt: "unat (nr_phys_segs st) < 2 ^ 32 - 1" using Cons.prems(3,5) by simp
  have n: "unat (nr_phys_segs ?st) \<le> length (bs @ [bv])"
    by (rule recalc_step_cases [OF lt, of qs bv]) (use Cons.prems(5) in auto)
  have "unat (nr_phys_segs ?st) \<le> unat (nr_phys_segs (foldl (recalc_step qs) ?st bvs))"
    by (rule recalc_mono) (use n Cons.prems(3) in simp)
  then have "unat (nr_phys_segs ?st) \<le> length (sgl ms)" using Cons.prems(4) by simp
  from map_sg_step_rel [OF Cons.prems(1) _ _ this] Cons.prems(2,3) obtain ms1 where
    s: "map_sg_step qs ms bv = Some ms1" "sg_rel (bs @ [bv]) ?st ms1" "length (sgl ms1) = length (sgl ms)" by auto
  from Cons.IH [OF s(2)] Cons.prems(2-4) s(3) n obtain ms2 where
    "map_sg_loop qs ms1 bvs = Some ms2" "sg_rel ((bs @ [bv]) @ bvs) (foldl (recalc_step qs) ?st bvs) ms2"
    "length (sgl ms2) = length (sgl ms1)" by auto
  then show ?case using s by simp
qed simp

lemma bytes_of_length: "\<forall>bv \<in> set bvs. bv_len bv \<noteq> 0 \<Longrightarrow> length bvs \<le> bytes_of bvs"
proof (induction bvs)
  case (Cons bv bvs)
  have "0 < unat (bv_len bv)" using Cons.prems by (simp add: unat_gt_0)
  then show ?case using Cons by simp
qed simp

lemma recalc_count: "fst (recalc_rq_segments qs (b # bs)) =
    nr_phys_segs (foldl (recalc_step qs) (recalc_init (bi_seg_front_size b)) (concat (map bio_segs (b # bs))))"
  by (simp add: recalc_rq_segments_def Let_def)

section \<open>Properties\<close>

text \<open>
  C32. A request without padding and drain is mapped to at most as many scatterlist entries as
  segments were counted for it, so an array of that size, with whatever contents, is never overrun.
  Only the last entry is marked as the end of the list, and the bytes that the entries stand for
  are those of the bios, in order.
\<close>

theorem blk_rq_map_sg_correct:
  assumes data: "bytes_of (rq_segs rq) < 2 ^ 32 - 1" "\<forall>bv \<in> set (rq_segs rq). bv_len bv \<noteq> 0"
    and plain: "\<not> rq_flagged rq REQ_COPY_USER" "dma_drain_size qs = 0"
    and room: "unat (fst (recalc_rq_segments qs (bios rq))) \<le> length sglist"
  shows "\<exists>n l. blk_rq_map_sg needed v2p qs rq sglist = Some (n, l, 0) \<and>
     n \<le> unat (fst (recalc_rq_segments qs (bios rq))) \<and> length l = length sglist \<and>
     (\<forall>k < n. sg_last (l ! k) \<longleftrightarrow> k = n - 1) \<and>
     concat (map sg_bytes (take n l)) = concat (map bvec_bytes (rq_segs rq))"
proof (cases "bios rq")
  case Nil
  then show ?thesis using plain by (simp add: blk_rq_map_sg_def sg_init_def rq_segs_def)
next
  case (Cons b bs)
  let ?bvs = "rq_segs rq" and ?st = "recalc_init (bi_seg_front_size b)"
  have rel: "sg_rel [] ?st (sg_init sglist)" by (simp add: sg_rel_def recalc_init_def sg_init_def)
  have len: "length ([] @ ?bvs) < 2 ^ 32 - 1" using bytes_of_length [OF data(2)] data(1) by simp
  have n: "fst (recalc_rq_segments qs (bios rq)) = nr_phys_segs (foldl (recalc_step qs) ?st ?bvs)"
    unfolding rq_segs_def Cons by (rule recalc_count)
  have "\<exists>ms'. map_sg_loop qs (sg_init sglist) ?bvs = Some ms' \<and> sg_rel ([] @ ?bvs) (foldl (recalc_step qs) ?st ?bvs) ms' \<and>
      length (sgl ms') = length (sgl (sg_init sglist))"
    by (rule map_sg_loop_rel [OF rel _ len]) (use data(1) room n in \<open>simp_all add: sg_init_def recalc_init_def\<close>)
  then obtain ms where ms: "map_sg_loop qs (sg_init sglist) ?bvs = Some ms" "sg_rel ?bvs (foldl (recalc_step qs) ?st ?bvs) ms"
      "length (sgl ms) = length sglist" by (auto simp: sg_init_def)
  have run: "blk_rq_map_sg needed v2p qs rq sglist = Some (nsegs ms,
      (case sg_cur ms of None \<Rightarrow> sgl ms | Some i \<Rightarrow> (sgl ms)[i := (sgl ms ! i)\<lparr>sg_last := True\<rparr>]), 0)"
    using ms(1) plain by (simp add: blk_rq_map_sg_def)
  show ?thesis
  proof (cases "?bvs = []")
    case True
    then show ?thesis using run ms(2,3) by (simp add: sg_rel_def)
  next
    case False
    from ms(2) [unfolded sg_rel_def if_not_P [OF False]] obtain i where i: "sg_cur ms = Some i" "nsegs ms = Suc i" "i < length (sgl ms)"
        "nsegs ms \<le> unat (nr_phys_segs (foldl (recalc_step qs) ?st ?bvs))"
        "\<forall>k < i. \<not> sg_last (sgl ms ! k)" "concat (map sg_bytes (take (Suc i) (sgl ms))) = concat (map bvec_bytes ?bvs)"
      by (elim exE conjE) (rule that; auto)
    let ?l = "(sgl ms)[i := (sgl ms ! i)\<lparr>sg_last := True\<rparr>]"
    have "concat (map sg_bytes (take (Suc i) ?l)) = concat (map sg_bytes (take (Suc i) (sgl ms)))"
      using i(3) by (simp add: take_Suc_conv_app_nth sg_bytes_def sg_start_def)
    moreover have "\<forall>k < Suc i. sg_last (?l ! k) \<longleftrightarrow> k = i" using i(3,5) by (auto simp: nth_list_update less_Suc_eq)
    ultimately show ?thesis using run i ms(3) n by simp
  qed
qed

text \<open>Three vectors, of which the first two are adjacent in memory.\<close>

definition qs0 :: queue_settings where
  "qs0 = \<lparr>limits = limits0\<lparr>bounce_pfn := 0xFFFFF\<rparr>, nr_requests = 128, nr_congestion_on = 113, nr_congestion_off = 103, nr_batching = 32,
     qs_unplug_thresh = 4, unplug_delay = 1, bounce_dma = False, dma_alignment = 511, dma_pad_mask = 0,
     dma_drain_needed = None, dma_drain_buffer = 0, dma_drain_size = 0, rq_timeout = 0, prep_rq_fn = None,
     merge_bvec_fn = None, softirq_done_fn = None, rq_timed_out_fn = None, lld_busy_fn = None,
     make_request_fn = None, queue_lock = True, qs_cluster = True\<rparr>"

definition bio3 :: bio where
  "bio3 = bio_zero\<lparr>bi_vcnt := 3, bi_size := 2048, bi_io_vec :=
     [\<lparr>bv_page = 16, bv_len = 512, bv_offset = 0\<rparr>, \<lparr>bv_page = 16, bv_len = 512, bv_offset = 512\<rparr>,
      \<lparr>bv_page = 40, bv_len = 1024, bv_offset = 0\<rparr>]\<rparr>"

definition sg0 :: scatterlist where
  "sg0 = \<lparr>sg_page = 0, sg_offset = 0, sg_length = 0, sg_last = True\<rparr>"

lemma sample_count: "fst (recalc_rq_segments qs0 [bio3]) = 2"
  by (simp add: recalc_rq_segments_def Let_def bio_segs_def bio3_def bio_zero_def recalc_init_def recalc_step_def
      qs0_def limits0_def blk_set_default_limits_def seg_fits_def BIOVEC_PHYS_MERGEABLE_def
      BIOVEC_SEG_BOUNDARY_def BIO_SEG_BOUNDARY_def bvec_to_phys_def BLK_MAX_SEGMENT_SIZE_def BLK_SEG_BOUNDARY_MASK_def)

theorem blk_rq_map_sg_correct_witness:
  "\<exists>n l. blk_rq_map_sg (\<lambda>_. True) id qs0 (rq_zero\<lparr>bios := [bio3]\<rparr>) (replicate 2 sg0) = Some (n, l, 0) \<and> n \<le> 2 \<and>
     length (concat (map sg_bytes (take n l))) = 2048"
proof -
  let ?rq = "rq_zero\<lparr>bios := [bio3]\<rparr>"
  have segs: "rq_segs ?rq = bi_io_vec bio3" by (simp add: rq_segs_def bio_segs_def bio3_def bio_zero_def)
  have "bytes_of (rq_segs ?rq) < 2 ^ 32 - 1" "\<forall>bv \<in> set (rq_segs ?rq). bv_len bv \<noteq> 0"
    unfolding segs by (simp_all add: bio3_def)
  moreover have "\<not> rq_flagged ?rq REQ_COPY_USER" "dma_drain_size qs0 = 0"
    by (simp_all add: rq_flagged_def rq_zero_def qs0_def)
  moreover have "unat (fst (recalc_rq_segments qs0 (bios ?rq))) \<le> length (replicate 2 sg0)"
    using sample_count by simp
  moreover have "length (concat (map bvec_bytes (rq_segs ?rq))) = 2048"
    unfolding segs by (simp add: bio3_def bvec_bytes_def addr_bytes_def)
  ultimately show ?thesis
    using blk_rq_map_sg_correct [of ?rq qs0 "replicate 2 sg0" "\<lambda>_. True" id] sample_count by fastforce
qed

lemma ll_new_hw_segment_limit:
  assumes "ll_new_hw_segment qs q rq b = (True, q', b')" "bi_phys_segments b' < 0x80000000"
  shows "unat (nr_phys_segments (rqs q' rq)) = unat (nr_phys_segments (rqs q rq)) + unat (bi_phys_segments b')"
    "nr_phys_segments (rqs q' rq) \<le> queue_max_segments qs"
proof -
  obtain n where n: "bio_phys_segments qs b = (n, b')" "n = sint (bi_phys_segments b')"
      "int (unat (nr_phys_segments (rqs q rq))) + n \<le> int (unat (queue_max_segments qs))"
      "nr_phys_segments (rqs q' rq) = nr_phys_segments (rqs q rq) + word_of_int n"
    using assms(1) by (auto simp: ll_new_hw_segment_def bio_phys_segments_def Let_def rq_upd_def split: if_splits)
  have pos: "n = int (unat (bi_phys_segments b'))"
  proof -
    have "uint (bi_phys_segments b') < 2 ^ 31" using assms(2) by (simp add: word_less_def)
    moreover have "- (2 ^ 31) \<le> uint (bi_phys_segments b')" 
      by (rule order_trans [OF _ uint_ge_0]) simp
    ultimately have "signed_take_bit 31 (uint (bi_phys_segments b')) = uint (bi_phys_segments b')"
      by (intro signed_take_bit_int_eq_self)
    then have "sint (bi_phys_segments b') = uint (bi_phys_segments b')" by (simp add: sint_uint)
    then show ?thesis using n(2) by simp
  qed
  let ?m = "unat (nr_phys_segments (rqs q rq)) + unat (bi_phys_segments b')"
  have le: "?m \<le> unat (queue_max_segments qs)"
    using n(3) unfolding pos of_nat_add [symmetric] by (simp only: of_nat_le_iff)
  have "unat (queue_max_segments qs) < 2 ^ 16" using unsigned_less [of "queue_max_segments qs"] by simp
  then have m: "?m < 2 ^ 16" using le by simp
  have "nr_phys_segments (rqs q' rq) = word_of_nat ?m" using n(4) pos by simp
  then have eq: "unat (nr_phys_segments (rqs q' rq)) = ?m"
    using m by (simp add: unsigned_of_nat take_bit_nat_eq_self del: of_nat_add)
  then show "unat (nr_phys_segments (rqs q' rq)) = ?m" "nr_phys_segments (rqs q' rq) \<le> queue_max_segments qs"
    using le by (simp_all add: word_le_nat_alt)
qed

lemma merge_limit_ge: "(ucast (merge_max_sectors qs r) :: u32) \<le>
    (if blk_pc_request r then max_hw_sectors (limits qs) else max_sectors (limits qs))"
proof -
  have "(ucast (ucast x :: 16 word) :: u32) \<le> x" for x :: u32
  proof -
    have "unat (ucast (ucast x :: 16 word) :: u32) = unat x mod 2 ^ 16"
      by (simp add: unsigned_ucast_eq unsigned_take_bit_eq take_bit_nat_def)
    then show ?thesis by (simp add: word_le_nat_alt)
  qed
  then show ?thesis by (simp add: merge_max_sectors_def)
qed

text \<open>
  C33. When a bio may be appended or prepended to a request, the request stays within the limits of
  the queue on sectors and on segments, and the segments of the bio are added to its count without
  wrap-around.
\<close>

theorem ll_merge_limits:
  assumes "ll_back_merge_fn qs q rq b = Some (True, q', b') \<or> ll_front_merge_fn qs q rq b = Some (True, q', b')"
    "bi_phys_segments b' < 0x80000000"
  shows "blk_rq_sectors (rqs q rq) + bio_sectors b \<le>
       (if blk_pc_request (rqs q rq) then max_hw_sectors (limits qs) else max_sectors (limits qs)) \<and>
     unat (nr_phys_segments (rqs q' rq)) = unat (nr_phys_segments (rqs q rq)) + unat (bi_phys_segments b') \<and>
     nr_phys_segments (rqs q' rq) \<le> queue_max_segments qs"
proof -
  have le: "blk_rq_sectors (rqs q rq) + bio_sectors b \<le> ucast (merge_max_sectors qs (rqs q rq))"
    using assms(1) by (auto simp: ll_back_merge_fn_def ll_front_merge_fn_def Let_def split: if_splits)
  obtain q1 b1 where seg: "ll_new_hw_segment qs q1 rq b1 = (True, q', b')"
      "nr_phys_segments (rqs q1 rq) = nr_phys_segments (rqs q rq)"
    using assms(1)
    by (elim disjE) (auto simp: ll_back_merge_fn_def ll_front_merge_fn_def Let_def rq_upd_def split: if_splits)
  show ?thesis
    using order_trans [OF le merge_limit_ge] ll_new_hw_segment_limit [OF seg(1) assms(2)] seg(2) by simp
qed

definition bio_counted :: bio where
  "bio_counted = bio3\<lparr>bi_flags := 8, bi_phys_segments := 2\<rparr>"

definition merge_sample :: "unit request_queue" where
  "merge_sample = (queue_zero ())\<lparr>rqs := (\<lambda>_. rq_zero\<lparr>bios := [bio_counted], data_len := 2048, nr_phys_segments := 2,
     cmd_type := REQ_TYPE_FS\<rparr>)\<rparr>"

theorem ll_merge_limits_witness:
  "\<exists>q' b'. ll_back_merge_fn qs0 merge_sample (Rq 7) bio_counted = Some (True, q', b') \<and>
     unat (nr_phys_segments (rqs q' (Rq 7))) = 4"
proof -
  have valid: "seg_valid qs0 bio_counted = bio_counted"
    by (simp add: seg_valid_def bio_flagged_def BIO_SEG_VALID_def bio_counted_def)
  have size: "blk_rq_sectors (rqs merge_sample (Rq 7)) + bio_sectors bio_counted = 8"
      "(ucast (merge_max_sectors qs0 (rqs merge_sample (Rq 7))) :: u32) = 1024"
    by (simp_all add: merge_sample_def bio_counted_def bio3_def bio_sectors_def blk_rq_sectors_def blk_rq_bytes_def
        merge_max_sectors_def blk_pc_request_def qs0_def limits0_def blk_set_default_limits_def BLK_DEF_MAX_SECTORS_def)
  have segs: "bio_phys_segments qs0 bio_counted = (2, bio_counted)"
    by (simp add: bio_phys_segments_def valid Let_def) (simp add: bio_counted_def)
  have max: "queue_max_segments qs0 = 128"
    by (simp add: queue_max_segments_def qs0_def limits0_def blk_set_default_limits_def BLK_MAX_SEGMENTS_def)
  have "\<exists>q' b'. ll_back_merge_fn qs0 merge_sample (Rq 7) bio_counted = Some (True, q', b') \<and> b' = bio_counted"
    unfolding ll_back_merge_fn_def size
    by (simp add: valid Let_def ll_new_hw_segment_def segs max) (simp add: merge_sample_def rq_upd_def)
  then obtain q' where run: "ll_back_merge_fn qs0 merge_sample (Rq 7) bio_counted = Some (True, q', bio_counted)" by blast
  moreover have "bi_phys_segments bio_counted < 0x80000000" by (simp add: bio_counted_def)
  moreover have "unat (nr_phys_segments (rqs merge_sample (Rq 7))) + unat (bi_phys_segments bio_counted) = 4"
    by (simp add: merge_sample_def bio_counted_def)
  ultimately show ?thesis using ll_merge_limits [of qs0 merge_sample "Rq 7" bio_counted q' bio_counted] by auto
qed

text \<open>
  C34. The limit on sectors is kept in 16 bits: on a device that takes 65536 sectors at once no bio
  is merged into a passthrough request if one of the two has at least one sector, and the first
  attempt marks the request as unmergeable for good.
\<close>

theorem merge_limit_truncated:
  assumes "blk_pc_request (rqs q rq)" "max_hw_sectors (limits qs) = 0x10000"
    "blk_rq_sectors (rqs q rq) + bio_sectors b \<noteq> 0"
  shows "ll_back_merge_fn qs q rq b = Some (False, refuse_merge q rq, b) \<and>
     ll_front_merge_fn qs q rq b = Some (False, refuse_merge q rq, b) \<and> \<not> rq_mergeable (rqs (refuse_merge q rq) rq)"
proof -
  have "(ucast (merge_max_sectors qs (rqs q rq)) :: u32) = 0" using assms(1,2) by (simp add: merge_max_sectors_def)
  moreover have "0 < blk_rq_sectors (rqs q rq) + bio_sectors b" using assms(3) by (simp add: word_neq_0_conv)
  moreover have "\<not> rq_mergeable (rqs (refuse_merge q rq) rq)"
    by (simp add: refuse_merge_def Let_def rq_upd_def rq_mergeable_iff)
  ultimately show ?thesis by (simp add: ll_back_merge_fn_def ll_front_merge_fn_def)
qed

theorem merge_limit_truncated_witness:
  "\<exists>qs (q :: unit request_queue) q'. max_hw_sectors (limits qs) = 65536 \<and> ll_back_merge_fn qs q (Rq 7) bio3 = Some (False, q', bio3)"
proof -
  let ?qs = "qs0\<lparr>limits := limits0\<lparr>max_hw_sectors := 0x10000\<rparr>\<rparr>"
  let ?q = "merge_sample\<lparr>rqs := (\<lambda>_. rq_zero\<lparr>cmd_type := REQ_TYPE_BLOCK_PC\<rparr>)\<rparr>"
  have "blk_pc_request (rqs ?q (Rq 7))" "max_hw_sectors (limits ?qs) = 0x10000"
      "blk_rq_sectors (rqs ?q (Rq 7)) + bio_sectors bio3 \<noteq> 0"
    by (simp_all add: blk_pc_request_def blk_rq_sectors_def blk_rq_bytes_def rq_zero_def bio_sectors_def bio3_def)
  from conjunct1 [OF merge_limit_truncated [OF this]] \<open>max_hw_sectors (limits ?qs) = 0x10000\<close>
  show ?thesis by (intro exI conjI)
qed

end
