(* ===== verification/Request.thy ===== *)
theory Request
  imports Segments
begin

text \<open>
  Requests from their allocation to their completion, from \<^verbatim>\<open>block/blk-core.c\<close>: initialisation, the
  request pool with its congestion and batching rules, the hand-over to a driver and the
  completion of a number of bytes. A bio that is ended is logged in \<open>ended_bios\<close> with the error
  its owner is told. Statistics, timers, entropy and trace points are left out.

  The functions a driver or a scheduler brings along are members of \<open>blk_env\<close>; a function pointer
  kept in a queue is a number that selects one of them. The requests that a scheduler has linked
  through \<^verbatim>\<open>queuelist\<close> are \<open>env_own\<close> of its private data, and \<open>env_unlink\<close> takes one off.
\<close>

record 'd blk_env =
  env_ops :: "'d elevator_ops"
  env_request_fn :: "'d request_queue \<Rightarrow> 'd request_queue option"
  env_settings :: queue_settings
  env_own :: "'d \<Rightarrow> rqp list"
  env_unlink :: "rqp \<Rightarrow> 'd \<Rightarrow> 'd"
  env_prepare_flush :: "nat \<Rightarrow> 'd request_queue \<Rightarrow> rqp \<Rightarrow> 'd request_queue"
  env_end_io :: "nat \<Rightarrow> 'd request_queue \<Rightarrow> rqp \<Rightarrow> int \<Rightarrow> 'd request_queue option"
  env_prep_rq :: "nat \<Rightarrow> 'd request_queue \<Rightarrow> rqp \<Rightarrow> int \<times> 'd request_queue"

definition EIO :: int where "EIO = 5"
definition ENOMEM :: int where "ENOMEM = 12"
definition EOPNOTSUPP :: int where "EOPNOTSUPP = 95"

section \<open>Setting up a request\<close>

definition blk_rq_init :: request where
  "blk_rq_init = rq_zero\<lparr>sector := - 1, rq_tag := - 1, ref_count := 1\<rparr>"

definition bio_prio :: "bio \<Rightarrow> 16 word" where
  "bio_prio b = ucast (drop_bit 16 (bi_rw b))"

text \<open>
  The barrier request of a queue carries the very bios of the request it stands for; what is
  written to them through the one is seen through the other. The bios left on the proxy are the
  last ones of the chain.
\<close>

definition share_bios :: "rqp \<Rightarrow> 'd request_queue \<Rightarrow> 'd request_queue" where
  "share_bios rq q =
     (case (rq, orig_bar_rq q) of
        (BarRq, Some orig) \<Rightarrow>
          (let bs = bios (rqs q BarRq); old = bios (rqs q orig)
           in rq_upd orig (\<lambda>r. r\<lparr>bios := take (length old - length bs) old @ bs\<rparr>) q)
      | _ \<Rightarrow> q)"

text \<open>A bio is given with the bios that follow it through \<^verbatim>\<open>bi_next\<close>.\<close>

definition blk_rq_bio_prep :: "queue_settings \<Rightarrow> request \<Rightarrow> bio \<Rightarrow> bio list \<Rightarrow> request" where
  "blk_rq_bio_prep qs r b nxt =
     (let r = r\<lparr>cmd_flags := cmd_flags r OR (bi_rw b AND REQ REQ_RW)\<rparr>;
          (r, b) = (if bio_has_data b
                    then (case bio_phys_segments qs b of (n, b) \<Rightarrow> (r\<lparr>nr_phys_segments := word_of_int n\<rparr>, b))
                    else (r, b));
          r = r\<lparr>data_len := bi_size b, bios := b # nxt\<rparr>
      in if bi_disk b \<noteq> None then r\<lparr>rq_disk := bi_disk b\<rparr> else r)"

definition bio_rq_flags :: "bio \<Rightarrow> request \<Rightarrow> request" where
  "bio_rq_flags b r =
     (let r = (if bio_rw_flagged b BIO_RW_AHEAD then r\<lparr>cmd_flags := cmd_flags r OR REQ_FAILFAST_MASK\<rparr>
               else r\<lparr>cmd_flags := cmd_flags r OR (bi_rw b AND REQ_FAILFAST_MASK)\<rparr>);
          r = (if bio_rw_flagged b BIO_RW_DISCARD then
                 (let r = rq_set_flag REQ_DISCARD r
                  in if bio_rw_flagged b BIO_RW_BARRIER then rq_set_flag REQ_SOFTBARRIER r else r)
               else if bio_rw_flagged b BIO_RW_BARRIER then rq_set_flag REQ_HARDBARRIER r
               else r);
          r = (if bio_rw_flagged b BIO_RW_SYNCIO then rq_set_flag REQ_RW_SYNC r else r);
          r = (if bio_rw_flagged b BIO_RW_META then rq_set_flag REQ_RW_META r else r)
      in if bio_rw_flagged b BIO_RW_NOIDLE then rq_set_flag REQ_NOIDLE r else r)"

definition init_request_from_bio :: "queue_settings \<Rightarrow> request \<Rightarrow> bio \<Rightarrow> bio list \<Rightarrow> request" where
  "init_request_from_bio qs r b nxt =
     (let r = r\<lparr>cmd_type := REQ_TYPE_FS\<rparr>;
          r = bio_rq_flags b r;
          r = r\<lparr>rq_errors := 0, sector := bi_sector b, ioprio := bio_prio b\<rparr>
      in blk_rq_bio_prep qs r b nxt)"

section \<open>The request pool\<close>

definition queue_congestion_on_threshold :: "queue_settings \<Rightarrow> int" where
  "queue_congestion_on_threshold qs = sint (nr_congestion_on qs)"

definition queue_congestion_off_threshold :: "queue_settings \<Rightarrow> int" where
  "queue_congestion_off_threshold qs = sint (nr_congestion_off qs)"

definition full_flag :: "bool \<Rightarrow> queue_flag" where
  "full_flag sync = (if sync then QUEUE_FLAG_SYNCFULL else QUEUE_FLAG_ASYNCFULL)"

definition blk_queue_full :: "'d request_queue \<Rightarrow> bool \<Rightarrow> bool" where
  "blk_queue_full q sync = queue_flag_test (full_flag sync) q"

definition blk_set_queue_full :: "bool \<Rightarrow> 'd request_queue \<Rightarrow> 'd request_queue" where
  "blk_set_queue_full sync q = queue_flag_set (full_flag sync) q"

definition blk_clear_queue_full :: "bool \<Rightarrow> 'd request_queue \<Rightarrow> 'd request_queue" where
  "blk_clear_queue_full sync q = queue_flag_clear (full_flag sync) q"

definition blk_set_queue_congested :: "bool \<Rightarrow> 'd request_queue \<Rightarrow> 'd request_queue" where
  "blk_set_queue_congested sync q = q\<lparr>congested := (congested q)(sync := True)\<rparr>"

definition blk_clear_queue_congested :: "bool \<Rightarrow> 'd request_queue \<Rightarrow> 'd request_queue" where
  "blk_clear_queue_congested sync q = q\<lparr>congested := (congested q)(sync := False)\<rparr>"

text \<open>The context of a process: what is left of its batch and when that began.\<close>

record io_context =
  nr_batch_requests :: int
  last_waited :: u32

definition BLK_BATCH_TIME :: u32 where "BLK_BATCH_TIME = HZ div 50"

definition time_before :: "u32 \<Rightarrow> u32 \<Rightarrow> bool" where
  "time_before a b \<longleftrightarrow> sint (a - b) < 0"

definition ioc_batching :: "queue_settings \<Rightarrow> u32 \<Rightarrow> io_context option \<Rightarrow> bool" where
  "ioc_batching qs jiffies ioc =
     (case ioc of
        None \<Rightarrow> False
      | Some c \<Rightarrow> word_of_int (nr_batch_requests c) = nr_batching qs \<or>
          nr_batch_requests c > 0 \<and> time_before jiffies (last_waited c + BLK_BATCH_TIME))"

definition ioc_set_batching :: "queue_settings \<Rightarrow> u32 \<Rightarrow> io_context option \<Rightarrow> io_context option" where
  "ioc_set_batching qs jiffies ioc =
     (case ioc of
        None \<Rightarrow> None
      | Some c \<Rightarrow> if ioc_batching qs jiffies ioc then ioc
          else Some (c\<lparr>nr_batch_requests := sint (nr_batching qs), last_waited := jiffies\<rparr>))"

text \<open>\<^verbatim>\<open>__freed_request\<close>\<close>

definition freed_request_dir :: "queue_settings \<Rightarrow> bool \<Rightarrow> 'd request_queue \<Rightarrow> 'd request_queue" where
  "freed_request_dir qs sync q =
     (let q = (if rq_count q sync < queue_congestion_off_threshold qs
               then blk_clear_queue_congested sync q else q)
      in if word_of_int (rq_count q sync + 1) \<le> nr_requests qs then
           blk_clear_queue_full sync (q\<lparr>wakeups := (wakeups q)(sync := wakeups q sync + 1)\<rparr>)
         else q)"

definition freed_request :: "queue_settings \<Rightarrow> bool \<Rightarrow> bool \<Rightarrow> 'd request_queue \<Rightarrow> 'd request_queue" where
  "freed_request qs sync priv q =
     (let q = q\<lparr>rq_count := (rq_count q)(sync := rq_count q sync - 1)\<rparr>;
          q = (if priv then q\<lparr>elvpriv := elvpriv q - 1\<rparr> else q);
          q = freed_request_dir qs sync q
      in if starved q (\<not> sync) then freed_request_dir qs (\<not> sync) q else q)"

definition blk_free_request :: "'d elevator_ops \<Rightarrow> 'd request_queue \<Rightarrow> rqp \<Rightarrow> 'd request_queue" where
  "blk_free_request ops q rq =
     (if rq_flagged (rqs q rq) REQ_ELVPRIV then elv_put_request ops q rq else q)"

text \<open>The pool hands out the request \<open>slot\<close>, or \<open>None\<close> without memory.\<close>

definition blk_alloc_request ::
    "'d elevator_ops \<Rightarrow> 'd request_queue \<Rightarrow> u32 \<Rightarrow> bool \<Rightarrow> nat option \<Rightarrow>
     rqp option \<times> 'd request_queue" where
  "blk_alloc_request ops q flags priv slot =
     (case slot of
        None \<Rightarrow> (None, q)
      | Some n \<Rightarrow>
          (let rq = Rq n;
               q = rq_upd rq (\<lambda>_. blk_rq_init\<lparr>cmd_flags := flags OR REQ REQ_ALLOCED\<rparr>) q
           in if priv then
                (case elv_set_request ops q rq of
                   (err, q) \<Rightarrow> if err \<noteq> 0 then (None, q) else (Some rq, rq_upd rq (rq_set_flag REQ_ELVPRIV) q))
              else (Some rq, q)))"

definition mark_starved :: "bool \<Rightarrow> 'd request_queue \<Rightarrow> 'd request_queue" where
  "mark_starved sync q =
     (if rq_count q sync = 0 then q\<lparr>starved := (starved q)(sync := True)\<rparr> else q)"

text \<open>
  The first half of \<^verbatim>\<open>get_request\<close>: full and congested marks. The result says whether the
  process may go on, and gives the context that was looked up.
\<close>

definition get_request_admit ::
    "queue_settings \<Rightarrow> u32 \<Rightarrow> io_context option \<Rightarrow> elv_mqueue \<Rightarrow> bool \<Rightarrow> 'd request_queue \<Rightarrow>
     bool \<times> io_context option \<times> 'd request_queue" where
  "get_request_admit qs jiffies current may_queue sync q =
     (if rq_count q sync + 1 \<ge> queue_congestion_on_threshold qs then
        (if word_of_int (rq_count q sync + 1) \<ge> nr_requests qs then
           (if \<not> blk_queue_full q sync then
              (True, ioc_set_batching qs jiffies current,
               blk_set_queue_congested sync (blk_set_queue_full sync q))
            else if may_queue \<noteq> ELV_MQUEUE_MUST \<and> \<not> ioc_batching qs jiffies current
              then (False, current, q)
            else (True, current, blk_set_queue_congested sync q))
         else (True, None, blk_set_queue_congested sync q))
      else (True, None, q))"

definition get_request ::
    "'d elevator_ops \<Rightarrow> queue_settings \<Rightarrow> u32 \<Rightarrow> io_context option \<Rightarrow> nat option \<Rightarrow> u32 \<Rightarrow>
     'd request_queue \<Rightarrow> rqp option \<times> io_context option \<times> 'd request_queue" where
  "get_request ops qs jiffies current slot rw_flags q =
     (let sync = rw_is_sync rw_flags;
          may_queue = elv_may_queue ops q rw_flags
      in if may_queue = ELV_MQUEUE_NO then (None, current, mark_starved sync q)
         else case get_request_admit qs jiffies current may_queue sync q of
           (ok, ioc, q) \<Rightarrow>
             if \<not> ok then (None, ioc, q)
             else
               (let current = (if ioc = None then current else ioc)
                in if word_of_int (rq_count q sync) \<ge> 3 * nr_requests qs div 2 then (None, current, q)
                   else
                     (let q = q\<lparr>rq_count := (rq_count q)(sync := rq_count q sync + 1),
                                starved := (starved q)(sync := False)\<rparr>;
                          priv = (\<not> queue_flag_test QUEUE_FLAG_ELVSWITCH q);
                          q = (if priv then q\<lparr>elvpriv := elvpriv q + 1\<rparr> else q);
                          rw_flags = (if queue_flag_test QUEUE_FLAG_IO_STAT q
                                      then rw_flags OR REQ REQ_IO_STAT else rw_flags)
                      in case blk_alloc_request ops q rw_flags priv slot of
                           (None, q) \<Rightarrow>
                             (None, current, mark_starved sync (freed_request qs sync priv q))
                         | (Some rq, q) \<Rightarrow>
                             (Some rq,
                              (if ioc_batching qs jiffies ioc
                               then map_option (\<lambda>c. c\<lparr>nr_batch_requests := nr_batch_requests c - 1\<rparr>) ioc
                               else current), q))))"

text \<open>
  \<^verbatim>\<open>get_request_wait\<close>. Each round of its loop sleeps once; what the rest of the system does to the
  queue meanwhile, the time and the memory it wakes up to are one entry of the list. \<open>None\<close>: the
  process is still asleep when the list ends.
\<close>

record 'd nap =
  nap_effect :: "'d request_queue \<Rightarrow> 'd request_queue"
  nap_jiffies :: u32
  nap_slot :: "nat option"

fun get_request_retry ::
    "'d elevator_ops \<Rightarrow> ('d request_queue \<Rightarrow> 'd request_queue option) \<Rightarrow> queue_settings \<Rightarrow> u32 \<Rightarrow>
     'd nap list \<Rightarrow> rqp option \<times> io_context option \<times> 'd request_queue \<Rightarrow>
     (rqp \<times> io_context option \<times> 'd request_queue) option" where
  "get_request_retry ops request_fn qs rw_flags naps (Some rq, ioc, q) = Some (rq, ioc, q)"
| "get_request_retry ops request_fn qs rw_flags [] (None, ioc, q) = None"
| "get_request_retry ops request_fn qs rw_flags (nap # naps) (None, ioc, q) = do {
     q \<leftarrow> generic_unplug_device_locked request_fn q;
     let q = nap_effect nap q;
     let ioc = ioc_set_batching qs (nap_jiffies nap) ioc;
     get_request_retry ops request_fn qs rw_flags naps
       (get_request ops qs (nap_jiffies nap) ioc (nap_slot nap) rw_flags q)
   }"

definition get_request_wait ::
    "'d elevator_ops \<Rightarrow> ('d request_queue \<Rightarrow> 'd request_queue option) \<Rightarrow> queue_settings \<Rightarrow> u32 \<Rightarrow>
     io_context option \<Rightarrow> nat option \<Rightarrow> 'd nap list \<Rightarrow> u32 \<Rightarrow> 'd request_queue \<Rightarrow>
     (rqp \<times> io_context option \<times> 'd request_queue) option" where
  "get_request_wait ops request_fn qs jiffies ioc slot naps rw_flags q =
     get_request_retry ops request_fn qs rw_flags naps (get_request ops qs jiffies ioc slot rw_flags q)"

section \<open>Handing a request to the driver\<close>

definition blk_queued_rq :: "'d blk_env \<Rightarrow> 'd request_queue \<Rightarrow> rqp \<Rightarrow> bool" where
  "blk_queued_rq env q rq \<longleftrightarrow>
     rq \<in> set (queue_head q) \<or> rq \<in> set (tag_busy_list q) \<or> rq \<in> set (env_own env (elevator_data q))"

text \<open>\<^verbatim>\<open>list_del_init(&rq->queuelist)\<close>, whichever list the request is on.\<close>

definition queuelist_del :: "'d blk_env \<Rightarrow> rqp \<Rightarrow> 'd request_queue \<Rightarrow> 'd request_queue" where
  "queuelist_del env rq q =
     (if rq \<in> set (queue_head q) then q\<lparr>queue_head := removeAll rq (queue_head q)\<rparr>
      else if rq \<in> set (tag_busy_list q) then q\<lparr>tag_busy_list := removeAll rq (tag_busy_list q)\<rparr>
      else if rq \<in> set (env_own env (elevator_data q))
        then q\<lparr>elevator_data := env_unlink env rq (elevator_data q)\<rparr>
      else q)"

definition blk_dequeue_request :: "'d blk_env \<Rightarrow> 'd request_queue \<Rightarrow> rqp \<Rightarrow> 'd request_queue option" where
  "blk_dequeue_request env q rq =
     (if \<not> blk_queued_rq env q rq then None
      else if ELV_ON_HASH q rq then None
      else let q = queuelist_del env rq q; r = rqs q rq
           in Some (if blk_account_rq r
                    then q\<lparr>in_flight := (in_flight q)(rq_is_sync r := in_flight q (rq_is_sync r) + 1)\<rparr>
                    else q))"

definition set_resid_len :: "request \<Rightarrow> request" where
  "set_resid_len r = r\<lparr>resid_len := blk_rq_bytes r\<rparr>"

definition blk_start_request :: "'d blk_env \<Rightarrow> 'd request_queue \<Rightarrow> rqp \<Rightarrow> 'd request_queue option" where
  "blk_start_request env q rq = do {
     q \<leftarrow> blk_dequeue_request env q rq;
     let q = rq_upd rq set_resid_len q;
     Some (case next_rq (rqs q rq) of Some n \<Rightarrow> rq_upd n set_resid_len q | None \<Rightarrow> q)
   }"

section \<open>Completing bytes\<close>

text \<open>
  A failed bio is no longer up to date, and a bio that is not up to date has failed. The data of
  the integrity extension are not part of a bio here.
\<close>

definition bio_uptodate :: "bio \<Rightarrow> int \<Rightarrow> bio \<times> int" where
  "bio_uptodate b error =
     (if error \<noteq> 0 then (b\<lparr>bi_flags := unset_bit BIO_UPTODATE (bi_flags b)\<rparr>, error)
      else if \<not> bio_flagged b BIO_UPTODATE then (b, - EIO)
      else (b, error))"

definition bio_endio :: "bio \<Rightarrow> int \<Rightarrow> 'd request_queue \<Rightarrow> bio \<times> 'd request_queue" where
  "bio_endio b error q =
     (case bio_uptodate b error of (b, error) \<Rightarrow> (b, q\<lparr>ended_bios := (b, error) # ended_bios q\<rparr>))"

definition req_bio_endio ::
    "'d request_queue \<Rightarrow> rqp \<Rightarrow> bio \<Rightarrow> u32 \<Rightarrow> int \<Rightarrow> bio \<times> 'd request_queue" where
  "req_bio_endio q rq b nbytes error =
     (if rq \<noteq> BarRq then
        (let (b, error) = bio_uptodate b error;
             nbytes = (if nbytes > bi_size b then bi_size b else nbytes);
             b = (if rq_flagged (rqs q rq) REQ_QUIET then b\<lparr>bi_flags := set_bit BIO_QUIET (bi_flags b)\<rparr> else b);
             b = b\<lparr>bi_size := bi_size b - nbytes, bi_sector := bi_sector b + ucast (drop_bit 9 nbytes)\<rparr>
         in if bi_size b = 0 then bio_endio b error q else (b, q))
      else (b, if error \<noteq> 0 \<and> orderr q = 0 then q\<lparr>orderr := error\<rparr> else q))"

definition bio_cur_bytes :: "bio \<Rightarrow> u32 option" where
  "bio_cur_bytes b =
     (if bi_vcnt b \<noteq> 0 then map_option bv_len (bio_iovec_idx b (bi_idx b)) else Some (bi_size b))"

definition blk_rq_cur_bytes :: "request \<Rightarrow> u32 option" where
  "blk_rq_cur_bytes r = (case bios r of [] \<Rightarrow> Some 0 | b # _ \<Rightarrow> bio_cur_bytes b)"

fun err_bytes :: "u32 \<Rightarrow> bio list \<Rightarrow> u32 \<Rightarrow> u32" where
  "err_bytes ff [] bytes = bytes"
| "err_bytes ff (b # bs) bytes =
     (if bi_rw b AND ff \<noteq> ff then bytes else err_bytes ff bs (bytes + bi_size b))"

definition blk_rq_err_bytes :: "request \<Rightarrow> u32 option" where
  "blk_rq_err_bytes r =
     (let ff = cmd_flags r AND REQ_FAILFAST_MASK
      in if \<not> rq_flagged r REQ_MIXED_MERGE then Some (blk_rq_bytes r)
         else let bytes = err_bytes ff (bios r) 0
              in if blk_rq_bytes r \<noteq> 0 \<and> bytes = 0 then None else Some bytes)"

text \<open>The loop of \<^verbatim>\<open>blk_update_request\<close>, on the bios still on the request.\<close>

record upd_state =
  nr_bytes :: u32
  total_bytes :: u32
  bio_nbytes :: u32
  next_idx :: nat

function (sequential) update_loop ::
    "rqp \<Rightarrow> int \<Rightarrow> bio list \<Rightarrow> upd_state \<Rightarrow> 'd request_queue \<Rightarrow>
     (bio list \<times> upd_state \<times> 'd request_queue) option" where
  "update_loop rq error [] st q = Some ([], st, q)"
| "update_loop rq error (b # bs) st q =
     (if nr_bytes st \<ge> bi_size b then
        (let q = snd (req_bio_endio q rq b (bi_size b) error);
             st = \<lparr>nr_bytes = nr_bytes st - bi_size b, total_bytes = total_bytes st + bi_size b,
                   bio_nbytes = 0, next_idx = 0\<rparr>
         in if bs \<noteq> [] \<and> nr_bytes st = 0 then Some (bs, st, q) else update_loop rq error bs st q)
      else if bi_idx b + next_idx st \<ge> bi_vcnt b then Some (b # bs, st, q)
      else case bio_iovec_idx b (bi_idx b + next_idx st) of
        None \<Rightarrow> None
      | Some bv \<Rightarrow>
          if bv_len bv > bi_size b then None
          else if bv_len bv > nr_bytes st then
            Some (b # bs, st\<lparr>bio_nbytes := bio_nbytes st + nr_bytes st,
                             total_bytes := total_bytes st + nr_bytes st\<rparr>, q)
          else
            (let st = \<lparr>nr_bytes = nr_bytes st - bv_len bv, total_bytes = total_bytes st + bv_len bv,
                       bio_nbytes = bio_nbytes st + bv_len bv, next_idx = next_idx st + 1\<rparr>
             in if nr_bytes st = 0 then Some (b # bs, st, q) else update_loop rq error (b # bs) st q))"
  by pat_completeness auto

termination update_loop
  by (relation "measures [\<lambda>(rq, e, bs, st, q). length bs,
        \<lambda>(rq, e, bs, st, q). bi_vcnt (hd bs) - (bi_idx (hd bs) + next_idx st)]") auto

declare update_loop.simps [simp del]

text \<open>What is left of the first bio when its request was completed in part.\<close>

definition trim_bvec :: "u32 \<Rightarrow> bio_vec \<Rightarrow> bio_vec" where
  "trim_bvec n bv = bv\<lparr>bv_offset := bv_offset bv + n, bv_len := bv_len bv - n\<rparr>"

definition update_bio ::
    "rqp \<Rightarrow> int \<Rightarrow> bio \<Rightarrow> upd_state \<Rightarrow> 'd request_queue \<Rightarrow> (bio \<times> 'd request_queue) option" where
  "update_bio rq error b st q =
     (if bio_nbytes st = 0 then Some (b, q)
      else case req_bio_endio q rq b (bio_nbytes st) error of
        (b, q) \<Rightarrow> do {
          let i = bi_idx b + next_idx st;
          bv \<leftarrow> bio_iovec_idx b i;
          Some (b\<lparr>bi_idx := i, bi_io_vec := (bi_io_vec b)[i := trim_bvec (nr_bytes st) bv]\<rparr>, q)
        })"

definition update_remaining :: "queue_settings \<Rightarrow> upd_state \<Rightarrow> request \<Rightarrow> request option" where
  "update_remaining qs st r = do {
     let r = r\<lparr>data_len := data_len r - total_bytes st\<rparr>;
     let r = (if blk_fs_request r \<or> blk_discard_rq r
              then r\<lparr>sector := sector r + scast (signed_drop_bit 9 (total_bytes st))\<rparr> else r);
     let r = (if rq_flagged r REQ_MIXED_MERGE
              then r\<lparr>cmd_flags := (cmd_flags r AND NOT REQ_FAILFAST_MASK) OR
                       (bi_rw (hd (bios r)) AND REQ_FAILFAST_MASK)\<rparr> else r);
     cur \<leftarrow> blk_rq_cur_bytes r;
     let r = (if blk_rq_bytes r < cur then r\<lparr>data_len := cur\<rparr> else r);
     Some (blk_recalc_rq_segments qs r)
   }"

definition blk_update_request ::
    "queue_settings \<Rightarrow> 'd request_queue \<Rightarrow> rqp \<Rightarrow> int \<Rightarrow> u32 \<Rightarrow> (bool \<times> 'd request_queue) option" where
  "blk_update_request qs q rq error nr =
     (if bios (rqs q rq) = [] then Some (False, q)
      else do {
        let q = (if blk_fs_request (rqs q rq) then rq_upd rq (\<lambda>r. r\<lparr>rq_errors := 0\<rparr>) q else q);
        (bs, st, q) \<leftarrow> update_loop rq error (bios (rqs q rq))
          \<lparr>nr_bytes = nr, total_bytes = 0, bio_nbytes = 0, next_idx = 0\<rparr> q;
        case bs of
          [] \<Rightarrow> Some (False, rq_upd rq (\<lambda>r. r\<lparr>bios := [], data_len := 0\<rparr>) q)
        | b # rest \<Rightarrow> do {
            (b, q) \<leftarrow> update_bio rq error b st q;
            r \<leftarrow> update_remaining qs st ((rqs q rq)\<lparr>bios := b # rest\<rparr>);
            Some (True, share_bios rq (rq_upd rq (\<lambda>_. r) q))
          }
      })"

definition blk_update_bidi_request ::
    "queue_settings \<Rightarrow> 'd request_queue \<Rightarrow> rqp \<Rightarrow> int \<Rightarrow> u32 \<Rightarrow> u32 \<Rightarrow> (bool \<times> 'd request_queue) option" where
  "blk_update_bidi_request qs q rq error nr bidi = do {
     (pending, q) \<leftarrow> blk_update_request qs q rq error nr;
     if pending then Some (True, q)
     else case next_rq (rqs q rq) of
       Some n \<Rightarrow> blk_update_request qs q n error bidi
     | None \<Rightarrow> Some (False, q)
   }"

end
