(* ===== verification/Request_Props.thy ===== *)
theory Request_Props
  imports Request Segments_Props
begin

text \<open>
  Completing a number of bytes of a request ends the bios that are done, in their order and once
  each, and leaves the request with exactly the bytes of memory behind the completed ones.
\<close>

section \<open>Well-formed requests\<close>

text \<open>
  The vectors a bio has left add up to its size, and the sizes of the bios to the length of the
  request.
\<close>

definition bio_ok :: "bio \<Rightarrow> bool" where
  "bio_ok b \<longleftrightarrow> bi_idx b \<le> bi_vcnt b \<and> bi_vcnt b \<le> length (bi_io_vec b) \<and>
     bytes_of (bio_segs b) = unat (bi_size b)"

definition bios_size :: "bio list \<Rightarrow> nat" where
  "bios_size bs = (\<Sum>b \<leftarrow> bs. unat (bi_size b))"

definition rq_ok :: "request \<Rightarrow> bool" where
  "rq_ok r \<longleftrightarrow> (\<forall>b \<in> set (bios r). bio_ok b \<and> bi_size b \<noteq> 0) \<and> bios_size (bios r) = unat (data_len r)"

definition segs_bytes :: "bio_vec list \<Rightarrow> u32 list" where
  "segs_bytes bvs = concat (map bvec_bytes bvs)"

definition rq_bytes :: "request \<Rightarrow> u32 list" where
  "rq_bytes r = segs_bytes (rq_segs r)"

lemma bios_size_simps [simp]:
  "bios_size [] = 0" "bios_size (b # bs) = unat (bi_size b) + bios_size bs"
  "bios_size (xs @ ys) = bios_size xs + bios_size ys"
  by (simp_all add: bios_size_def)

lemma segs_bytes_simps [simp]:
  "segs_bytes [] = []" "segs_bytes (bv # bvs) = bvec_bytes bv @ segs_bytes bvs"
  "segs_bytes (xs @ ys) = segs_bytes xs @ segs_bytes ys"
  by (simp_all add: segs_bytes_def)

lemma length_bvec_bytes [simp]: "length (bvec_bytes bv) = unat (bv_len bv)"
  by (simp add: bvec_bytes_def addr_bytes_def)

lemma length_segs_bytes [simp]: "length (segs_bytes bvs) = bytes_of bvs"
  by (induction bvs) simp_all

lemma segs_bytes_bios: "segs_bytes (concat (map bio_segs bs)) = concat (map (\<lambda>b. segs_bytes (bio_segs b)) bs)"
  by (induction bs) simp_all

lemma bvec_bytes_trim:
  assumes "unat n \<le> unat (bv_len bv)"
  shows "bvec_bytes (trim_bvec n bv) = drop (unat n) (bvec_bytes bv)"
proof -
  let ?a = "bvec_to_phys bv" and ?l = "bv_len bv - n"
  have "unat ?l = unat (bv_len bv) - unat n" using assms by (simp add: unat_sub word_le_nat_alt)
  then have "unat n + unat ?l < 2 ^ 32" using assms unsigned_less [of "bv_len bv"] by simp
  from addr_bytes_append [OF this, of ?a]
  have "addr_bytes ?a (bv_len bv) = addr_bytes ?a n @ addr_bytes (?a + n) ?l" by simp
  moreover have "length (addr_bytes ?a n) = unat n" by (simp add: addr_bytes_def)
  moreover have "bvec_bytes (trim_bvec n bv) = addr_bytes (?a + n) ?l"
    by (simp add: bvec_bytes_def trim_bvec_def bvec_to_phys_def add.assoc)
  ultimately show ?thesis by (simp add: bvec_bytes_def)
qed

lemma bio_segs_nth:
  assumes "bio_ok b" "j < length (bio_segs b)"
  shows "bio_iovec_idx b (bi_idx b + j) = Some (bio_segs b ! j)" "bi_idx b + j < bi_vcnt b"
  using assms by (auto simp: bio_ok_def bio_segs_def bio_iovec_idx_def)

lemma length_bio_segs: "bio_ok b \<Longrightarrow> length (bio_segs b) = bi_vcnt b - bi_idx b"
  by (simp add: bio_ok_def bio_segs_def diff_le_mono min_absorb2)

lemma bytes_of_nth: "j < length bvs \<Longrightarrow> bytes_of (take (Suc j) bvs) = bytes_of (take j bvs) + unat (bv_len (bvs ! j))"
  by (simp add: take_Suc_conv_app_nth)

lemma bytes_of_take_le: "bytes_of (take j bvs) \<le> bytes_of bvs"
  by (metis append_take_drop_id bytes_of_simps(3) le_add1)

section \<open>The loop\<close>

text \<open>How far the loop is in the first bio: \<open>c\<close> bytes, of which the vectors before \<open>next_idx\<close> are whole.\<close>

definition in_bio :: "nat \<Rightarrow> bio \<Rightarrow> upd_state \<Rightarrow> bool" where
  "in_bio c b st \<longleftrightarrow> c < unat (bi_size b) \<and> next_idx st < length (bio_segs b) \<and>
     bio_nbytes st = word_of_nat c \<and>
     bytes_of (take (next_idx st) (bio_segs b)) + unat (nr_bytes st) = c \<and>
     unat (nr_bytes st) \<le> unat (bv_len (bio_segs b ! next_idx st))"

lemma more_segs:
  assumes "bio_ok b" "bytes_of (take j (bio_segs b)) < unat (bi_size b)"
  shows "j < length (bio_segs b)"
proof (rule ccontr)
  assume "\<not> j < length (bio_segs b)"
  then have "take j (bio_segs b) = bio_segs b" by simp
  then show False using assms by (simp add: bio_ok_def)
qed

lemma update_in_bio:
  assumes "bio_ok b" "bytes_of (take (next_idx st) (bio_segs b)) + unat (nr_bytes st) = c"
    "c < unat (bi_size b)" "bio_nbytes st + nr_bytes st = word_of_nat c"
  shows "\<exists>st'. update_loop rq error (b # bs) st q = Some (b # bs, st', q) \<and> in_bio c b st' \<and>
     total_bytes st' = total_bytes st + nr_bytes st"
  using assms
proof (induction "length (bio_segs b) - next_idx st" arbitrary: st rule: less_induct)
  case less
  let ?j = "next_idx st"
  let ?bv = "bio_segs b ! ?j"
  note ok = less.prems(1) and sum = less.prems(2) and c = less.prems(3) and bn = less.prems(4)
  have j: "?j < length (bio_segs b)" by (rule more_segs [OF ok]) (use sum c in linarith)
  note nth = bio_segs_nth [OF ok j]
  have lt: "\<not> nr_bytes st \<ge> bi_size b" using sum c by (simp add: word_le_nat_alt)
  have step: "bytes_of (take (Suc ?j) (bio_segs b)) = bytes_of (take ?j (bio_segs b)) + unat (bv_len ?bv)"
    by (rule bytes_of_nth [OF j])
  have len: "\<not> bv_len ?bv > bi_size b"
    using step bytes_of_take_le [of "Suc ?j" "bio_segs b"] ok by (simp add: bio_ok_def word_less_nat_alt)
  show ?case
  proof (cases "bv_len ?bv > nr_bytes st")
    case True
    let ?st = "st\<lparr>bio_nbytes := bio_nbytes st + nr_bytes st, total_bytes := total_bytes st + nr_bytes st\<rparr>"
    have "update_loop rq error (b # bs) st q = Some (b # bs, ?st, q)"
      using lt nth len True by (simp add: update_loop.simps(2))
    moreover have "in_bio c b ?st"
      using True j sum c bn by (simp add: in_bio_def word_less_nat_alt)
    ultimately show ?thesis by auto
  next
    case False
    let ?st = "\<lparr>nr_bytes = nr_bytes st - bv_len ?bv, total_bytes = total_bytes st + bv_len ?bv,
                bio_nbytes = bio_nbytes st + bv_len ?bv, next_idx = ?j + 1\<rparr>"
    have nr: "unat (nr_bytes ?st) = unat (nr_bytes st) - unat (bv_len ?bv)"
      using False by (simp add: unat_sub)
    have sum': "bytes_of (take (next_idx ?st) (bio_segs b)) + unat (nr_bytes ?st) = c"
      using sum step nr False by (simp add: word_le_nat_alt not_less)
    have bn': "bio_nbytes ?st + nr_bytes ?st = word_of_nat c" using bn by (simp add: algebra_simps)
    have tot: "total_bytes ?st + nr_bytes ?st = total_bytes st + nr_bytes st" by simp
    have loop: "update_loop rq error (b # bs) st q =
        (if nr_bytes ?st = 0 then Some (b # bs, ?st, q) else update_loop rq error (b # bs) ?st q)"
      using lt nth len False by (subst update_loop.simps(2)) (simp add: Let_def)
    show ?thesis
    proof (cases "nr_bytes ?st = 0")
      case True
      have "?j + 1 < length (bio_segs b)"
        by (rule more_segs [OF ok]) (use sum' c in simp)
      then have "in_bio c b ?st" using sum' c bn' True by (simp add: in_bio_def)
      then show ?thesis using loop True tot by auto
    next
      case nz: False
      have "length (bio_segs b) - next_idx ?st < length (bio_segs b) - ?j" using j by simp
      from less.hyps [OF this ok sum' c bn'] show ?thesis using loop nz tot by auto
    qed
  qed
qed

text \<open>Ending the bios of a list whole, one after the other.\<close>

definition end_bios :: "rqp \<Rightarrow> int \<Rightarrow> bio list \<Rightarrow> 'd request_queue \<Rightarrow> 'd request_queue" where
  "end_bios rq error bs q = foldl (\<lambda>q b. snd (req_bio_endio q rq b (bi_size b) error)) q bs"

lemma update_loop_spec:
  assumes "\<forall>b \<in> set bs. bio_ok b \<and> bi_size b \<noteq> 0" "next_idx st = 0" "bio_nbytes st = 0"
  shows "\<exists>ds bs' st'. bs = ds @ bs' \<and> update_loop rq error bs st q = Some (bs', st', end_bios rq error ds q) \<and>
     (if unat (nr_bytes st) < bios_size bs
      then bs' \<noteq> [] \<and> in_bio (unat (nr_bytes st) - bios_size ds) (hd bs') st' \<and>
           bios_size ds \<le> unat (nr_bytes st) \<and> total_bytes st' = total_bytes st + nr_bytes st
      else bs' = [])"
  using assms
proof (induction bs arbitrary: st q)
  case Nil
  then show ?case by (simp add: update_loop.simps(1) end_bios_def)
next
  case (Cons b bs)
  have ok: "bio_ok b" "bi_size b \<noteq> 0" using Cons.prems(1) by auto
  show ?case
  proof (cases "nr_bytes st \<ge> bi_size b")
    case False
    have n: "unat (nr_bytes st) < unat (bi_size b)" using False by (simp add: word_le_nat_alt not_le)
    have "bytes_of (take (next_idx st) (bio_segs b)) + unat (nr_bytes st) = unat (nr_bytes st)"
        "bio_nbytes st + nr_bytes st = word_of_nat (unat (nr_bytes st))"
      using Cons.prems(2,3) by simp_all
    from update_in_bio [OF ok(1) this(1) n this(2), of rq error bs q] obtain st' where
        "update_loop rq error (b # bs) st q = Some (b # bs, st', q)" "in_bio (unat (nr_bytes st)) b st'"
        "total_bytes st' = total_bytes st + nr_bytes st" by blast
    then show ?thesis using n by (intro exI [of _ "[]"] exI [of _ "b # bs"] exI [of _ st']) (simp add: end_bios_def)
  next
    case True
    let ?q = "snd (req_bio_endio q rq b (bi_size b) error)"
    let ?st = "\<lparr>nr_bytes = nr_bytes st - bi_size b, total_bytes = total_bytes st + bi_size b, bio_nbytes = 0, next_idx = 0\<rparr>"
    have n: "unat (nr_bytes ?st) = unat (nr_bytes st) - unat (bi_size b)" "unat (bi_size b) \<le> unat (nr_bytes st)"
      using True by (simp_all add: unat_sub word_le_nat_alt)
    have tot: "total_bytes ?st + nr_bytes ?st = total_bytes st + nr_bytes st" by simp
    have loop: "update_loop rq error (b # bs) st q =
        (if bs \<noteq> [] \<and> nr_bytes ?st = 0 then Some (bs, ?st, ?q) else update_loop rq error bs ?st ?q)"
      using True by (subst update_loop.simps(2)) (simp add: Let_def)
    show ?thesis
    proof (cases "bs \<noteq> [] \<and> nr_bytes ?st = 0")
      case stop: True
      then obtain b' r where bs: "bs = b' # r" by (cases bs) auto
      have b': "bio_ok b'" "bi_size b' \<noteq> 0" using Cons.prems(1) bs by auto
      have pos: "0 < unat (bi_size b')" using b'(2) by (simp add: unat_gt_0)
      have eq: "unat (nr_bytes st) = unat (bi_size b)" using n stop by simp
      have "in_bio 0 b' ?st"
        using more_segs [OF b'(1), of 0] pos stop by (simp add: in_bio_def)
      then show ?thesis
        using loop stop bs eq pos tot
        by (intro exI [of _ "[b]"] exI [of _ bs] exI [of _ ?st]) (simp add: end_bios_def)
    next
      case go: False
      have oks: "\<forall>b \<in> set bs. bio_ok b \<and> bi_size b \<noteq> 0" using Cons.prems(1) by simp
      have z: "next_idx ?st = 0" "bio_nbytes ?st = 0" by simp_all
      obtain ds bs' st' where ih: "bs = ds @ bs'"
          "update_loop rq error bs ?st ?q = Some (bs', st', end_bios rq error ds ?q)"
          "if unat (nr_bytes ?st) < bios_size bs
           then bs' \<noteq> [] \<and> in_bio (unat (nr_bytes ?st) - bios_size ds) (hd bs') st' \<and>
             bios_size ds \<le> unat (nr_bytes ?st) \<and> total_bytes st' = total_bytes ?st + nr_bytes ?st
           else bs' = []"
        using Cons.IH [OF oks z, of ?q] by (elim exE conjE) (rule that)
      have ended: "end_bios rq error ds ?q = end_bios rq error (b # ds) q" by (simp add: end_bios_def)
      have run: "update_loop rq error (b # bs) st q = Some (bs', st', end_bios rq error (b # ds) q)"
        unfolding loop if_not_P [OF go] ih(2) ended ..
      have less: "unat (nr_bytes ?st) < bios_size bs \<longleftrightarrow> unat (nr_bytes st) < bios_size (b # bs)"
        using n unfolding bios_size_simps by linarith
      have diff: "unat (nr_bytes ?st) - bios_size ds = unat (nr_bytes st) - bios_size (b # ds)"
        using n unfolding bios_size_simps by linarith
      have le: "bios_size ds \<le> unat (nr_bytes ?st) \<longleftrightarrow> bios_size (b # ds) \<le> unat (nr_bytes st)"
        using n unfolding bios_size_simps by linarith
      have "b # bs = (b # ds) @ bs'" using ih(1) by simp
      then show ?thesis using run ih(3) [unfolded less diff le tot] by (intro exI conjI)
    qed
  qed
qed

section \<open>The bio that is completed in part\<close>

lemma bio_segs_split:
  assumes "j < length (bio_segs b)"
  shows "bio_segs b = take j (bio_segs b) @ bio_segs b ! j # drop (Suc j) (bio_segs b)"
  using assms by (simp add: Cons_nth_drop_Suc)

lemma bio_segs_advance:
  assumes "bio_ok b" "j < length (bio_segs b)" "bi_idx b' = bi_idx b + j" "bi_vcnt b' = bi_vcnt b"
    "bi_io_vec b' = (bi_io_vec b)[bi_idx b + j := bv]"
  shows "bio_segs b' = bv # drop (Suc j) (bio_segs b)"
proof -
  let ?i = "bi_idx b + j" and ?v = "bi_io_vec b"
  have i: "?i < bi_vcnt b" by (rule bio_segs_nth(2) [OF assms(1,2)])
  have v: "bi_vcnt b \<le> length ?v" using assms(1) by (simp add: bio_ok_def)
  have "drop ?i (?v[?i := bv]) = bv # drop (Suc ?i) ?v"
    using i v by (simp add: drop_update_swap Cons_nth_drop_Suc [symmetric])
  then have "bio_segs b' = take (bi_vcnt b - ?i) (bv # drop (Suc ?i) ?v)"
    by (simp add: bio_segs_def assms(3-5))
  also have "\<dots> = bv # take (bi_vcnt b - Suc ?i) (drop (Suc ?i) ?v)"
    using i by (simp add: take_Cons')
  also have "\<dots> = bv # drop (Suc j) (bio_segs b)"
    by (simp add: bio_segs_def drop_take add.commute)
  finally show ?thesis .
qed

lemma unat_of_nat_less: "c < unat (w :: u32) \<Longrightarrow> unat (word_of_nat c :: u32) = c"
proof -
  assume "c < unat w"
  also have "unat w < 2 ^ 32" using unsigned_less [of w] by simp
  finally show ?thesis by (rule unat_word_of_nat_32)
qed

lemma uptodate_fields [simp]:
  "bi_size (fst (bio_uptodate b e)) = bi_size b" "bi_idx (fst (bio_uptodate b e)) = bi_idx b"
  "bi_vcnt (fst (bio_uptodate b e)) = bi_vcnt b" "bi_io_vec (fst (bio_uptodate b e)) = bi_io_vec b"
  "bi_rw (fst (bio_uptodate b e)) = bi_rw b"
  by (simp_all add: bio_uptodate_def)

lemma req_bio_endio_part:
  assumes "rq \<noteq> BarRq" "n < bi_size b"
  shows "\<exists>b'. req_bio_endio q rq b n e = (b', q) \<and> bi_size b' = bi_size b - n \<and> bi_idx b' = bi_idx b \<and>
     bi_vcnt b' = bi_vcnt b \<and> bi_io_vec b' = bi_io_vec b \<and> bi_rw b' = bi_rw b"
proof -
  obtain b1 e1 where u: "bio_uptodate b e = (b1, e1)" by fastforce
  then have f: "bi_size b1 = bi_size b" "bi_idx b1 = bi_idx b" "bi_vcnt b1 = bi_vcnt b"
      "bi_io_vec b1 = bi_io_vec b" "bi_rw b1 = bi_rw b"
    using uptodate_fields [of b e] by simp_all
  have "\<not> n > bi_size b" "bi_size b - n \<noteq> 0" using assms(2) by auto
  then show ?thesis using assms(1) by (simp add: req_bio_endio_def u f Let_def)
qed

lemma update_bio_spec:
  assumes ok: "bio_ok b" and at: "in_bio c b st" and rq: "rq \<noteq> BarRq"
  shows "\<exists>b'. update_bio rq error b st q = Some (b', q) \<and> bio_ok b' \<and> unat (bi_size b') = unat (bi_size b) - c \<and>
     segs_bytes (bio_segs b') = drop c (segs_bytes (bio_segs b)) \<and> bi_idx b' < bi_vcnt b' \<and> bi_rw b' = bi_rw b"
proof (cases "c = 0")
  case True
  have "bi_idx b < bi_vcnt b" using bio_segs_nth(2) [OF ok, of "next_idx st"] at by (simp add: in_bio_def)
  then show ?thesis using True at ok by (simp add: in_bio_def update_bio_def)
next
  case False
  let ?j = "next_idx st" and ?m = "nr_bytes st"
  let ?bv = "bio_segs b ! ?j"
  have c: "c < unat (bi_size b)" and j: "?j < length (bio_segs b)" and n: "bio_nbytes st = word_of_nat c"
      and sum: "bytes_of (take ?j (bio_segs b)) + unat ?m = c" and m: "unat ?m \<le> unat (bv_len ?bv)"
    using at by (simp_all add: in_bio_def)
  have un: "unat (bio_nbytes st) = c" using unat_of_nat_less [OF c] n by simp
  then have "bio_nbytes st < bi_size b" using c by (simp add: word_less_nat_alt)
  from req_bio_endio_part [OF rq this, of q error] obtain b1 where b1:
      "req_bio_endio q rq b (bio_nbytes st) error = (b1, q)" "bi_size b1 = bi_size b - bio_nbytes st"
      "bi_idx b1 = bi_idx b" "bi_vcnt b1 = bi_vcnt b" "bi_io_vec b1 = bi_io_vec b" "bi_rw b1 = bi_rw b" by blast
  let ?i = "bi_idx b + ?j"
  let ?b = "b1\<lparr>bi_idx := ?i, bi_io_vec := (bi_io_vec b)[?i := trim_bvec ?m ?bv]\<rparr>"
  have nz: "bio_nbytes st \<noteq> 0" using un False by auto
  have iov: "bio_iovec_idx b1 ?i = Some ?bv"
    using bio_segs_nth(1) [OF ok j] b1(5) by (simp only: bio_iovec_idx_def)
  have run: "update_bio rq error b st q = Some (?b, q)"
    using nz iov by (simp add: update_bio_def b1 Let_def)
  have i: "?i < bi_vcnt b" by (rule bio_segs_nth(2) [OF ok j])
  have segs: "bio_segs ?b = trim_bvec ?m ?bv # drop (Suc ?j) (bio_segs b)"
    by (rule bio_segs_advance [OF ok j]) (simp_all add: b1)
  have size: "unat (bi_size ?b) = unat (bi_size b) - c"
    using un c by (simp add: b1 unat_sub word_le_nat_alt)
  have bytes: "segs_bytes (bio_segs ?b) = drop c (segs_bytes (bio_segs b))"
  proof -
    have "drop c (segs_bytes (bio_segs b)) =
        drop (bytes_of (take ?j (bio_segs b)) + unat ?m)
          (segs_bytes (take ?j (bio_segs b)) @ bvec_bytes ?bv @ segs_bytes (drop (Suc ?j) (bio_segs b)))"
      using sum by (subst bio_segs_split [OF j]) (simp only: segs_bytes_simps)
    also have "\<dots> = drop (unat ?m) (bvec_bytes ?bv) @ segs_bytes (drop (Suc ?j) (bio_segs b))"
      using m by simp
    finally show ?thesis using segs bvec_bytes_trim [OF m] by simp
  qed
  have "bytes_of (bio_segs ?b) = unat (bi_size ?b)"
  proof -
    have "bytes_of (bio_segs ?b) = length (drop c (segs_bytes (bio_segs b)))" using bytes by (metis length_segs_bytes)
    then show ?thesis using ok size by (simp add: bio_ok_def)
  qed
  then have "bio_ok ?b" using ok i by (simp add: bio_ok_def b1)
  then show ?thesis using run size bytes i by (intro exI [of _ ?b]) (simp add: b1)
qed

lemma recalc_keeps:
  assumes "\<And>b x. f (b\<lparr>bi_seg_front_size := x\<rparr>) = f b" "\<And>b x. f (b\<lparr>bi_seg_back_size := x\<rparr>) = f b"
  shows "map f (snd (recalc_rq_segments qs bs)) = map f bs"
proof (cases bs)
  case (Cons b r)
  have upd: "map f (xs[i := y]) = map f xs" if "i < length xs" "f y = f (xs ! i)" for xs i y
    using that by (simp add: map_update list_update_same_conv)
  show ?thesis
    by (simp add: Cons recalc_rq_segments_def Let_def assms upd nth_Cons split: nat.split)
qed (simp add: recalc_rq_segments_def)

section \<open>Completing a part of a request\<close>

text \<open>What the owner of a bio sees when the whole of it ends: the bio and its error.\<close>

definition ended_as :: "request \<Rightarrow> int \<Rightarrow> bio \<Rightarrow> bio \<times> int" where
  "ended_as r error b =
     (let (b1, e1) = bio_uptodate b error;
          b2 = (if rq_flagged r REQ_QUIET then b1\<lparr>bi_flags := set_bit BIO_QUIET (bi_flags b1)\<rparr> else b1)
      in bio_uptodate (b2\<lparr>bi_size := 0, bi_sector := bi_sector b2 + ucast (bio_sectors b)\<rparr>) e1)"

lemma req_bio_endio_whole:
  assumes "rq \<noteq> BarRq"
  shows "snd (req_bio_endio q rq b (bi_size b) e) = q\<lparr>ended_bios := ended_as (rqs q rq) e b # ended_bios q\<rparr>"
proof -
  obtain b1 e1 where u: "bio_uptodate b e = (b1, e1)" by fastforce
  then have "bi_size b1 = bi_size b" using uptodate_fields(1) [of b e] by simp
  then show ?thesis
    using assms by (simp add: req_bio_endio_def ended_as_def u Let_def bio_endio_def bio_sectors_def split: prod.split)
qed

lemma end_bios_eq:
  assumes "rq \<noteq> BarRq"
  shows "end_bios rq e ds q = q\<lparr>ended_bios := rev (map (ended_as (rqs q rq) e) ds) @ ended_bios q\<rparr>"
proof (induction ds arbitrary: q)
  case (Cons d ds)
  have "end_bios rq e (d # ds) q = end_bios rq e ds (snd (req_bio_endio q rq d (bi_size d) e))"
    by (simp add: end_bios_def)
  then show ?case by (simp add: Cons.IH req_bio_endio_whole [OF assms])
qed (simp add: end_bios_def)

lemma update_remaining_spec:
  assumes bs: "bios r = b # rest" and ok: "bio_ok b" "bi_idx b < bi_vcnt b"
    and len: "unat (bi_size b) \<le> unat (data_len r - total_bytes st)"
  shows "\<exists>r'. update_remaining qs st r = Some r' \<and> data_len r' = data_len r - total_bytes st \<and>
     map bio_segs (bios r') = map bio_segs (bios r) \<and> map bio_ok (bios r') = map bio_ok (bios r) \<and>
     map bi_size (bios r') = map bi_size (bios r) \<and>
     sector r' = (if blk_fs_request r \<or> blk_discard_rq r
                  then sector r + scast (signed_drop_bit 9 (total_bytes st)) else sector r)"
proof -
  have "0 < length (bio_segs b)" using ok by (simp add: length_bio_segs)
  note first = bio_segs_nth(1) [OF ok(1) this]
  let ?cur = "bv_len (bio_segs b ! 0)"
  have cur: "bio_cur_bytes b = Some ?cur" using first ok(2) by (simp add: bio_cur_bytes_def)
  have "unat ?cur \<le> bytes_of (bio_segs b)" using \<open>0 < length (bio_segs b)\<close> by (cases "bio_segs b") simp_all
  then have "unat ?cur \<le> unat (data_len r - total_bytes st)" using ok(1) len by (simp add: bio_ok_def)
  then have fits: "\<not> data_len r - total_bytes st < ?cur" by (simp add: word_less_nat_alt)
  define g where "g = (\<lambda>r :: request. blk_recalc_rq_segments qs r)"
  have g: "data_len (g r) = data_len r" "sector (g r) = sector r" "map bio_segs (bios (g r)) = map bio_segs (bios r)"
      "map bio_ok (bios (g r)) = map bio_ok (bios r)" "map bi_size (bios (g r)) = map bi_size (bios r)" for r
    using recalc_keeps [of bio_segs qs "bios r"] recalc_keeps [of bio_ok qs "bios r"] recalc_keeps [of bi_size qs "bios r"]
    by (simp_all add: g_def blk_recalc_rq_segments_def bio_segs_def bio_ok_def case_prod_beta)
  show ?thesis
    using cur fits bs
    by (simp add: update_remaining_def Let_def blk_rq_cur_bytes_def blk_rq_bytes_def g_def [symmetric] g
        blk_fs_request_def blk_discard_rq_def rq_flagged_def)
qed

lemma ball_map_cong:
  assumes "map f xs = map f ys" "\<And>a b. f a = f b \<Longrightarrow> P a \<longleftrightarrow> P b"
  shows "(\<forall>x \<in> set xs. P x) \<longleftrightarrow> (\<forall>y \<in> set ys. P y)"
  using assms(1)
proof (induction xs arbitrary: ys)
  case (Cons x xs)
  then obtain y ys' where "ys = y # ys'" "f x = f y" "map f xs = map f ys'" by (cases ys) auto
  then show ?case using Cons.IH assms(2) [of x y] by simp
qed simp

lemma bios_size_cong: "map bi_size xs = map bi_size ys \<Longrightarrow> bios_size xs = bios_size ys"
proof -
  assume "map bi_size xs = map bi_size ys"
  then have "sum_list (map unat (map bi_size xs)) = sum_list (map unat (map bi_size ys))" by simp
  then show ?thesis by (simp add: bios_size_def comp_def)
qed

lemma rq_okI:
  assumes "map bio_ok (bios r) = map bio_ok bs" "map bi_size (bios r) = map bi_size bs"
    "\<forall>b \<in> set bs. bio_ok b \<and> bi_size b \<noteq> 0" "bios_size bs = unat (data_len r)"
  shows "rq_ok r"
  using ball_map_cong [OF assms(1), of bio_ok] ball_map_cong [OF assms(2), of "\<lambda>b. bi_size b \<noteq> 0"]
    bios_size_cong [OF assms(2)] assms(3,4) by (simp add: rq_ok_def)

lemma length_bios_bytes:
  "\<forall>b \<in> set bs. bio_ok b \<Longrightarrow> length (segs_bytes (concat (map bio_segs bs))) = bios_size bs"
  unfolding length_segs_bytes by (induction bs) (simp_all add: bio_ok_def)

lemma rq_bytes_drop:
  assumes "bios r = ds @ b # rest" "\<forall>b \<in> set ds. bio_ok b" "bio_ok b"
    "bios_size ds \<le> n" "n < bios_size ds + unat (bi_size b)"
    "segs_bytes (bio_segs b') = drop (n - bios_size ds) (segs_bytes (bio_segs b))"
    "map bio_segs (bios r') = map bio_segs (b' # rest)"
  shows "rq_bytes r' = drop n (rq_bytes r)"
proof -
  have "rq_bytes r' = segs_bytes (bio_segs b') @ segs_bytes (concat (map bio_segs rest))"
    by (simp add: rq_bytes_def rq_segs_def assms(7))
  moreover have "rq_bytes r = segs_bytes (concat (map bio_segs ds)) @
      segs_bytes (bio_segs b) @ segs_bytes (concat (map bio_segs rest))"
    by (simp add: rq_bytes_def rq_segs_def assms(1))
  ultimately show ?thesis
    using assms(3-6) length_bios_bytes [OF assms(2)] by (simp add: bio_ok_def)
qed

lemma update_request_part:
  assumes ok: "rq_ok (rqs q rq)" and rq: "rq \<noteq> BarRq" and n: "unat n < unat (data_len (rqs q rq))"
  shows "\<exists>q' ds rest. blk_update_request qs q rq error n = Some (True, q') \<and> rq_ok (rqs q' rq) \<and>
     rq_bytes (rqs q' rq) = drop (unat n) (rq_bytes (rqs q rq)) \<and>
     unat (data_len (rqs q' rq)) = unat (data_len (rqs q rq)) - unat n \<and>
     bios (rqs q rq) = ds @ rest \<and> bios_size ds \<le> unat n \<and> rest \<noteq> [] \<and>
     unat n < bios_size ds + unat (bi_size (hd rest)) \<and>
     ended_bios q' = rev (map (ended_as (rqs q rq) error) ds) @ ended_bios q \<and>
     length (bios (rqs q' rq)) = length rest"
proof -
  let ?r = "rqs q rq"
  let ?bs = "bios ?r" and ?st = "\<lparr>nr_bytes = n, total_bytes = 0, bio_nbytes = 0, next_idx = 0\<rparr>"
  define q1 where "q1 = (if blk_fs_request ?r then rq_upd rq (\<lambda>r. r\<lparr>rq_errors := 0\<rparr>) q else q)"
  have q1: "bios (rqs q1 rq) = ?bs" "data_len (rqs q1 rq) = data_len ?r" "ended_bios q1 = ended_bios q"
      "ended_as (rqs q1 rq) = ended_as ?r"
    by (simp_all add: q1_def rq_upd_def ended_as_def fun_eq_iff rq_flagged_def)
  have all: "\<forall>b \<in> set ?bs. bio_ok b \<and> bi_size b \<noteq> 0" and total: "bios_size ?bs = unat (data_len ?r)"
    using ok by (simp_all add: rq_ok_def)
  have ne: "?bs \<noteq> []" using n total by auto
  obtain ds bs' st where loop: "?bs = ds @ bs'" "update_loop rq error ?bs ?st q1 = Some (bs', st, end_bios rq error ds q1)"
      "bs' \<noteq> []" "in_bio (unat n - bios_size ds) (hd bs') st" "bios_size ds \<le> unat n" "total_bytes st = n"
    using update_loop_spec [OF all, of ?st rq error q1] n total by auto
  then obtain b rest where bs': "bs' = b # rest" by (cases bs') auto
  define c where "c = unat n - bios_size ds"
  have at: "in_bio c b st" using loop(4) bs' by (simp add: c_def)
  then have c: "c < unat (bi_size b)" by (simp add: in_bio_def)
  have oks: "\<forall>b \<in> set ds. bio_ok b" "bio_ok b" "\<forall>b \<in> set rest. bio_ok b \<and> bi_size b \<noteq> 0"
    using all loop(1) bs' by auto
  let ?q2 = "end_bios rq error ds q1"
  have q2: "?q2 = q1\<lparr>ended_bios := rev (map (ended_as ?r error) ds) @ ended_bios q\<rparr>"
    by (simp add: end_bios_eq [OF rq] q1)
  obtain b' where b': "update_bio rq error b st ?q2 = Some (b', ?q2)" "bio_ok b'"
      "unat (bi_size b') = unat (bi_size b) - c" "segs_bytes (bio_segs b') = drop c (segs_bytes (bio_segs b))"
      "bi_idx b' < bi_vcnt b'"
    using update_bio_spec [OF oks(2) at rq, of error ?q2] by blast
  let ?r2 = "(rqs ?q2 rq)\<lparr>bios := b' # rest\<rparr>"
  have len: "unat (data_len ?r2 - total_bytes st) = unat (data_len ?r) - unat n"
    using n by (simp add: q2 q1 loop(6) unat_sub word_le_nat_alt)
  have sizes: "bios_size ds + unat (bi_size b) + bios_size rest = unat (data_len ?r)"
    using total loop(1) bs' by simp
  then have left: "bios_size (b' # rest) = unat (data_len ?r2 - total_bytes st)"
    using len b'(3) c loop(5) by (simp add: c_def)
  then have "unat (bi_size b') \<le> unat (data_len ?r2 - total_bytes st)" by simp
  from update_remaining_spec [OF _ b'(2,5) this, of rest qs] obtain r' where r':
      "update_remaining qs st ?r2 = Some r'" "data_len r' = data_len ?r2 - total_bytes st"
      "map bio_segs (bios r') = map bio_segs (b' # rest)" "map bio_ok (bios r') = map bio_ok (b' # rest)"
      "map bi_size (bios r') = map bi_size (b' # rest)" by auto
  let ?q' = "rq_upd rq (\<lambda>_. r') ?q2"
  have run: "blk_update_request qs q rq error n = Some (True, ?q')"
    using ne loop(2) b'(1) r'(1) q1(1) rq bs'
    by (simp add: blk_update_request_def q1_def [symmetric] share_bios_def split: rqp.split)
  have okr: "rq_ok r'"
  proof (rule rq_okI [OF r'(4,5)])
    show "\<forall>b \<in> set (b' # rest). bio_ok b \<and> bi_size b \<noteq> 0" using b'(2,3) c oks(3) by auto
  qed (simp only: left r'(2))
  have bytes: "rq_bytes r' = drop (unat n) (rq_bytes ?r)"
    by (rule rq_bytes_drop [OF _ oks(1,2) loop(5) _ _ r'(3)]) (use loop(1,5) bs' c b'(4) in \<open>simp_all add: c_def\<close>)
  have "rqs ?q' rq = r'" "ended_bios ?q' = rev (map (ended_as ?r error) ds) @ ended_bios q"
    by (simp_all add: rq_upd_def q2)
  moreover have "length (bios r') = length (b # rest)" using arg_cong [OF r'(3), of length] by simp
  moreover have "unat (data_len r') = unat (data_len ?r) - unat n" using r'(2) len by simp
  ultimately show ?thesis
    using run okr bytes loop(1,5) bs' c
    by (intro exI [of _ ?q'] exI [of _ ds] exI [of _ "b # rest"]) (simp add: c_def)
qed

lemma update_request_whole:
  assumes ok: "rq_ok (rqs q rq)" and rq: "rq \<noteq> BarRq" and n: "unat (data_len (rqs q rq)) \<le> unat n"
  shows "\<exists>q'. blk_update_request qs q rq error n = Some (False, q') \<and> bios (rqs q' rq) = [] \<and>
     data_len (rqs q' rq) = 0 \<and>
     ended_bios q' = rev (map (ended_as (rqs q rq) error) (bios (rqs q rq))) @ ended_bios q"
proof (cases "bios (rqs q rq) = []")
  case True
  then have "data_len (rqs q rq) = 0" using ok by (simp add: rq_ok_def unsigned_eq_0_iff)
  then show ?thesis using True by (simp add: blk_update_request_def)
next
  case False
  let ?r = "rqs q rq"
  let ?bs = "bios ?r" and ?st = "\<lparr>nr_bytes = n, total_bytes = 0, bio_nbytes = 0, next_idx = 0\<rparr>"
  define q1 where "q1 = (if blk_fs_request ?r then rq_upd rq (\<lambda>r. r\<lparr>rq_errors := 0\<rparr>) q else q)"
  have q1: "bios (rqs q1 rq) = ?bs" "ended_bios q1 = ended_bios q" "ended_as (rqs q1 rq) = ended_as ?r"
    by (simp_all add: q1_def rq_upd_def ended_as_def fun_eq_iff rq_flagged_def)
  have all: "\<forall>b \<in> set ?bs. bio_ok b \<and> bi_size b \<noteq> 0" "bios_size ?bs = unat (data_len ?r)"
    using ok by (simp_all add: rq_ok_def)
  obtain st where "update_loop rq error ?bs ?st q1 = Some ([], st, end_bios rq error ?bs q1)"
    using update_loop_spec [OF all(1), of ?st rq error q1] n all(2) by auto
  then show ?thesis
    using False q1 by (simp add: blk_update_request_def q1_def [symmetric] end_bios_eq [OF rq] rq_upd_def)
qed

lemma length_rq_bytes: "rq_ok r \<Longrightarrow> length (rq_bytes r) = unat (data_len r)"
  using length_bios_bytes [of "bios r"] by (simp add: rq_ok_def rq_bytes_def rq_segs_def)

text \<open>
  C26. Completing \<open>n\<close> bytes of a request ends the bios that lie within the first \<open>n\<close> bytes, in order
  and with the given error, keeps the request well-formed, shortens it by \<open>n\<close> bytes, and leaves
  to be transferred exactly the bytes of memory behind the first \<open>n\<close>; the call reports whether
  anything is left, so completing the full length always finishes the request.
\<close>

theorem blk_update_request_correct:
  assumes "rq_ok (rqs q rq)" "rq \<noteq> BarRq"
  shows "\<exists>q' ds rest.
     blk_update_request qs q rq error n = Some (unat n < unat (data_len (rqs q rq)), q') \<and> rq_ok (rqs q' rq) \<and>
     rq_bytes (rqs q' rq) = drop (unat n) (rq_bytes (rqs q rq)) \<and>
     unat (data_len (rqs q' rq)) = unat (data_len (rqs q rq)) - unat n \<and>
     bios (rqs q rq) = ds @ rest \<and> length (bios (rqs q' rq)) = length rest \<and>
     (rest \<noteq> [] \<longrightarrow> bios_size ds \<le> unat n \<and> unat n < bios_size ds + unat (bi_size (hd rest))) \<and>
     ended_bios q' = rev (map (ended_as (rqs q rq) error) ds) @ ended_bios q"
proof (cases "unat n < unat (data_len (rqs q rq))")
  case True
  from update_request_part [OF assms True, of qs error] show ?thesis using True by auto
next
  case False
  then have "unat (data_len (rqs q rq)) \<le> unat n" by simp
  from update_request_whole [OF assms this, of qs error] obtain q' where
      q': "blk_update_request qs q rq error n = Some (False, q')" "bios (rqs q' rq) = []" "data_len (rqs q' rq) = 0"
        "ended_bios q' = rev (map (ended_as (rqs q rq) error) (bios (rqs q rq))) @ ended_bios q" by blast
  have "rq_ok (rqs q' rq)" "rq_bytes (rqs q' rq) = []"
    using q'(2,3) by (simp_all add: rq_ok_def rq_bytes_def rq_segs_def)
  then show ?thesis
    using q' False length_rq_bytes [OF assms(1)]
    by (intro exI [of _ q'] exI [of _ "bios (rqs q rq)"] exI [of _ "[]"]) simp
qed

theorem blk_update_request_correct_witness:
  "\<exists>q'. blk_update_request qs0 merge_sample (Rq 7) 0 700 = Some (True, q') \<and>
     unat (data_len (rqs q' (Rq 7))) = 1348"
proof -
  have "rq_ok (rqs merge_sample (Rq 7))"
    by (simp add: rq_ok_def merge_sample_def bio_counted_def bio3_def bio_zero_def bio_ok_def bio_segs_def)
  from blk_update_request_correct [OF this, of qs0 0 700] show ?thesis by (auto simp: merge_sample_def)
qed

end
