(* ===== verification/Tags.thy ===== *)
theory Tags
  imports Request
begin

text \<open>
  Tagged command queueing, \<^verbatim>\<open>block/blk-tag.c\<close>, with the requeueing of \<^verbatim>\<open>block/blk-core.c\<close> that gives
  tags back. The two arrays of a tag map are lists; touching them outside of their bounds is the
  stop \<open>None\<close>. Whether the allocator has memory for the two arrays is the argument \<open>mem\<close>.
\<close>

section \<open>Tag maps\<close>

definition EBUSY :: int where "EBUSY = 16"
definition ENXIO :: int where "ENXIO = 6"

definition blk_map_queue_find_tag :: "blk_queue_tag option \<Rightarrow> int \<Rightarrow> rqp option option" where
  "blk_map_queue_find_tag bqt tag =
     (case bqt of
        None \<Rightarrow> Some None
      | Some t \<Rightarrow>
          if tag \<ge> real_max_depth t then Some None
          else if 0 \<le> tag \<and> nat tag < length (tag_index t) then Some (tag_index t ! nat tag) else None)"

definition blk_queue_find_tag :: "'d request_queue \<Rightarrow> int \<Rightarrow> rqp option option" where
  "blk_queue_find_tag q tag = blk_map_queue_find_tag (queue_tags q) tag"

text \<open>\<^verbatim>\<open>find_first_bit\<close> and \<^verbatim>\<open>find_first_zero_bit\<close>: the size when there is none.\<close>

definition find_first_bit :: "bool list \<Rightarrow> nat \<Rightarrow> nat option" where
  "find_first_bit m n = (if n > length m then None else Some (length (takeWhile Not (take n m))))"

definition find_first_zero_bit :: "bool list \<Rightarrow> nat \<Rightarrow> nat option" where
  "find_first_zero_bit m n =
     (if n > length m then None else Some (length (takeWhile (\<lambda>x. x) (take n m))))"

text \<open>
  \<^verbatim>\<open>__blk_free_tags\<close>: whether the last reference is gone, and the map that is left. Freeing a map
  in which a tag is in use is a bug.
\<close>

definition blk_free_tags_ref :: "blk_queue_tag \<Rightarrow> (bool \<times> blk_queue_tag) option" where
  "blk_free_tags_ref t =
     (let t = t\<lparr>tag_refcnt := tag_refcnt t - 1\<rparr>
      in if tag_refcnt t = 0 then do {
           i \<leftarrow> find_first_bit (tag_map t) (unat (word_of_int (tag_max_depth t) :: u32));
           if i < unat (word_of_int (tag_max_depth t) :: u32) then None
           else Some (True, t\<lparr>tag_index := [], tag_map := []\<rparr>)
         } else Some (False, t))"

text \<open>\<^verbatim>\<open>__blk_queue_free_tags\<close>\<close>

definition blk_queue_release_tags :: "'d request_queue \<Rightarrow> 'd request_queue option" where
  "blk_queue_release_tags q =
     (case queue_tags q of
        None \<Rightarrow> Some q
      | Some t \<Rightarrow> do {
          blk_free_tags_ref t;
          Some (queue_flag_clear QUEUE_FLAG_QUEUED (q\<lparr>queue_tags := None\<rparr>))
        })"

definition blk_free_tags :: "blk_queue_tag \<Rightarrow> blk_queue_tag option" where
  "blk_free_tags t = do { (freed, t) \<leftarrow> blk_free_tags_ref t; if \<not> freed then None else Some t }"

definition blk_queue_free_tags :: "'d request_queue \<Rightarrow> 'd request_queue" where
  "blk_queue_free_tags q = queue_flag_clear QUEUE_FLAG_QUEUED q"

section \<open>Setting up and resizing\<close>

text \<open>
  The number of pointers and of bits that the two allocations have room for; the byte counts are
  computed in 32 bits.
\<close>

definition index_room :: "int \<Rightarrow> nat" where
  "index_room depth = unat ((word_of_int depth :: u32) * 4) div 4"

definition nr_ulongs :: "int \<Rightarrow> nat" where
  "nr_ulongs depth = unat (word_of_int ((depth + 31) div 32 * 4) :: u32) div 4"

definition init_tag_map ::
    "u32 option \<Rightarrow> blk_queue_tag \<Rightarrow> int \<Rightarrow> bool \<times> bool \<Rightarrow> int \<times> blk_queue_tag" where
  "init_tag_map nr tags depth mem =
     (let depth = (case nr of
                     Some n \<Rightarrow> if word_of_int depth > n * 2 then sint (n * 2) else depth
                   | None \<Rightarrow> depth)
      in if \<not> fst mem then (- ENOMEM, tags)
         else if \<not> snd mem then (- ENOMEM, tags)
         else (0, tags\<lparr>real_max_depth := depth, tag_max_depth := depth,
                       tag_index := replicate (index_room depth) None,
                       tag_map := replicate (32 * nr_ulongs depth) False\<rparr>))"

text \<open>\<^verbatim>\<open>__blk_queue_init_tags\<close>; the third flag is the memory for the structure itself.\<close>

definition blk_new_tags :: "u32 option \<Rightarrow> int \<Rightarrow> bool \<Rightarrow> bool \<times> bool \<Rightarrow> blk_queue_tag option" where
  "blk_new_tags nr depth room mem =
     (if \<not> room then None
      else case init_tag_map nr \<lparr>tag_index = [], tag_map = [], tag_max_depth = 0, real_max_depth = 0, tag_refcnt = 0\<rparr>
                  depth mem of
        (err, tags) \<Rightarrow> if err \<noteq> 0 then None else Some (tags\<lparr>tag_refcnt := 1\<rparr>))"

definition blk_init_tags :: "int \<Rightarrow> bool \<Rightarrow> bool \<times> bool \<Rightarrow> blk_queue_tag option" where
  "blk_init_tags depth room mem = blk_new_tags None depth room mem"

text \<open>The copy of the old arrays into the new ones.\<close>

definition copy_array :: "nat \<Rightarrow> 'a list \<Rightarrow> 'a list \<Rightarrow> 'a list option" where
  "copy_array n src dst =
     (if n > length src \<or> n > length dst then None else Some (take n src @ drop n dst))"

definition blk_queue_resize_tags ::
    "queue_settings \<Rightarrow> 'd request_queue \<Rightarrow> int \<Rightarrow> bool \<times> bool \<Rightarrow> (int \<times> 'd request_queue) option" where
  "blk_queue_resize_tags qs q new_depth mem =
     (case queue_tags q of
        None \<Rightarrow> Some (- ENXIO, q)
      | Some t \<Rightarrow>
          if new_depth \<le> real_max_depth t then
            Some (0, q\<lparr>queue_tags := Some (t\<lparr>tag_max_depth := new_depth\<rparr>)\<rparr>)
          else if tag_refcnt t \<noteq> 1 then Some (- EBUSY, q)
          else case init_tag_map (Some (nr_requests qs)) t new_depth mem of
            (err, t') \<Rightarrow>
              if err \<noteq> 0 then Some (- ENOMEM, q)
              else do {
                let max_depth = real_max_depth t;
                ix \<leftarrow> copy_array (index_room max_depth) (tag_index t) (tag_index t');
                mp \<leftarrow> copy_array (32 * nr_ulongs max_depth) (tag_map t) (tag_map t');
                Some (0, q\<lparr>queue_tags := Some (t'\<lparr>tag_index := ix, tag_map := mp\<rparr>)\<rparr>)
              })"

text \<open>
  A map that is passed in may be the one the queue has already (\<open>same\<close>). Other queues that
  share the map are not part of the state.
\<close>

definition blk_queue_init_tags ::
    "queue_settings \<Rightarrow> 'd request_queue \<Rightarrow> int \<Rightarrow> blk_queue_tag option \<Rightarrow> bool \<Rightarrow> bool \<Rightarrow> bool \<times> bool \<Rightarrow>
     (int \<times> 'd request_queue) option" where
  "blk_queue_init_tags qs q depth tags same room mem =
     (if tags \<noteq> None \<and> queue_tags q \<noteq> None \<and> \<not> same then None
      else let assign = (\<lambda>t. Some (0, (queue_flag_set QUEUE_FLAG_QUEUED (q\<lparr>queue_tags := Some t\<rparr>))\<lparr>tag_busy_list := []\<rparr>))
      in case (tags, queue_tags q) of
           (None, None) \<Rightarrow>
             (case blk_new_tags (Some (nr_requests qs)) depth room mem of
                None \<Rightarrow> Some (- ENOMEM, q)
              | Some t \<Rightarrow> assign t)
         | (_, Some _) \<Rightarrow> do {
             (rc, q) \<leftarrow> blk_queue_resize_tags qs q depth mem;
             Some (if rc \<noteq> 0 then (rc, q) else (0, queue_flag_set QUEUE_FLAG_QUEUED q))
           }
         | (Some t, None) \<Rightarrow> assign (t\<lparr>tag_refcnt := tag_refcnt t + 1\<rparr>))"

section \<open>Taking and giving back tags\<close>

definition blk_rq_tagged :: "request \<Rightarrow> bool" where
  "blk_rq_tagged r \<longleftrightarrow> rq_flagged r REQ_QUEUED"

definition blk_queue_end_tag :: "'d blk_env \<Rightarrow> 'd request_queue \<Rightarrow> rqp \<Rightarrow> 'd request_queue option" where
  "blk_queue_end_tag env q rq =
     (case queue_tags q of
        None \<Rightarrow> None
      | Some t \<Rightarrow>
          let tag = rq_tag (rqs q rq)
          in if tag = - 1 then None
             else if tag \<ge> real_max_depth t then Some q
             else if tag < 0 \<or> nat tag \<ge> length (tag_index t) \<or> nat tag \<ge> length (tag_map t) then None
             else
               (let q = queuelist_del env rq q;
                    q = rq_upd rq (\<lambda>r. (rq_clear_flag REQ_QUEUED r)\<lparr>rq_tag := - 1\<rparr>) q;
                    t = t\<lparr>tag_index := (tag_index t)[nat tag := None]\<rparr>;
                    t = (if \<not> tag_map t ! nat tag then t else t\<lparr>tag_map := (tag_map t)[nat tag := False]\<rparr>)
                in Some (q\<lparr>queue_tags := Some t\<rparr>)))"

text \<open>How many tags a request may choose from; \<open>None\<close> when too many asynchronous ones are out.\<close>

definition start_tag_depth :: "'d request_queue \<Rightarrow> blk_queue_tag \<Rightarrow> request \<Rightarrow> u32 option" where
  "start_tag_depth q t r =
     (let max_depth = word_of_int (tag_max_depth t)
      in if \<not> rq_is_sync r \<and> max_depth > 1 then
           (let max_depth = max_depth - 2;
                max_depth = (if max_depth = 0 then 1 else max_depth)
            in if in_flight q False > max_depth then None else Some max_depth)
         else Some max_depth)"

definition blk_queue_start_tag ::
    "'d blk_env \<Rightarrow> 'd request_queue \<Rightarrow> rqp \<Rightarrow> (bool \<times> 'd request_queue) option" where
  "blk_queue_start_tag env q rq =
     (case queue_tags q of
        None \<Rightarrow> None
      | Some t \<Rightarrow>
          if rq_flagged (rqs q rq) REQ_QUEUED then None
          else case start_tag_depth q t (rqs q rq) of
            None \<Rightarrow> Some (True, q)
          | Some max_depth \<Rightarrow> do {
              tag \<leftarrow> find_first_zero_bit (tag_map t) (unat max_depth);
              if tag \<ge> unat max_depth then Some (True, q)
              else if tag \<ge> length (tag_index t) then None
              else do {
                let q = rq_upd rq (\<lambda>r. (rq_set_flag REQ_QUEUED r)\<lparr>rq_tag := int tag\<rparr>) q;
                let t = t\<lparr>tag_map := (tag_map t)[tag := True], tag_index := (tag_index t)[tag := Some rq]\<rparr>;
                q \<leftarrow> blk_start_request env (q\<lparr>queue_tags := Some t\<rparr>) rq;
                Some (False, q\<lparr>tag_busy_list := rq # tag_busy_list q\<rparr>)
              }
            })"

definition blk_requeue_request :: "'d blk_env \<Rightarrow> 'd request_queue \<Rightarrow> rqp \<Rightarrow> 'd request_queue option" where
  "blk_requeue_request env q rq = do {
     q \<leftarrow> (if blk_rq_tagged (rqs q rq) then blk_queue_end_tag env q rq else Some q);
     if blk_queued_rq env q rq then None
     else elv_requeue_request (env_ops env) (env_request_fn env) q rq
   }"

fun requeue_all :: "'d blk_env \<Rightarrow> 'd request_queue \<Rightarrow> rqp list \<Rightarrow> 'd request_queue option" where
  "requeue_all env q [] = Some q"
| "requeue_all env q (rq # rest) = do { q \<leftarrow> blk_requeue_request env q rq; requeue_all env q rest }"

definition blk_queue_invalidate_tags :: "'d blk_env \<Rightarrow> 'd request_queue \<Rightarrow> 'd request_queue option" where
  "blk_queue_invalidate_tags env q = requeue_all env q (tag_busy_list q)"

definition blk_insert_request ::
    "'d blk_env \<Rightarrow> 'd request_queue \<Rightarrow> rqp \<Rightarrow> bool \<Rightarrow> nat option \<Rightarrow> 'd request_queue option" where
  "blk_insert_request env q rq at_head data = do {
     let w = (if at_head then ELEVATOR_INSERT_FRONT else ELEVATOR_INSERT_BACK);
     let q = rq_upd rq (\<lambda>r. r\<lparr>cmd_type := REQ_TYPE_SPECIAL, special := data\<rparr>) q;
     q \<leftarrow> (if blk_rq_tagged (rqs q rq) then blk_queue_end_tag env q rq else Some q);
     q \<leftarrow> elv_add_request (env_ops env) (env_request_fn env) q rq w False;
     blk_run_queue (env_ops env) (env_request_fn env) q
   }"

end
