(* ===== verification/Tags_Props.thy ===== *)
theory Tags_Props
  imports Tags Segments_Props Noop
begin

text \<open>
  Tags identify requests: the bitmap, the index and the list of tagged requests of a queue always
  agree, whatever sequence of taking, giving back and resizing the queue goes through, and a tag
  that is given back leaves the map as it was.
\<close>

section \<open>The invariant\<close>

text \<open>
  A tag map: the arrays have the size of the depth, and a bit is set where the index has a
  request. The depth is below \<open>2 ^ 30\<close>, so that the size of the index in bytes is a 32-bit number.
\<close>

definition tag_map_ok :: "blk_queue_tag \<Rightarrow> bool" where
  "tag_map_ok t \<longleftrightarrow> 0 \<le> tag_max_depth t \<and> tag_max_depth t \<le> real_max_depth t \<and> real_max_depth t < 2 ^ 30 \<and>
     length (tag_index t) = nat (real_max_depth t) \<and>
     length (tag_map t) = 32 * nat ((real_max_depth t + 31) div 32) \<and>
     (\<forall>i < length (tag_map t). tag_map t ! i \<longleftrightarrow> i < length (tag_index t) \<and> tag_index t ! i \<noteq> None)"

definition tags_at :: "'d blk_env \<Rightarrow> 'd request_queue \<Rightarrow> blk_queue_tag \<Rightarrow> bool" where
  "tags_at env q t \<longleftrightarrow> queue_tags q = Some t \<and> tag_map_ok t \<and>
     (\<forall>i < length (tag_index t). \<forall>rq. tag_index t ! i = Some rq \<longleftrightarrow>
        rq \<in> set (tag_busy_list q) \<and> rq_tag (rqs q rq) = int i) \<and>
     (\<forall>rq \<in> set (tag_busy_list q). blk_rq_tagged (rqs q rq) \<and>
        0 \<le> rq_tag (rqs q rq) \<and> rq_tag (rqs q rq) < real_max_depth t \<and>
        rq \<notin> set (queue_head q) \<and> rq \<notin> set (env_own env (elevator_data q)))"

definition tags_inv :: "'d blk_env \<Rightarrow> 'd request_queue \<Rightarrow> bool" where
  "tags_inv env q \<longleftrightarrow> (\<exists>t. tags_at env q t)"

lemma tags_atD:
  assumes "tags_at env q t"
  shows "queue_tags q = Some t" "tag_map_ok t"
    "\<And>i rq. i < length (tag_index t) \<Longrightarrow> tag_index t ! i = Some rq \<longleftrightarrow>
       rq \<in> set (tag_busy_list q) \<and> rq_tag (rqs q rq) = int i"
    "\<And>rq. rq \<in> set (tag_busy_list q) \<Longrightarrow> blk_rq_tagged (rqs q rq) \<and>
       0 \<le> rq_tag (rqs q rq) \<and> rq_tag (rqs q rq) < real_max_depth t \<and>
       rq \<notin> set (queue_head q) \<and> rq \<notin> set (env_own env (elevator_data q))"
  using assms unfolding tags_at_def by blast+

lemma unat_word_of_int_32: "0 \<le> x \<Longrightarrow> x < 2 ^ 32 \<Longrightarrow> unat (word_of_int x :: u32) = nat x"
  by (simp add: unsigned_of_int take_bit_int_eq_self)

lemma index_room_eq:
  assumes "0 \<le> d" "d < 2 ^ 30"
  shows "index_room d = nat d"
proof -
  have "(word_of_int d :: u32) * 4 = word_of_int (d * 4)" by simp
  moreover have "unat (word_of_int (d * 4) :: u32) = nat (d * 4)"
    by (rule unat_word_of_int_32) (use assms in simp_all)
  ultimately show ?thesis using assms by (simp only: index_room_def nat_mult_distrib) simp
qed

lemma nr_ulongs_eq:
  assumes "0 \<le> d" "d < 2 ^ 30"
  shows "nr_ulongs d = nat ((d + 31) div 32)"
proof -
  let ?k = "(d + 31) div 32"
  have "0 \<le> ?k" "?k < 2 ^ 30" using assms by simp_all
  then have "unat (word_of_int (?k * 4) :: u32) = nat (?k * 4)"
    by (intro unat_word_of_int_32) simp_all
  then show ?thesis using \<open>0 \<le> ?k\<close> by (simp only: nr_ulongs_def nat_mult_distrib) simp
qed

lemma map_covers: "tag_map_ok t \<Longrightarrow> length (tag_index t) \<le> length (tag_map t)"
  unfolding tag_map_ok_def by (auto simp: nat_le_iff)

text \<open>A request that is tagged is found by its tag.\<close>

lemma find_busy:
  assumes "tags_inv env q" "rq \<in> set (tag_busy_list q)"
  shows "blk_queue_find_tag q (rq_tag (rqs q rq)) = Some (Some rq)"
proof -
  from assms(1) obtain t where "tags_at env q t" by (auto simp: tags_inv_def)
  note t = tags_atD [OF this]
  let ?g = "rq_tag (rqs q rq)"
  have g: "0 \<le> ?g" "?g < real_max_depth t" using t(4) [OF assms(2)] by simp_all
  have i: "nat ?g < length (tag_index t)" using g t(2) by (simp add: tag_map_ok_def)
  have "tag_index t ! nat ?g = Some rq" using t(3) [OF i] assms(2) g by simp
  then show ?thesis using g i by (simp add: blk_queue_find_tag_def blk_map_queue_find_tag_def t(1))
qed

section \<open>Taking a tag\<close>

lemma first_zero:
  assumes "find_first_zero_bit m n = Some i" "i < n"
  shows "i < length m" "\<not> m ! i"
proof -
  have n: "n \<le> length m" and i: "i = length (takeWhile (\<lambda>x. x) (take n m))"
    using assms(1) by (auto simp: find_first_zero_bit_def split: if_splits)
  show "i < length m" using assms(2) n by simp
  have "\<not> take n m ! i" unfolding i by (rule nth_length_takeWhile) (use assms(2) n i in simp)
  then show "\<not> m ! i" using assms(2) by simp
qed

lemma start_tag_depth_le:
  assumes "start_tag_depth q t r = Some d" "0 \<le> tag_max_depth t" "tag_max_depth t < 2 ^ 30"
  shows "unat d \<le> nat (tag_max_depth t)"
proof -
  let ?w = "word_of_int (tag_max_depth t) :: u32"
  have w: "unat ?w = nat (tag_max_depth t)"
    using assms(2,3) by (simp add: unsigned_of_int take_bit_int_eq_self)
  have sub: "unat (?w - 2) \<le> unat ?w" if "?w > 1"
  proof -
    have "unat ?w > 1" using that by (simp add: word_less_nat_alt)
    then have "(2 :: u32) \<le> ?w" by (simp add: word_le_nat_alt)
    then show ?thesis by (simp add: unat_sub)
  qed
  from assms(1) have "d = ?w \<or> ?w > 1 \<and> (d = ?w - 2 \<or> d = 1)"
    by (auto simp: start_tag_depth_def Let_def split: if_splits)
  then show ?thesis
  proof (elim disjE conjE)
    assume "?w > 1" "d = 1"
    then show ?thesis using w by (simp add: word_less_nat_alt)
  qed (use sub w in auto)
qed

lemma start_request_frame:
  assumes "blk_start_request env q rq = Some q'" "rq \<in> set (queue_head q)"
  shows "queue_tags q' = queue_tags q" "tag_busy_list q' = tag_busy_list q" "elevator_data q' = elevator_data q"
    "queue_head q' = removeAll rq (queue_head q)"
    "rq_tag (rqs q' p) = rq_tag (rqs q p)" "cmd_flags (rqs q' p) = cmd_flags (rqs q p)"
  using assms
  by (auto simp: blk_start_request_def blk_dequeue_request_def queuelist_del_def Let_def rq_upd_def set_resid_len_def
      split: if_splits option.splits bind_splits)

lemma start_request_runs:
  assumes "rq \<in> set (queue_head q)" "\<not> ELV_ON_HASH q rq"
  shows "\<exists>q'. blk_start_request env q rq = Some q'"
  using assms by (simp add: blk_start_request_def blk_dequeue_request_def blk_queued_rq_def Let_def)

lemma set_tag_ok:
  assumes "tag_map_ok t" "g < length (tag_index t)"
  shows "tag_map_ok (t\<lparr>tag_map := (tag_map t)[g := v \<noteq> None], tag_index := (tag_index t)[g := v]\<rparr>)"
  using assms by (auto simp: tag_map_ok_def nth_list_update)

lemma start_tag_spec:
  assumes at: "tags_at env q t" and rq: "rq \<in> set (queue_head q)" "\<not> ELV_ON_HASH q rq" "\<not> blk_rq_tagged (rqs q rq)"
      "rq \<notin> set (env_own env (elevator_data q))"
  shows "blk_queue_start_tag env q rq = Some (True, q) \<or>
     (\<exists>q' g. blk_queue_start_tag env q rq = Some (False, q') \<and> g < length (tag_index t) \<and> tag_index t ! g = None \<and>
        tag_busy_list q' = rq # tag_busy_list q \<and> rq_tag (rqs q' rq) = int g \<and>
        tags_at env q' (t\<lparr>tag_map := (tag_map t)[g := True], tag_index := (tag_index t)[g := Some rq]\<rparr>))"
proof (cases "start_tag_depth q t (rqs q rq)")
  case None
  then show ?thesis using tags_atD(1) [OF at] rq(3) by (simp add: blk_queue_start_tag_def blk_rq_tagged_def)
next
  case (Some d)
  note t = tags_atD [OF at]
  have d: "unat d \<le> nat (tag_max_depth t)"
    by (rule start_tag_depth_le [OF Some]) (use t(2) in \<open>auto simp: tag_map_ok_def\<close>)
  have bound: "nat (tag_max_depth t) \<le> length (tag_index t)" using t(2) by (auto simp: tag_map_ok_def)
  then have "unat d \<le> length (tag_map t)" using d map_covers [OF t(2)] by linarith
  then obtain g where g: "find_first_zero_bit (tag_map t) (unat d) = Some g" by (simp add: find_first_zero_bit_def)
  show ?thesis
  proof (cases "g \<ge> unat d")
    case True
    then show ?thesis using t(1) rq(3) Some g by (simp add: blk_queue_start_tag_def blk_rq_tagged_def)
  next
    case False
    have gl: "g < length (tag_index t)" using False d bound by linarith
    have free: "tag_index t ! g = None"
      using first_zero [OF g] False t(2) gl by (auto simp: tag_map_ok_def)
    let ?t = "t\<lparr>tag_map := (tag_map t)[g := True], tag_index := (tag_index t)[g := Some rq]\<rparr>"
    let ?q1 = "(rq_upd rq (\<lambda>r. (rq_set_flag REQ_QUEUED r)\<lparr>rq_tag := int g\<rparr>) q)\<lparr>queue_tags := Some ?t\<rparr>"
    have "rq \<in> set (queue_head ?q1)" "\<not> ELV_ON_HASH ?q1 rq"
      using rq(1,2) by (simp_all add: rq_upd_def ELV_ON_HASH_def)
    from start_request_runs [OF this, of env] obtain q2 where q2: "blk_start_request env ?q1 rq = Some q2" ..
    note frame = start_request_frame [OF q2 \<open>rq \<in> set (queue_head ?q1)\<close>]
    let ?q = "q2\<lparr>tag_busy_list := rq # tag_busy_list q2\<rparr>"
    have run: "blk_queue_start_tag env q rq = Some (False, ?q)"
      using t(1) rq(3) Some g False gl q2 by (simp add: blk_queue_start_tag_def blk_rq_tagged_def)
    have new: "rq \<notin> set (tag_busy_list q)" using t(4) rq(3) by blast
    have tag: "rq_tag (rqs ?q p) = (if p = rq then int g else rq_tag (rqs q p))" for p
      by (simp add: frame rq_upd_def)
    have flag: "blk_rq_tagged (rqs ?q p) \<longleftrightarrow> p = rq \<or> blk_rq_tagged (rqs q p)" for p
    proof -
      have "blk_rq_tagged (rqs ?q p) \<longleftrightarrow> blk_rq_tagged (rqs ?q1 p)"
        by (simp add: blk_rq_tagged_def rq_flagged_def frame)
      also have "\<dots> \<longleftrightarrow> p = rq \<or> blk_rq_tagged (rqs q p)"
        using rq_flagged_set [of REQ_QUEUED "rqs q rq" REQ_QUEUED]
        by (simp add: blk_rq_tagged_def rq_upd_def rq_flagged_def)
      finally show ?thesis .
    qed
    have lists: "queue_head ?q = removeAll rq (queue_head q)" "elevator_data ?q = elevator_data q"
        "tag_busy_list ?q = rq # tag_busy_list q" "queue_tags ?q = Some ?t"
      by (simp_all add: frame) (simp_all add: rq_upd_def)
    have real: "int g < real_max_depth t" using gl t(2) by (simp add: tag_map_ok_def)
    have "tag_index ?t ! i = Some p \<longleftrightarrow> p \<in> set (tag_busy_list ?q) \<and> rq_tag (rqs ?q p) = int i"
      if "i < length (tag_index ?t)" for i p
      using that t(3) [of i p] new free gl unfolding lists tag by (cases "i = g") (auto simp: nth_list_update)
    moreover have "blk_rq_tagged (rqs ?q p) \<and> 0 \<le> rq_tag (rqs ?q p) \<and> rq_tag (rqs ?q p) < real_max_depth ?t \<and>
        p \<notin> set (queue_head ?q) \<and> p \<notin> set (env_own env (elevator_data ?q))" if "p \<in> set (tag_busy_list ?q)" for p
      using that t(4) [of p] rq(4) real unfolding lists tag flag by auto
    ultimately have "tags_at env ?q ?t"
      using set_tag_ok [OF t(2) gl, of "Some rq"] lists(4) unfolding tags_at_def by simp
    then show ?thesis using run gl free lists(3) tag by auto
  qed
qed

section \<open>Giving a tag back\<close>

lemma end_tag_spec:
  assumes at: "tags_at env q t" and busy: "rq \<in> set (tag_busy_list q)"
  defines "g \<equiv> nat (rq_tag (rqs q rq))"
  shows "\<exists>q'. blk_queue_end_tag env q rq = Some q' \<and> tag_busy_list q' = removeAll rq (tag_busy_list q) \<and>
     \<not> blk_rq_tagged (rqs q' rq) \<and>
     tags_at env q' (t\<lparr>tag_map := (tag_map t)[g := False], tag_index := (tag_index t)[g := None]\<rparr>)"
proof -
  note t = tags_atD [OF at]
  have tg: "0 \<le> rq_tag (rqs q rq)" "rq_tag (rqs q rq) < real_max_depth t" and off: "rq \<notin> set (queue_head q)"
    using t(4) [OF busy] by auto
  have gl: "g < length (tag_index t)" using tg t(2) by (simp add: tag_map_ok_def g_def)
  have gm: "g < length (tag_map t)" using gl map_covers [OF t(2)] by simp
  have int_g: "rq_tag (rqs q rq) = int g" using tg by (simp add: g_def)
  have "tag_index t ! g = Some rq" using t(3) [OF gl] busy int_g by blast
  then have bit: "tag_map t ! g" using t(2) gm gl by (simp add: tag_map_ok_def)
  let ?t = "t\<lparr>tag_map := (tag_map t)[g := False], tag_index := (tag_index t)[g := None]\<rparr>"
  let ?q1 = "q\<lparr>tag_busy_list := removeAll rq (tag_busy_list q)\<rparr>"
  let ?q = "(rq_upd rq (\<lambda>r. (rq_clear_flag REQ_QUEUED r)\<lparr>rq_tag := - 1\<rparr>) ?q1)\<lparr>queue_tags := Some ?t\<rparr>"
  have run: "blk_queue_end_tag env q rq = Some ?q"
    using t(1) tg gl gm off busy bit int_g
    by (simp add: blk_queue_end_tag_def queuelist_del_def Let_def g_def [symmetric])
  have tag: "rq_tag (rqs ?q p) = (if p = rq then - 1 else rq_tag (rqs q p))" for p by (simp add: rq_upd_def)
  have flag: "blk_rq_tagged (rqs ?q p) \<longleftrightarrow> p \<noteq> rq \<and> blk_rq_tagged (rqs q p)" for p
    using rq_flagged_clear [of REQ_QUEUED "rqs q rq" REQ_QUEUED]
    by (simp add: blk_rq_tagged_def rq_upd_def rq_flagged_def)
  have lists: "queue_head ?q = queue_head q" "elevator_data ?q = elevator_data q"
      "tag_busy_list ?q = removeAll rq (tag_busy_list q)" "queue_tags ?q = Some ?t"
    by (simp_all add: rq_upd_def)
  have "tag_index ?t ! i = Some p \<longleftrightarrow> p \<in> set (tag_busy_list ?q) \<and> rq_tag (rqs ?q p) = int i"
    if "i < length (tag_index ?t)" for i p
    using that t(3) [of i p] t(3) [OF gl, of p] int_g \<open>tag_index t ! g = Some rq\<close> unfolding lists tag
    by (cases "i = g") (auto simp: nth_list_update)
  moreover have "blk_rq_tagged (rqs ?q p) \<and> 0 \<le> rq_tag (rqs ?q p) \<and> rq_tag (rqs ?q p) < real_max_depth ?t \<and>
      p \<notin> set (queue_head ?q) \<and> p \<notin> set (env_own env (elevator_data ?q))" if "p \<in> set (tag_busy_list ?q)" for p
    using that t(4) [of p] unfolding lists tag flag by auto
  ultimately have "tags_at env ?q ?t"
    using set_tag_ok [OF t(2) gl, of None] lists(4) unfolding tags_at_def by simp
  then show ?thesis using run lists(3) flag by auto
qed

section \<open>Resizing\<close>

lemma init_tag_map_room:
  assumes "init_tag_map (Some n) t d mem = (0, t')" "0 \<le> d" "d < 2 ^ 30" "unat n < 2 ^ 29"
  shows "mem = (True, True)" "real_max_depth t' = min d (2 * int (unat n))" "tag_max_depth t' = real_max_depth t'"
    "tag_index t' = replicate (nat (real_max_depth t')) None"
    "tag_map t' = replicate (32 * nat ((real_max_depth t' + 31) div 32)) False"
proof -
  let ?d = "if (word_of_int d :: u32) > n * 2 then sint (n * 2) else d"
  have n2: "unat (n * 2) = 2 * unat n" using assms(4) by (simp add: unat_mult_lem [THEN iffD1])
  have "sint (n * 2) = int (unat (n * 2))"
  proof -
    have "unat (n * 2) < 2 ^ 30" using n2 assms(4) by simp
    then have "int (unat (n * 2)) < int (2 ^ 30)" unfolding of_nat_less_iff .
    then have "uint (n * 2) < 2 ^ 30" by simp
    moreover have "- (2 ^ 31) \<le> uint (n * 2)" by (rule order_trans [of _ 0]) simp_all
    ultimately have "signed_take_bit 31 (uint (n * 2)) = uint (n * 2)"
      by (intro signed_take_bit_int_eq_self) simp_all
    then show ?thesis by (simp add: sint_uint)
  qed
  moreover have "(word_of_int d :: u32) > n * 2 \<longleftrightarrow> 2 * int (unat n) < d"
    using n2 assms(2,3) unat_word_of_int_32 [of d] by (simp add: word_less_nat_alt zless_nat_eq_int_zless)
  ultimately have d: "?d = min d (2 * int (unat n))" using n2 by auto
  have range: "0 \<le> ?d" "?d < 2 ^ 30" using d assms(2,3) by auto
  show mem: "mem = (True, True)" using assms(1) by (cases mem) (auto simp: init_tag_map_def Let_def ENOMEM_def split: if_splits)
  have t': "t' = t\<lparr>real_max_depth := ?d, tag_max_depth := ?d, tag_index := replicate (index_room ?d) None,
      tag_map := replicate (32 * nr_ulongs ?d) False\<rparr>"
    using assms(1) by (simp add: init_tag_map_def Let_def mem del: replicate.simps)
  show "real_max_depth t' = min d (2 * int (unat n))" using t' d by simp
  show "tag_max_depth t' = real_max_depth t'" "tag_index t' = replicate (nat (real_max_depth t')) None"
      "tag_map t' = replicate (32 * nat ((real_max_depth t' + 31) div 32)) False"
    using t' index_room_eq [OF range] nr_ulongs_eq [OF range] by simp_all
qed

text \<open>An enlarged map keeps its tags and has free ones behind them.\<close>

lemma grown_map_ok:
  assumes "tag_map_ok t" "real_max_depth t \<le> d" "d < 2 ^ 30"
  shows "tag_map_ok (t\<lparr>real_max_depth := d, tag_max_depth := d,
     tag_index := tag_index t @ replicate (nat d - length (tag_index t)) None,
     tag_map := tag_map t @ replicate (32 * nat ((d + 31) div 32) - length (tag_map t)) False\<rparr>)"
proof -
  have "nat ((real_max_depth t + 31) div 32) \<le> nat ((d + 31) div 32)"
    using assms(2) by (intro nat_mono zdiv_mono1) simp_all
  then have m: "length (tag_map t) \<le> 32 * nat ((d + 31) div 32)" using assms(1) by (simp add: tag_map_ok_def)
  have x: "length (tag_index t) \<le> nat d" using assms(1,2) by (auto simp: tag_map_ok_def)
  have d: "0 \<le> d" using assms(1,2) by (simp add: tag_map_ok_def)
  have bits: "tag_map t ! i \<longleftrightarrow> i < length (tag_index t) \<and> tag_index t ! i \<noteq> None" if "i < length (tag_map t)" for i
    using assms(1) that by (simp add: tag_map_ok_def)
  have "(tag_map t @ replicate k False) ! i \<longleftrightarrow>
      i < nat d \<and> (tag_index t @ replicate (nat d - length (tag_index t)) None) ! i \<noteq> None"
    if "i < length (tag_map t) + k" for i k
    using that bits [of i] x map_covers [OF assms(1)]
    by (cases "i < length (tag_map t)"; cases "i < length (tag_index t)"; cases "i < nat d") (simp_all add: nth_append)
  then show ?thesis using m x d assms(3) unfolding tag_map_ok_def by simp
qed

lemma resize_spec:
  assumes at: "tags_at env q t" and d: "0 \<le> d" "d < 2 ^ 30" and n: "unat (nr_requests qs) < 2 ^ 29"
  shows "if real_max_depth t < d \<and> tag_refcnt t = 1 \<and> mem = (True, True) \<and>
            2 * int (unat (nr_requests qs)) < real_max_depth t
         then blk_queue_resize_tags qs q d mem = None
         else \<exists>rc t'. blk_queue_resize_tags qs q d mem = Some (rc, q\<lparr>queue_tags := Some t'\<rparr>) \<and>
           tag_map_ok t' \<and> real_max_depth t \<le> real_max_depth t' \<and>
           (\<exists>k. tag_index t' = tag_index t @ replicate k None)"
proof (cases "d \<le> real_max_depth t \<or> tag_refcnt t \<noteq> 1 \<or> mem \<noteq> (True, True)")
  case True
  note t = tags_atD [OF at]
  have same: "q\<lparr>queue_tags := Some t\<rparr> = q" using t(1) by (cases q) simp
  obtain rc t' where t': "blk_queue_resize_tags qs q d mem = Some (rc, q\<lparr>queue_tags := Some t'\<rparr>)"
      "tag_map_ok t'" "real_max_depth t \<le> real_max_depth t'" "tag_index t' = tag_index t"
  proof (cases "d \<le> real_max_depth t")
    case True
    show thesis
    proof (rule that [of 0 "t\<lparr>tag_max_depth := d\<rparr>"])
      show "tag_map_ok (t\<lparr>tag_max_depth := d\<rparr>)" using t(2) d True by (simp add: tag_map_ok_def)
    qed (simp_all add: blk_queue_resize_tags_def t(1) True)
  next
    case more: False
    have nomem: "\<exists>t'. init_tag_map (Some (nr_requests qs)) t d mem = (- ENOMEM, t')" if "mem \<noteq> (True, True)"
      using that by (cases mem) (auto simp: init_tag_map_def Let_def)
    have "\<exists>rc. blk_queue_resize_tags qs q d mem = Some (rc, q)"
    proof (cases "tag_refcnt t = 1")
      case True
      then have "mem \<noteq> (True, True)" using \<open>d \<le> real_max_depth t \<or> tag_refcnt t \<noteq> 1 \<or> mem \<noteq> (True, True)\<close> more by simp
      then show ?thesis using nomem more True t(1) by (auto simp: blk_queue_resize_tags_def ENOMEM_def)
    qed (simp add: blk_queue_resize_tags_def t(1) more)
    then show thesis using that [of _ t] same t(2) by auto
  qed
  have "tag_index t' = tag_index t @ replicate 0 None" using t'(4) by simp
  then have "\<exists>rc t'. blk_queue_resize_tags qs q d mem = Some (rc, q\<lparr>queue_tags := Some t'\<rparr>) \<and>
      tag_map_ok t' \<and> real_max_depth t \<le> real_max_depth t' \<and> (\<exists>k. tag_index t' = tag_index t @ replicate k None)"
    using t'(1-3) by (intro exI conjI)
  then show ?thesis using True by (subst if_not_P) auto
next
  case False
  note t = tags_atD [OF at]
  obtain t' where t': "init_tag_map (Some (nr_requests qs)) t d mem = (0, t')"
    using False by (auto simp: init_tag_map_def Let_def)
  note room = init_tag_map_room [OF t' d n]
  let ?r = "real_max_depth t" and ?d = "real_max_depth t'"
  have r: "0 \<le> ?r" "?r < 2 ^ 30" using t(2) by (simp_all add: tag_map_ok_def)
  have ix: "index_room ?r = length (tag_index t)" and mp: "32 * nr_ulongs ?r = length (tag_map t)"
    using index_room_eq [OF r] nr_ulongs_eq [OF r] t(2) by (simp_all add: tag_map_ok_def)
  have run: "blk_queue_resize_tags qs q d mem = do {
      ix \<leftarrow> copy_array (length (tag_index t)) (tag_index t) (tag_index t');
      mp \<leftarrow> copy_array (length (tag_map t)) (tag_map t) (tag_map t');
      Some (0, q\<lparr>queue_tags := Some (t'\<lparr>tag_index := ix, tag_map := mp\<rparr>)\<rparr>) }"
    using False t(1) t' ix mp by (simp add: blk_queue_resize_tags_def)
  show ?thesis
  proof (cases "2 * int (unat (nr_requests qs)) < ?r")
    case True
    then have "0 \<le> ?d" "?d < ?r" using room(2) False d(1) by auto
    then have "nat ?d < length (tag_index t)" using t(2) by (simp add: tag_map_ok_def)
    then have "copy_array (length (tag_index t)) (tag_index t) (tag_index t') = None"
      using room(4) by (simp add: copy_array_def)
    then show ?thesis using run True False by simp
  next
    case ge: False
    have le: "?r \<le> ?d" "?d < 2 ^ 30" using ge False room(2) d(2) by auto
    define t2 where "t2 = t\<lparr>real_max_depth := ?d, tag_max_depth := ?d,
     tag_index := tag_index t @ replicate (nat ?d - length (tag_index t)) None,
     tag_map := tag_map t @ replicate (32 * nat ((?d + 31) div 32) - length (tag_map t)) False\<rparr>"
    have ok: "tag_map_ok t2" unfolding t2_def by (rule grown_map_ok [OF t(2) le])
    have "length (tag_index t) \<le> nat ?d" using t(2) le by (auto simp: tag_map_ok_def)
    moreover have "length (tag_map t) \<le> 32 * nat ((?d + 31) div 32)"
      using ok by (simp add: t2_def tag_map_ok_def)
    ultimately have "copy_array (length (tag_index t)) (tag_index t) (tag_index t') = Some (tag_index t2)"
        "copy_array (length (tag_map t)) (tag_map t) (tag_map t') = Some (tag_map t2)"
      using room(4,5) by (simp_all add: copy_array_def t2_def)
    moreover have "t'\<lparr>tag_index := tag_index t2, tag_map := tag_map t2\<rparr> = t2"
      using t' False room(3) by (auto simp: init_tag_map_def Let_def t2_def split: if_splits)
    ultimately have "blk_queue_resize_tags qs q d mem = Some (0, q\<lparr>queue_tags := Some t2\<rparr>)" using run by simp
    then show ?thesis using ge ok le by (auto simp: t2_def)
  qed
qed

section \<open>Whatever happens to the tags\<close>

text \<open>
  The states of a tagged queue: behind its initialisation, taking a tag for a request at the
  driver's turn, giving one back, resizing, and whatever the rest of the system does without
  touching the tags, such as inserting requests.
\<close>

inductive tags_reach :: "'d blk_env \<Rightarrow> 'd request_queue \<Rightarrow> bool" for env where
  reach_init: "queue_tags q = None \<Longrightarrow> 0 \<le> depth \<Longrightarrow> depth < 2 ^ 30 \<Longrightarrow> unat (nr_requests qs) < 2 ^ 29 \<Longrightarrow>
    blk_queue_init_tags qs q depth None False room mem = Some (0, q') \<Longrightarrow> tags_reach env q'"
| reach_start: "tags_reach env q \<Longrightarrow> rq \<in> set (queue_head q) \<Longrightarrow> \<not> ELV_ON_HASH q rq \<Longrightarrow>
    rq \<notin> set (env_own env (elevator_data q)) \<Longrightarrow>
    blk_queue_start_tag env q rq = Some (busy, q') \<Longrightarrow> tags_reach env q'"
| reach_end: "tags_reach env q \<Longrightarrow> rq \<in> set (tag_busy_list q) \<Longrightarrow>
    blk_queue_end_tag env q rq = Some q' \<Longrightarrow> tags_reach env q'"
| reach_resize: "tags_reach env q \<Longrightarrow> 0 \<le> depth \<Longrightarrow> depth < 2 ^ 30 \<Longrightarrow> unat (nr_requests qs) < 2 ^ 29 \<Longrightarrow>
    blk_queue_resize_tags qs q depth mem = Some (rc, q') \<Longrightarrow> tags_reach env q'"
| reach_other: "tags_reach env q \<Longrightarrow> queue_tags q' = queue_tags q \<Longrightarrow> tag_busy_list q' = tag_busy_list q \<Longrightarrow>
    \<forall>rq \<in> set (tag_busy_list q). rq_tag (rqs q' rq) = rq_tag (rqs q rq) \<and> blk_rq_tagged (rqs q' rq) \<and>
      rq \<notin> set (queue_head q') \<and> rq \<notin> set (env_own env (elevator_data q')) \<Longrightarrow> tags_reach env q'"

lemma init_tags_inv:
  assumes "queue_tags q = None" "0 \<le> depth" "depth < 2 ^ 30" "unat (nr_requests qs) < 2 ^ 29"
    "blk_queue_init_tags qs q depth None False room mem = Some (0, q')"
  shows "tags_inv env q'"
proof -
  obtain t where t: "blk_new_tags (Some (nr_requests qs)) depth room mem = Some t"
      "queue_tags q' = Some t" "tag_busy_list q' = []"
    using assms(1,5)
    by (auto simp: blk_queue_init_tags_def Let_def ENOMEM_def queue_flag_set_def split: option.splits)
  then obtain t0 t1 where t1: "init_tag_map (Some (nr_requests qs)) t0 depth mem = (0, t1)" "t = t1\<lparr>tag_refcnt := 1\<rparr>"
    by (auto simp: blk_new_tags_def split: if_splits prod.splits)
  note room = init_tag_map_room [OF t1(1) assms(2-4)]
  have "tag_map_ok t" using room assms(2,3) by (auto simp: t1(2) tag_map_ok_def)
  then have "tags_at env q' t" using t(2,3) room(4) by (simp add: tags_at_def t1(2))
  then show ?thesis by (auto simp: tags_inv_def)
qed

lemma resize_tags_inv:
  assumes "tags_inv env q" "0 \<le> d" "d < 2 ^ 30" "unat (nr_requests qs) < 2 ^ 29"
    "blk_queue_resize_tags qs q d mem = Some (rc, q')"
  shows "tags_inv env q'"
proof -
  from assms(1) obtain t where at: "tags_at env q t" by (auto simp: tags_inv_def)
  note t = tags_atD [OF at]
  obtain t' k where q': "q' = q\<lparr>queue_tags := Some t'\<rparr>" and t': "tag_map_ok t'" "real_max_depth t \<le> real_max_depth t'"
      "tag_index t' = tag_index t @ replicate k None"
    using resize_spec [OF at assms(2-4), of mem] assms(5) by (auto split: if_splits)
  have len: "length (tag_index t) = nat (real_max_depth t)" using t(2) by (simp add: tag_map_ok_def)
  have "tag_index t' ! i = Some rq \<longleftrightarrow> rq \<in> set (tag_busy_list q) \<and> rq_tag (rqs q rq) = int i"
    if "i < length (tag_index t')" for i rq
  proof (cases "i < length (tag_index t)")
    case True
    then show ?thesis using t(3) [OF True] t'(3) by (simp add: nth_append)
  next
    case False
    then have "tag_index t' ! i = None" using that t'(3) by (simp add: nth_append)
    moreover have "rq_tag (rqs q rq) \<noteq> int i" if "rq \<in> set (tag_busy_list q)" using t(4) [OF that] False len by auto
    ultimately show ?thesis by auto
  qed
  moreover have "rq_tag (rqs q rq) < real_max_depth t'" if "rq \<in> set (tag_busy_list q)" for rq
    using t(4) [OF that] t'(2) by linarith
  ultimately have "tags_at env q' t'" using t(4) t'(1) by (simp add: tags_at_def q')
  then show ?thesis by (auto simp: tags_inv_def)
qed

lemma reach_tags_inv: "tags_reach env q \<Longrightarrow> tags_inv env q"
proof (induction rule: tags_reach.induct)
  case (reach_start q rq busy q')
  from reach_start.IH obtain t where at: "tags_at env q t" by (auto simp: tags_inv_def)
  have "\<not> blk_rq_tagged (rqs q rq)"
    using reach_start.hyps(5) tags_atD(1) [OF at] by (auto simp: blk_queue_start_tag_def blk_rq_tagged_def split: if_splits)
  from start_tag_spec [OF at reach_start.hyps(2,3) this reach_start.hyps(4)] show ?case
    using reach_start.hyps(5) reach_start.IH by (auto simp: tags_inv_def)
next
  case (reach_end q rq q')
  from reach_end.IH obtain t where "tags_at env q t" by (auto simp: tags_inv_def)
  from end_tag_spec [OF this reach_end.hyps(2)] show ?case using reach_end.hyps(3) by (auto simp: tags_inv_def)
next
  case (reach_other q q')
  from reach_other.IH obtain t where at: "tags_at env q t" by (auto simp: tags_inv_def)
  then have "tags_at env q' t" using reach_other.hyps(2-4) unfolding tags_at_def by auto
  then show ?case by (auto simp: tags_inv_def)
next
  case (reach_resize q depth qs mem rc q')
  show ?case by (rule resize_tags_inv [OF reach_resize.IH reach_resize.hyps(2-5)])
qed (rule init_tags_inv)

text \<open>An environment with the no-op scheduler, a driver that takes no requests, and a tagged queue with one request.\<close>

definition noop_env :: "noop_data blk_env" where
  "noop_env = \<lparr>env_ops = elevator_noop, env_request_fn = Some, env_settings = qs0,
     env_own = noop_queue, env_unlink = (\<lambda>rq d. d\<lparr>noop_queue := removeAll rq (noop_queue d)\<rparr>),
     env_prepare_flush = (\<lambda>_ q _. q), env_end_io = (\<lambda>_ q _ _. Some q), env_prep_rq = (\<lambda>_ q _. (0, q))\<rparr>"

definition tag_sample :: "noop_data request_queue" where
  "tag_sample = (queue_zero \<lparr>noop_queue = []\<rparr>)\<lparr>queue_head := [Rq 1],
     rqs := (\<lambda>_. rq_zero\<lparr>rq_tag := - 1\<rparr>),
     queue_tags := Some \<lparr>tag_index = replicate 16 None, tag_map = replicate 32 False, tag_max_depth = 16,
       real_max_depth = 16, tag_refcnt = 1\<rparr>,
     queue_flags := 2\<rparr>"

lemma tag_sample_reach: "tags_reach noop_env tag_sample"
proof (rule reach_init)
  show "blk_queue_init_tags qs0 (tag_sample\<lparr>queue_tags := None, queue_flags := 0\<rparr>) 16 None False True (True, True) =
      Some (0, tag_sample)"
    by (simp add: blk_queue_init_tags_def Let_def blk_new_tags_def init_tag_map_def qs0_def tag_sample_def
        index_room_def nr_ulongs_def queue_flag_set_def queue_zero_def)
qed (simp_all add: qs0_def)

lemma tag_sample_start:
  "\<exists>q. blk_queue_start_tag noop_env tag_sample (Rq 1) = Some (False, q) \<and> tag_busy_list q = [Rq 1] \<and> rq_tag (rqs q (Rq 1)) = 0"
  by (simp add: blk_queue_start_tag_def tag_sample_def noop_env_def start_tag_depth_def Let_def find_first_zero_bit_def
      rq_flagged_def rq_zero_def blk_start_request_def blk_dequeue_request_def blk_queued_rq_def queue_zero_def
      rq_is_sync_def rw_is_sync_def queuelist_del_def rq_upd_def ELV_ON_HASH_def set_resid_len_def rq_set_flag_def
      list_ex_iff)

text \<open>
  C30. Whatever sequence of taking tags, giving them back and resizing a queue has gone through, the
  tag of a tagged request leads back to that request, and no other tagged request has it.
\<close>

theorem tags_identify:
  assumes "tags_reach env q" "rq \<in> set (tag_busy_list q)"
  shows "blk_queue_find_tag q (rq_tag (rqs q rq)) = Some (Some rq) \<and>
     (\<forall>p \<in> set (tag_busy_list q). rq_tag (rqs q p) = rq_tag (rqs q rq) \<longrightarrow> p = rq)"
  using find_busy [OF reach_tags_inv [OF assms(1)]] assms(2) by (metis option.inject)

theorem tags_identify_witness:
  "\<exists>q. blk_queue_start_tag noop_env tag_sample (Rq 1) = Some (False, q) \<and> blk_queue_find_tag q 0 = Some (Some (Rq 1))"
proof -
  obtain q where q: "blk_queue_start_tag noop_env tag_sample (Rq 1) = Some (False, q)" "tag_busy_list q = [Rq 1]"
      "rq_tag (rqs q (Rq 1)) = 0" using tag_sample_start by blast
  have "tags_reach noop_env q"
    by (rule reach_start [OF tag_sample_reach _ _ _ q(1)])
      (simp_all add: tag_sample_def ELV_ON_HASH_def queue_zero_def list_ex_iff noop_env_def)
  from tags_identify [OF this, of "Rq 1"] show ?thesis using q by auto
qed

text \<open>
  Giving a tag back right after it was taken restores the tag map, the index and the list of
  tagged requests.
\<close>

theorem start_end_tag:
  assumes "tags_reach env q" "rq \<in> set (queue_head q)" "\<not> ELV_ON_HASH q rq"
    "rq \<notin> set (env_own env (elevator_data q))" "blk_queue_start_tag env q rq = Some (False, q1)"
  shows "\<exists>q2. blk_queue_end_tag env q1 rq = Some q2 \<and> queue_tags q2 = queue_tags q \<and> tag_busy_list q2 = tag_busy_list q"
proof -
  obtain t where at: "tags_at env q t" using reach_tags_inv [OF assms(1)] by (auto simp: tags_inv_def)
  note t = tags_atD [OF at]
  have new: "\<not> blk_rq_tagged (rqs q rq)"
    using assms(5) t(1) by (auto simp: blk_queue_start_tag_def blk_rq_tagged_def split: if_splits)
  obtain g where g: "g < length (tag_index t)" "tag_index t ! g = None" "tag_busy_list q1 = rq # tag_busy_list q"
      "rq_tag (rqs q1 rq) = int g"
      and at1: "tags_at env q1 (t\<lparr>tag_map := (tag_map t)[g := True], tag_index := (tag_index t)[g := Some rq]\<rparr>)"
    using start_tag_spec [OF at assms(2,3) new assms(4)] assms(5) by auto
  have "g < length (tag_map t)" using g(1) map_covers [OF t(2)] by simp
  then have "\<not> tag_map t ! g" using g(1,2) t(2) by (simp add: tag_map_ok_def)
  then have undo: "(tag_map t)[g := False] = tag_map t" "(tag_index t)[g := None] = tag_index t"
    using g(2) by (metis (full_types) list_update_id)+
  have "rq \<notin> set (tag_busy_list q)" using t(4) new by blast
  then have "removeAll rq (tag_busy_list q1) = tag_busy_list q" using g(3) by simp
  moreover have "t\<lparr>tag_map := tag_map t, tag_index := tag_index t\<rparr> = t" by simp
  ultimately show ?thesis
    using end_tag_spec [OF at1, of rq] g(3,4) t(1) by (auto simp: undo dest: tags_atD(1))
qed

theorem start_end_tag_witness:
  "\<exists>q1 q2. blk_queue_start_tag noop_env tag_sample (Rq 1) = Some (False, q1) \<and>
     blk_queue_end_tag noop_env q1 (Rq 1) = Some q2 \<and> tag_busy_list q2 = []"
proof -
  obtain q where q: "blk_queue_start_tag noop_env tag_sample (Rq 1) = Some (False, q)" using tag_sample_start by blast
  have "Rq 1 \<in> set (queue_head tag_sample)" "\<not> ELV_ON_HASH tag_sample (Rq 1)"
      "Rq 1 \<notin> set (env_own noop_env (elevator_data tag_sample))" "tag_busy_list tag_sample = []"
    by (simp_all add: tag_sample_def ELV_ON_HASH_def queue_zero_def list_ex_iff noop_env_def)
  with start_end_tag [OF tag_sample_reach _ _ _ q] q show ?thesis by auto
qed

text \<open>
  C31. Raising the depth of an unshared tag map, when memory is there, keeps every tag, with one
  exception: the new depth is cut to twice the number of requests the queue has by now, and when
  that is below the old depth the old index is copied beyond the end of the new one.
\<close>

theorem resize_tags_overrun:
  assumes "tags_reach env q" "queue_tags q = Some t" "tag_refcnt t = 1" "real_max_depth t < depth" "depth < 2 ^ 30"
    "unat (nr_requests qs) < 2 ^ 29"
  shows "if 2 * int (unat (nr_requests qs)) < real_max_depth t
     then blk_queue_resize_tags qs q depth (True, True) = None
     else \<exists>rc q'. blk_queue_resize_tags qs q depth (True, True) = Some (rc, q') \<and> tags_reach env q' \<and>
       (\<forall>rq \<in> set (tag_busy_list q). blk_queue_find_tag q' (rq_tag (rqs q rq)) = Some (Some rq))"
proof -
  obtain t' where "tags_at env q t'" using reach_tags_inv [OF assms(1)] by (auto simp: tags_inv_def)
  then have at: "tags_at env q t" using assms(2) tags_atD(1) by fastforce
  have d: "0 \<le> depth" using tags_atD(2) [OF at] assms(4) by (simp add: tag_map_ok_def)
  note spec = resize_spec [OF at d assms(5,6), of "(True, True)"]
  show ?thesis
  proof (cases "2 * int (unat (nr_requests qs)) < real_max_depth t")
    case False
    then obtain rc t' where run: "blk_queue_resize_tags qs q depth (True, True) = Some (rc, q\<lparr>queue_tags := Some t'\<rparr>)"
      using spec by auto
    note reach = reach_resize [OF assms(1) d assms(5,6) run]
    have "blk_queue_find_tag (q\<lparr>queue_tags := Some t'\<rparr>) (rq_tag (rqs q rq)) = Some (Some rq)"
      if "rq \<in> set (tag_busy_list q)" for rq
      using find_busy [OF reach_tags_inv [OF reach], of rq] that by simp
    then show ?thesis using False run reach by auto
  qed (use spec assms(3,4) in simp)
qed

text \<open>Sixteen tags, on a queue that has been cut to four requests since.\<close>

theorem resize_tags_overrun_witness:
  "blk_queue_resize_tags (qs0\<lparr>nr_requests := 4\<rparr>) tag_sample 32 (True, True) = None"
  using resize_tags_overrun [OF tag_sample_reach, of _ 32 "qs0\<lparr>nr_requests := 4\<rparr>"]
  by (simp add: tag_sample_def)

end
