(* ===== verification/Barrier.thy ===== *)
theory Barrier
  imports Tags
begin

text \<open>
  Barriers and the completion of requests: \<^verbatim>\<open>block/blk-barrier.c\<close>, the end of a request in
  \<^verbatim>\<open>block/blk-core.c\<close>, \<^verbatim>\<open>elv_completed_request\<close> of \<^verbatim>\<open>block/elevator.c\<close> and the choice of the next request
  in \<^verbatim>\<open>block/blk.h\<close>.

  A barrier is carried out as a sequence: drain, flush, the barrier itself, flush. The completion
  of a request may finish the sequence, which ends the original barrier request, which is again
  the completion of a request. The functions therefore take the ending of a request as their
  argument \<open>ea\<close>, and \<open>end_all_fuel\<close> ties the knot. The original ends when no sequence is under way
  any more, so its end never gets to a third level: two levels are enough.
\<close>

section \<open>Ordering modes\<close>

definition QUEUE_ORDERED_BY_DRAIN :: u32 where "QUEUE_ORDERED_BY_DRAIN = 0x01"
definition QUEUE_ORDERED_BY_TAG :: u32 where "QUEUE_ORDERED_BY_TAG = 0x02"
definition QUEUE_ORDERED_DO_PREFLUSH :: u32 where "QUEUE_ORDERED_DO_PREFLUSH = 0x10"
definition QUEUE_ORDERED_DO_BAR :: u32 where "QUEUE_ORDERED_DO_BAR = 0x20"
definition QUEUE_ORDERED_DO_POSTFLUSH :: u32 where "QUEUE_ORDERED_DO_POSTFLUSH = 0x40"
definition QUEUE_ORDERED_DO_FUA :: u32 where "QUEUE_ORDERED_DO_FUA = 0x80"
definition QUEUE_ORDERED_NONE :: u32 where "QUEUE_ORDERED_NONE = 0x00"

definition QUEUE_ORDERED_DRAIN :: u32 where
  "QUEUE_ORDERED_DRAIN = QUEUE_ORDERED_BY_DRAIN OR QUEUE_ORDERED_DO_BAR"
definition QUEUE_ORDERED_DRAIN_FLUSH :: u32 where
  "QUEUE_ORDERED_DRAIN_FLUSH = QUEUE_ORDERED_DRAIN OR QUEUE_ORDERED_DO_PREFLUSH OR QUEUE_ORDERED_DO_POSTFLUSH"
definition QUEUE_ORDERED_DRAIN_FUA :: u32 where
  "QUEUE_ORDERED_DRAIN_FUA = QUEUE_ORDERED_DRAIN OR QUEUE_ORDERED_DO_PREFLUSH OR QUEUE_ORDERED_DO_FUA"
definition QUEUE_ORDERED_TAG :: u32 where
  "QUEUE_ORDERED_TAG = QUEUE_ORDERED_BY_TAG OR QUEUE_ORDERED_DO_BAR"
definition QUEUE_ORDERED_TAG_FLUSH :: u32 where
  "QUEUE_ORDERED_TAG_FLUSH = QUEUE_ORDERED_TAG OR QUEUE_ORDERED_DO_PREFLUSH OR QUEUE_ORDERED_DO_POSTFLUSH"
definition QUEUE_ORDERED_TAG_FUA :: u32 where
  "QUEUE_ORDERED_TAG_FUA = QUEUE_ORDERED_TAG OR QUEUE_ORDERED_DO_PREFLUSH OR QUEUE_ORDERED_DO_FUA"

lemmas QUEUE_ORDERED_defs =
  QUEUE_ORDERED_BY_DRAIN_def QUEUE_ORDERED_BY_TAG_def QUEUE_ORDERED_DO_PREFLUSH_def QUEUE_ORDERED_DO_BAR_def
  QUEUE_ORDERED_DO_POSTFLUSH_def QUEUE_ORDERED_DO_FUA_def QUEUE_ORDERED_NONE_def QUEUE_ORDERED_DRAIN_def
  QUEUE_ORDERED_DRAIN_FLUSH_def QUEUE_ORDERED_DRAIN_FUA_def QUEUE_ORDERED_TAG_def QUEUE_ORDERED_TAG_FLUSH_def
  QUEUE_ORDERED_TAG_FUA_def

definition blk_queue_ordered :: "'d request_queue \<Rightarrow> u32 \<Rightarrow> nat option \<Rightarrow> int \<times> 'd request_queue" where
  "blk_queue_ordered q mode pff =
     (if pff = None \<and> mode AND (QUEUE_ORDERED_DO_PREFLUSH OR QUEUE_ORDERED_DO_POSTFLUSH) \<noteq> 0 then (- EINVAL, q)
      else if mode \<noteq> QUEUE_ORDERED_NONE \<and> mode \<noteq> QUEUE_ORDERED_DRAIN \<and> mode \<noteq> QUEUE_ORDERED_DRAIN_FLUSH \<and>
              mode \<noteq> QUEUE_ORDERED_DRAIN_FUA \<and> mode \<noteq> QUEUE_ORDERED_TAG \<and> mode \<noteq> QUEUE_ORDERED_TAG_FLUSH \<and>
              mode \<noteq> QUEUE_ORDERED_TAG_FUA then (- EINVAL, q)
      else (0, q\<lparr>ordered := mode, next_ordered := mode, prepare_flush_fn := pff\<rparr>))"

section \<open>Completion\<close>

type_synonym 'd end_all = "'d request_queue \<Rightarrow> rqp \<Rightarrow> int \<Rightarrow> 'd request_queue option"

definition blk_ordered_complete_seq ::
    "'d end_all \<Rightarrow> 'd request_queue \<Rightarrow> u32 \<Rightarrow> int \<Rightarrow> (bool \<times> 'd request_queue) option" where
  "blk_ordered_complete_seq ea q seq error =
     (let q = (if error \<noteq> 0 \<and> orderr q = 0 then q\<lparr>orderr := error\<rparr> else q)
      in if ordseq q AND seq \<noteq> 0 then None
         else let q = q\<lparr>ordseq := ordseq q OR seq\<rparr>
              in if blk_ordered_cur_seq q \<noteq> QUEUE_ORDSEQ_DONE then Some (False, q)
                 else do {
                   let q = q\<lparr>ordseq := 0\<rparr>;
                   rq \<leftarrow> orig_bar_rq q;
                   q \<leftarrow> ea q rq (orderr q);
                   Some (True, q)
                 })"

definition elv_completed_request ::
    "'d end_all \<Rightarrow> 'd blk_env \<Rightarrow> 'd request_queue \<Rightarrow> rqp \<Rightarrow> 'd request_queue option" where
  "elv_completed_request ea env q rq = do {
     let r = rqs q rq;
     let q = (if blk_account_rq r then
                (let q = q\<lparr>in_flight := (in_flight q)(rq_is_sync r := in_flight q (rq_is_sync r) - 1)\<rparr>
                 in if blk_sorted_rq r then
                      (case elevator_completed_req_fn (env_ops env) of Some f \<Rightarrow> f q rq | None \<Rightarrow> q)
                    else q)
              else q);
     if ordseq q = 0 then Some q
     else if queue_in_flight q = 0 \<and> blk_ordered_cur_seq q = QUEUE_ORDSEQ_DRAIN then do {
       go \<leftarrow> (case queue_head q of
               [] \<Rightarrow> Some True
             | nxt # _ \<Rightarrow> map_option (\<lambda>s. s > QUEUE_ORDSEQ_DRAIN) (blk_ordered_req_seq q nxt));
       if go then do {
         (_, q) \<leftarrow> blk_ordered_complete_seq ea q QUEUE_ORDSEQ_DRAIN 0;
         blk_run_queue (env_ops env) (env_request_fn env) q
       } else Some q
     } else Some q
   }"

text \<open>\<^verbatim>\<open>__blk_put_request\<close>, on a request that belongs to a queue.\<close>

definition blk_put_request ::
    "'d end_all \<Rightarrow> 'd blk_env \<Rightarrow> 'd request_queue \<Rightarrow> rqp \<Rightarrow> 'd request_queue option" where
  "blk_put_request ea env q rq = do {
     let q = rq_upd rq (\<lambda>r. r\<lparr>ref_count := ref_count r - 1\<rparr>) q;
     if ref_count (rqs q rq) \<noteq> 0 then Some q
     else do {
       q \<leftarrow> elv_completed_request ea env q rq;
       let r = rqs q rq;
       if rq_flagged r REQ_ALLOCED then
         (if blk_queued_rq env q rq \<or> ELV_ON_HASH q rq then None
          else Some (freed_request (env_settings env) (rq_is_sync r) (rq_flagged r REQ_ELVPRIV)
                      (blk_free_request (env_ops env) q rq)))
       else Some q
     }
   }"

definition ordered_end_io ::
    "'d end_all \<Rightarrow> 'd blk_env \<Rightarrow> u32 \<Rightarrow> 'd request_queue \<Rightarrow> rqp \<Rightarrow> int \<Rightarrow> 'd request_queue option" where
  "ordered_end_io ea env seq q rq error = do {
     q \<leftarrow> elv_completed_request ea env q rq;
     (_, q) \<leftarrow> blk_ordered_complete_seq ea q seq error;
     Some q
   }"

definition pre_flush_end_io ::
    "'d end_all \<Rightarrow> 'd blk_env \<Rightarrow> 'd request_queue \<Rightarrow> rqp \<Rightarrow> int \<Rightarrow> 'd request_queue option" where
  "pre_flush_end_io ea env = ordered_end_io ea env QUEUE_ORDSEQ_PREFLUSH"

definition bar_end_io ::
    "'d end_all \<Rightarrow> 'd blk_env \<Rightarrow> 'd request_queue \<Rightarrow> rqp \<Rightarrow> int \<Rightarrow> 'd request_queue option" where
  "bar_end_io ea env = ordered_end_io ea env QUEUE_ORDSEQ_BAR"

definition post_flush_end_io ::
    "'d end_all \<Rightarrow> 'd blk_env \<Rightarrow> 'd request_queue \<Rightarrow> rqp \<Rightarrow> int \<Rightarrow> 'd request_queue option" where
  "post_flush_end_io ea env = ordered_end_io ea env QUEUE_ORDSEQ_POSTFLUSH"

text \<open>The call through \<^verbatim>\<open>req->end_io\<close>, or the release of the request and its second half without one.\<close>

definition blk_finish_request ::
    "'d end_all \<Rightarrow> 'd blk_env \<Rightarrow> 'd request_queue \<Rightarrow> rqp \<Rightarrow> int \<Rightarrow> 'd request_queue option" where
  "blk_finish_request ea env q rq error = do {
     q \<leftarrow> (if blk_rq_tagged (rqs q rq) then blk_queue_end_tag env q rq else Some q);
     if blk_queued_rq env q rq then None
     else case end_io (rqs q rq) of
       PreFlushEndIo \<Rightarrow> pre_flush_end_io ea env q rq error
     | BarEndIo \<Rightarrow> bar_end_io ea env q rq error
     | PostFlushEndIo \<Rightarrow> post_flush_end_io ea env q rq error
     | DriverEndIo n \<Rightarrow> env_end_io env n q rq error
     | NoEndIo \<Rightarrow> do {
         q \<leftarrow> (case next_rq (rqs q rq) of Some n \<Rightarrow> blk_put_request ea env q n | None \<Rightarrow> Some q);
         blk_put_request ea env q rq
       }
   }"

text \<open>\<^verbatim>\<open>__blk_end_bidi_request\<close>: whether buffers are left.\<close>

definition blk_end_bidi_request ::
    "'d end_all \<Rightarrow> 'd blk_env \<Rightarrow> 'd request_queue \<Rightarrow> rqp \<Rightarrow> int \<Rightarrow> u32 \<Rightarrow> u32 \<Rightarrow> (bool \<times> 'd request_queue) option" where
  "blk_end_bidi_request ea env q rq error nr bidi = do {
     (pending, q) \<leftarrow> blk_update_bidi_request (env_settings env) q rq error nr bidi;
     if pending then Some (True, q)
     else do { q \<leftarrow> blk_finish_request ea env q rq error; Some (False, q) }
   }"

definition end_request_all_step :: "'d end_all \<Rightarrow> 'd blk_env \<Rightarrow> 'd end_all" where
  "end_request_all_step ea env q rq error = do {
     let bidi = (case next_rq (rqs q rq) of Some n \<Rightarrow> blk_rq_bytes (rqs q n) | None \<Rightarrow> 0);
     (pending, q) \<leftarrow> blk_end_bidi_request ea env q rq error (blk_rq_bytes (rqs q rq)) bidi;
     if pending then None else Some q
   }"

fun end_all_fuel :: "nat \<Rightarrow> 'd blk_env \<Rightarrow> 'd end_all" where
  "end_all_fuel 0 env q rq error = None"
| "end_all_fuel (Suc n) env q rq error = end_request_all_step (end_all_fuel n env) env q rq error"

definition blk_end_request_all :: "'d blk_env \<Rightarrow> 'd end_all" where
  "blk_end_request_all env = end_all_fuel 2 env"

definition blk_end_request ::
    "'d blk_env \<Rightarrow> 'd request_queue \<Rightarrow> rqp \<Rightarrow> int \<Rightarrow> u32 \<Rightarrow> (bool \<times> 'd request_queue) option" where
  "blk_end_request env q rq error nr = blk_end_bidi_request (end_all_fuel 1 env) env q rq error nr 0"

definition blk_end_request_cur ::
    "'d blk_env \<Rightarrow> 'd request_queue \<Rightarrow> rqp \<Rightarrow> int \<Rightarrow> (bool \<times> 'd request_queue) option" where
  "blk_end_request_cur env q rq error = do {
     n \<leftarrow> blk_rq_cur_bytes (rqs q rq);
     blk_end_request env q rq error n
   }"

definition blk_end_request_err ::
    "'d blk_env \<Rightarrow> 'd request_queue \<Rightarrow> rqp \<Rightarrow> int \<Rightarrow> (bool \<times> 'd request_queue) option" where
  "blk_end_request_err env q rq error = do {
     n \<leftarrow> blk_rq_err_bytes (rqs q rq);
     blk_end_request env q rq error n
   }"

section \<open>Issuing a barrier\<close>

definition queue_flush :: "'d blk_env \<Rightarrow> 'd request_queue \<Rightarrow> u32 \<Rightarrow> 'd request_queue option" where
  "queue_flush env q which = do {
     let (rq, eio) = (if which = QUEUE_ORDERED_DO_PREFLUSH then (PreFlushRq, PreFlushEndIo)
                      else (PostFlushRq, PostFlushEndIo));
     let q = rq_upd rq (\<lambda>_. blk_rq_init\<lparr>cmd_flags := REQ REQ_HARDBARRIER, rq_disk := rq_disk (rqs q BarRq),
                                          end_io := eio\<rparr>) q;
     n \<leftarrow> prepare_flush_fn q;
     let q = env_prepare_flush env n q rq;
     elv_insert (env_ops env) (env_request_fn env) q rq ELEVATOR_INSERT_FRONT
   }"

text \<open>The mode of the sequence that starts; an empty barrier has nothing to write.\<close>

definition start_ordered_mode :: "request \<Rightarrow> u32 \<Rightarrow> u32" where
  "start_ordered_mode r mode =
     (if blk_rq_sectors r = 0 then
        (let mode = mode AND NOT (QUEUE_ORDERED_DO_BAR OR QUEUE_ORDERED_DO_POSTFLUSH)
         in if mode AND QUEUE_ORDERED_BY_TAG \<noteq> 0 \<and> mode AND QUEUE_ORDERED_DO_PREFLUSH = 0
            then (mode AND NOT QUEUE_ORDERED_BY_TAG) OR QUEUE_ORDERED_BY_DRAIN else mode)
      else mode)"

text \<open>The three steps, queued in reverse; each gives the request to issue and the steps skipped.\<close>

definition start_postflush ::
    "'d blk_env \<Rightarrow> 'd request_queue \<Rightarrow> (rqp option \<times> u32 \<times> 'd request_queue) option" where
  "start_postflush env q =
     (if ordered q AND QUEUE_ORDERED_DO_POSTFLUSH \<noteq> 0 then do {
        q \<leftarrow> queue_flush env q QUEUE_ORDERED_DO_POSTFLUSH;
        Some (Some PostFlushRq, 0, q)
      } else Some (None, QUEUE_ORDSEQ_POSTFLUSH, q))"

definition start_bar ::
    "'d blk_env \<Rightarrow> rqp option \<Rightarrow> u32 \<Rightarrow> 'd request_queue \<Rightarrow> (rqp option \<times> u32 \<times> 'd request_queue) option" where
  "start_bar env rq skip q =
     (if ordered q AND QUEUE_ORDERED_DO_BAR \<noteq> 0 then do {
        orig \<leftarrow> orig_bar_rq q;
        case bios (rqs q orig) of
          [] \<Rightarrow> None
        | b # nxt \<Rightarrow> do {
            let r = blk_rq_init;
            let r = (if bio_data_dir b then rq_set_flag REQ_RW r else r);
            let r = (if ordered q AND QUEUE_ORDERED_DO_FUA \<noteq> 0 then rq_set_flag REQ_FUA r else r);
            let r = init_request_from_bio (env_settings env) r b nxt;
            let q = share_bios BarRq (rq_upd BarRq (\<lambda>_. r\<lparr>end_io := BarEndIo\<rparr>) q);
            q \<leftarrow> elv_insert (env_ops env) (env_request_fn env) q BarRq ELEVATOR_INSERT_FRONT;
            Some (Some BarRq, skip, q)
          }
      } else Some (rq, skip OR QUEUE_ORDSEQ_BAR, q))"

definition start_preflush ::
    "'d blk_env \<Rightarrow> rqp option \<Rightarrow> u32 \<Rightarrow> 'd request_queue \<Rightarrow> (rqp option \<times> u32 \<times> 'd request_queue) option" where
  "start_preflush env rq skip q =
     (if ordered q AND QUEUE_ORDERED_DO_PREFLUSH \<noteq> 0 then do {
        q \<leftarrow> queue_flush env q QUEUE_ORDERED_DO_PREFLUSH;
        Some (Some PreFlushRq, skip, q)
      } else Some (rq, skip OR QUEUE_ORDSEQ_PREFLUSH, q))"

text \<open>The result: whether the request is still there, what to issue now, and the queue.\<close>

definition start_ordered ::
    "'d end_all \<Rightarrow> 'd blk_env \<Rightarrow> 'd request_queue \<Rightarrow> rqp \<Rightarrow> (bool \<times> rqp option \<times> 'd request_queue) option" where
  "start_ordered ea env q rq = do {
     let q = q\<lparr>orderr := 0, ordered := start_ordered_mode (rqs q rq) (next_ordered q),
               ordseq := ordseq q OR QUEUE_ORDSEQ_STARTED\<rparr>;
     q \<leftarrow> blk_dequeue_request env q rq;
     let q = q\<lparr>orig_bar_rq := Some rq\<rparr>;
     (nrq, skip, q) \<leftarrow> start_postflush env q;
     (nrq, skip, q) \<leftarrow> start_bar env nrq skip q;
     (nrq, skip, q) \<leftarrow> start_preflush env nrq skip q;
     let (nrq, skip) = (if ordered q AND QUEUE_ORDERED_BY_DRAIN \<noteq> 0 \<and> queue_in_flight q \<noteq> 0 then (None, skip)
                        else (nrq, skip OR QUEUE_ORDSEQ_DRAIN));
     (done, q) \<leftarrow> blk_ordered_complete_seq ea q skip 0;
     Some (\<not> done, nrq, q)
   }"

definition blk_do_ordered ::
    "'d end_all \<Rightarrow> 'd blk_env \<Rightarrow> 'd request_queue \<Rightarrow> rqp \<Rightarrow> (bool \<times> rqp option \<times> 'd request_queue) option" where
  "blk_do_ordered ea env q rq =
     (let is_barrier = (blk_fs_request (rqs q rq) \<and> blk_barrier_rq (rqs q rq))
      in if ordseq q = 0 then
           (if \<not> is_barrier then Some (True, Some rq, q)
            else if next_ordered q \<noteq> QUEUE_ORDERED_NONE then start_ordered ea env q rq
            else do {
              q \<leftarrow> blk_dequeue_request env q rq;
              q \<leftarrow> ea q rq (- EOPNOTSUPP);
              Some (False, None, q)
            })
         else if \<not> blk_fs_request (rqs q rq) \<and> rq \<noteq> PreFlushRq \<and> rq \<noteq> PostFlushRq then Some (True, Some rq, q)
         else if ordered q AND QUEUE_ORDERED_BY_TAG \<noteq> 0 then
           Some (True, if is_barrier \<and> rq \<noteq> BarRq then None else Some rq, q)
         else do {
           s \<leftarrow> blk_ordered_req_seq q rq;
           Some (True, if s > blk_ordered_cur_seq q then None else Some rq, q)
         })"

section \<open>The next request for the driver\<close>

text \<open>\<^verbatim>\<open>__elv_next_request\<close>; \<open>None\<close> as the request is its NULL.\<close>

partial_function (option) elv_next_request ::
    "'d blk_env \<Rightarrow> 'd request_queue \<Rightarrow> (rqp option \<times> 'd request_queue) option" where
  "elv_next_request env q =
     (case queue_head q of
        rq # _ \<Rightarrow>
          Option.bind (blk_do_ordered (blk_end_request_all env) env q rq)
            (\<lambda>(ret, nrq, q). if ret then Some (nrq, q) else elv_next_request env q)
      | [] \<Rightarrow>
          Option.bind (elevator_dispatch_fn (env_ops env) q False)
            (\<lambda>(more, q). if more then elv_next_request env q else Some (None, q)))"

definition BLKPREP_OK :: int where "BLKPREP_OK = 0"
definition BLKPREP_KILL :: int where "BLKPREP_KILL = 1"
definition BLKPREP_DEFER :: int where "BLKPREP_DEFER = 2"

text \<open>The first look of the driver at a request marks it as started.\<close>

definition peek_start :: "'d elevator_ops \<Rightarrow> 'd request_queue \<Rightarrow> rqp \<Rightarrow> 'd request_queue" where
  "peek_start ops q rq =
     (if \<not> rq_flagged (rqs q rq) REQ_STARTED then
        (let q = (if blk_sorted_rq (rqs q rq) then elv_activate_rq ops q rq else q)
         in rq_upd rq (rq_set_flag REQ_STARTED) q)
      else q)"

definition peek_boundary :: "'d request_queue \<Rightarrow> rqp \<Rightarrow> 'd request_queue" where
  "peek_boundary q rq =
     (if boundary_rq q = None \<or> boundary_rq q = Some rq
      then q\<lparr>end_sector := rq_end_sector (rqs q rq), boundary_rq := None\<rparr> else q)"

definition needs_drain :: "queue_settings \<Rightarrow> request \<Rightarrow> bool" where
  "needs_drain qs r \<longleftrightarrow> dma_drain_size qs \<noteq> 0 \<and> blk_rq_bytes r \<noteq> 0"

text \<open>
  The preparation of a request by the driver. The result is the request to return, or a request
  that is to be killed as \<open>Inr\<close>.
\<close>

definition peek_prep ::
    "'d blk_env \<Rightarrow> 'd request_queue \<Rightarrow> rqp \<Rightarrow> (rqp option + rqp) \<times> 'd request_queue" where
  "peek_prep env q rq =
     (let qs = env_settings env
      in if rq_flagged (rqs q rq) REQ_DONTPREP then (Inl (Some rq), q)
         else
           (let q = (if needs_drain qs (rqs q rq)
                     then rq_upd rq (\<lambda>r. r\<lparr>nr_phys_segments := nr_phys_segments r + 1\<rparr>) q else q)
            in case prep_rq_fn qs of
                 None \<Rightarrow> (Inl (Some rq), q)
               | Some n \<Rightarrow>
                   (case env_prep_rq env n q rq of
                      (ret, q) \<Rightarrow>
                        if ret = BLKPREP_OK then (Inl (Some rq), q)
                        else if ret = BLKPREP_DEFER then
                          (let r = rqs q rq;
                               q = (if needs_drain qs r \<and> \<not> rq_flagged r REQ_DONTPREP
                                    then rq_upd rq (\<lambda>r. r\<lparr>nr_phys_segments := nr_phys_segments r - 1\<rparr>) q else q)
                           in (Inl None, q))
                        else if ret = BLKPREP_KILL then (Inr rq, rq_upd rq (rq_set_flag REQ_QUIET) q)
                        else (Inl (Some rq), q))))"

partial_function (option) blk_peek_request ::
    "'d blk_env \<Rightarrow> 'd request_queue \<Rightarrow> (rqp option \<times> 'd request_queue) option" where
  "blk_peek_request env q =
     Option.bind (elv_next_request env q)
       (\<lambda>(nrq, q). case nrq of
          None \<Rightarrow> Some (None, q)
        | Some rq \<Rightarrow>
            (case peek_prep env (peek_boundary (peek_start (env_ops env) q rq) rq) rq of
               (Inl res, q) \<Rightarrow> Some (res, q)
             | (Inr rq, q) \<Rightarrow>
                 Option.bind (blk_start_request env q rq)
                   (\<lambda>q. Option.bind (blk_end_request_all env q rq (- EIO))
                     (\<lambda>q. blk_peek_request env q))))"

definition blk_fetch_request :: "'d blk_env \<Rightarrow> 'd request_queue \<Rightarrow> (rqp option \<times> 'd request_queue) option" where
  "blk_fetch_request env q = do {
     (nrq, q) \<leftarrow> blk_peek_request env q;
     case nrq of
       None \<Rightarrow> Some (None, q)
     | Some rq \<Rightarrow> do { q \<leftarrow> blk_start_request env q rq; Some (Some rq, q) }
   }"

end
