(* ===== verification/Barrier_Props.thy ===== *)
theory Barrier_Props
  imports Barrier Request_Props Tags_Props
begin

text \<open>
  A barrier is issued as the requests its mode asks for, in their order and ahead of everything
  else; it ends exactly when the last of its steps has completed, in whatever order they
  complete, with the first error any of them had; and the ending of an original request by the end of
  its sequence is never nested in another one.
\<close>

section \<open>Two levels are enough\<close>

text \<open>The ending of the original request is only asked for when no sequence is under way.\<close>

definition agree_idle :: "'d end_all \<Rightarrow> 'd end_all \<Rightarrow> bool" where
  "agree_idle ea ea' \<longleftrightarrow> (\<forall>q rq e. ordseq q = 0 \<longrightarrow> ea q rq e = ea' q rq e)"

lemma complete_seq_cong:
  assumes "agree_idle ea ea'"
  shows "blk_ordered_complete_seq ea q seq e = blk_ordered_complete_seq ea' q seq e"
proof -
  have "ea (q\<lparr>ordseq := 0\<rparr>) rq e = ea' (q\<lparr>ordseq := 0\<rparr>) rq e" for q rq e
    using assms by (simp add: agree_idle_def)
  then show ?thesis
    by (simp add: blk_ordered_complete_seq_def Let_def cong: bind_option_cong)
qed

lemma end_cong:
  assumes "agree_idle ea ea'"
  shows "elv_completed_request ea env = elv_completed_request ea' env"
    "blk_put_request ea env = blk_put_request ea' env"
    "ordered_end_io ea env = ordered_end_io ea' env"
    "blk_finish_request ea env = blk_finish_request ea' env"
    "end_request_all_step ea env = end_request_all_step ea' env"
proof -
  show e: "elv_completed_request ea env = elv_completed_request ea' env"
    by (intro ext) (simp only: elv_completed_request_def complete_seq_cong [OF assms])
  show p: "blk_put_request ea env = blk_put_request ea' env"
    by (intro ext) (simp only: blk_put_request_def e)
  show o: "ordered_end_io ea env = ordered_end_io ea' env"
    by (intro ext) (simp only: ordered_end_io_def e complete_seq_cong [OF assms])
  show f: "blk_finish_request ea env = blk_finish_request ea' env"
    by (intro ext) (simp only: blk_finish_request_def p o pre_flush_end_io_def bar_end_io_def post_flush_end_io_def)
  show "end_request_all_step ea env = end_request_all_step ea' env"
    by (intro ext) (simp only: end_request_all_step_def blk_end_bidi_request_def f)
qed

lemma end_bios_ordseq: "ordseq (snd (req_bio_endio q rq b n e)) = ordseq q"
  by (simp add: req_bio_endio_def bio_endio_def Let_def case_prod_beta)

lemma update_loop_ordseq: "update_loop rq e bs st q = Some (bs', st', q') \<Longrightarrow> ordseq q' = ordseq q"
proof (induction rq e bs st q rule: update_loop.induct)
  case (2 rq e b bs st q)
  show ?case
    using "2.prems" "2.IH"
    by (subst (asm) update_loop.simps(2)) (auto simp: Let_def end_bios_ordseq split: if_splits option.splits)
qed (simp add: update_loop.simps(1))

lemma share_bios_ordseq [simp]: "ordseq (share_bios rq q) = ordseq q"
  by (simp add: share_bios_def Let_def rq_upd_def split: rqp.splits option.splits)

lemma update_bio_ordseq: "update_bio rq e b st q = Some (b', q') \<Longrightarrow> ordseq q' = ordseq q"
  using end_bios_ordseq [of q rq b "bio_nbytes st" e]
  by (auto simp: update_bio_def Let_def split: if_splits prod.splits bind_splits)

lemma update_request_ordseq:
  assumes "blk_update_request qs q rq e n = Some (pending, q')"
  shows "ordseq q' = ordseq q"
proof -
  have upd: "ordseq (rq_upd rq f q) = ordseq q" for rq f and q :: "'a request_queue" by (simp add: rq_upd_def)
  show ?thesis
    using assms
    by (auto simp: blk_update_request_def Let_def upd split: if_splits list.splits bind_splits
        dest!: update_loop_ordseq update_bio_ordseq)
qed

text \<open>Schedulers without a completion hook, as the no-op and the LOOK scheduler.\<close>

definition quiet_ops :: "'d elevator_ops \<Rightarrow> bool" where
  "quiet_ops ops \<longleftrightarrow> elevator_completed_req_fn ops = None \<and> elevator_put_req_fn ops = None"

lemma completed_idle:
  assumes "quiet_ops (env_ops env)" "ordseq q = 0"
  shows "elv_completed_request ea env q rq = Some (if blk_account_rq (rqs q rq)
     then q\<lparr>in_flight := (in_flight q)(rq_is_sync (rqs q rq) := in_flight q (rq_is_sync (rqs q rq)) - 1)\<rparr> else q)"
  using assms by (simp add: elv_completed_request_def quiet_ops_def Let_def)

lemma freed_request_ordseq [simp]: "ordseq (freed_request qs sync priv q) = ordseq q"
  by (simp add: freed_request_def freed_request_dir_def Let_def blk_clear_queue_congested_def
      blk_clear_queue_full_def queue_flag_clear_def)

lemma put_idle:
  assumes "quiet_ops (env_ops env)" "ordseq q = 0"
  shows "blk_put_request ea env q rq = blk_put_request ea' env q rq"
    "blk_put_request ea env q rq = Some q' \<Longrightarrow> ordseq q' = 0"
proof -
  let ?q = "rq_upd rq (\<lambda>r. r\<lparr>ref_count := ref_count r - 1\<rparr>) q"
  have q: "ordseq ?q = 0" using assms(2) by (simp add: rq_upd_def)
  note c = completed_idle [OF assms(1) q]
  show "blk_put_request ea env q rq = blk_put_request ea' env q rq" by (simp add: blk_put_request_def Let_def c)
  show "ordseq q' = 0" if "blk_put_request ea env q rq = Some q'"
    using that q assms(1)
    by (auto simp: blk_put_request_def Let_def c blk_free_request_def elv_put_request_def quiet_ops_def split: if_splits)
qed

lemma ffz_flush: "ffz 4 = 0" "ffz 8 = 0" "ffz 16 = 0"
proof -
  have e: "[0..<32] = 0 # [1..<32]" by (simp add: upt_rec)
  show "ffz 4 = 0" "ffz 8 = 0" "ffz 16 = 0" unfolding ffz_def e by simp_all
qed

lemma end_io_idle:
  assumes "quiet_ops (env_ops env)" "ordseq q = 0" "seq = QUEUE_ORDSEQ_PREFLUSH \<or> seq = QUEUE_ORDSEQ_BAR \<or> seq = QUEUE_ORDSEQ_POSTFLUSH"
  shows "ordered_end_io ea env seq q rq e = ordered_end_io ea' env seq q rq e"
proof -
  have "blk_ordered_complete_seq ea q seq e = blk_ordered_complete_seq ea' q seq e" if "ordseq q = 0" for q :: "'a request_queue"
    using assms(3) that
    by (auto simp: blk_ordered_complete_seq_def Let_def blk_ordered_cur_seq_def QUEUE_ORDSEQ_defs ffz_flush)
  then show ?thesis using assms(2) by (simp add: ordered_end_io_def completed_idle [OF assms(1,2)])
qed

lemma end_tag_ordseq: "blk_queue_end_tag env q rq = Some q' \<Longrightarrow> ordseq q' = ordseq q"
  by (auto simp: blk_queue_end_tag_def Let_def queuelist_del_def rq_upd_def split: option.splits if_splits)

lemma finish_idle:
  assumes "quiet_ops (env_ops env)" "ordseq q = 0"
  shows "blk_finish_request ea env q rq e = blk_finish_request ea' env q rq e"
proof -
  define k where "k = (\<lambda>ea q. if blk_queued_rq env q rq then None
     else case end_io (rqs q rq) of
       PreFlushEndIo \<Rightarrow> pre_flush_end_io ea env q rq e
     | BarEndIo \<Rightarrow> bar_end_io ea env q rq e
     | PostFlushEndIo \<Rightarrow> post_flush_end_io ea env q rq e
     | DriverEndIo n \<Rightarrow> env_end_io env n q rq e
     | NoEndIo \<Rightarrow> do {
         q \<leftarrow> (case next_rq (rqs q rq) of Some n \<Rightarrow> blk_put_request ea env q n | None \<Rightarrow> Some q);
         blk_put_request ea env q rq
       })"
  have k: "k ea q = k ea' q" if "ordseq q = 0" for q
  proof -
    have "do { q \<leftarrow> blk_put_request ea env q n; blk_put_request ea env q rq } =
        do { q \<leftarrow> blk_put_request ea' env q n; blk_put_request ea' env q rq }" for n
      using put_idle(2) [OF assms(1) that, where ea = ea] put_idle(1) [OF assms(1) that, where ea = ea and ea' = ea']
        put_idle(1) [OF assms(1), where ea = ea and ea' = ea']
      by (cases "blk_put_request ea env q n") auto
    then show ?thesis
      using end_io_idle [OF assms(1) that, where ea = ea and ea' = ea']
        put_idle(1) [OF assms(1) that, where ea = ea and ea' = ea']
      by (auto simp: k_def pre_flush_end_io_def bar_end_io_def post_flush_end_io_def
          split: rq_end_io.splits option.splits)
  qed
  have "blk_finish_request ea env q rq e =
      do { q \<leftarrow> (if blk_rq_tagged (rqs q rq) then blk_queue_end_tag env q rq else Some q); k ea q }" for ea
    by (simp add: blk_finish_request_def k_def)
  moreover have "ordseq q1 = 0"
    if "(if blk_rq_tagged (rqs q rq) then blk_queue_end_tag env q rq else Some q) = Some q1" for q1
    using that assms(2) by (auto dest: end_tag_ordseq split: if_splits)
  ultimately show ?thesis
    using k by (cases "if blk_rq_tagged (rqs q rq) then blk_queue_end_tag env q rq else Some q") simp_all
qed

lemma step_idle:
  assumes "quiet_ops (env_ops env)" "ordseq q = 0"
  shows "end_request_all_step ea env q rq e = end_request_all_step ea' env q rq e"
proof -
  have "ordseq q1 = 0" if "blk_update_bidi_request (env_settings env) q rq e n m = Some (pending, q1)" for n m pending q1
    using that assms(2)
    by (auto simp: blk_update_bidi_request_def split: bind_splits if_splits option.splits dest!: update_request_ordseq)
  then have "blk_end_bidi_request ea env q rq e n m = blk_end_bidi_request ea' env q rq e n m" for n m
    using finish_idle [OF assms(1), where ea = ea and ea' = ea']
    by (cases "blk_update_bidi_request (env_settings env) q rq e n m") (auto simp: blk_end_bidi_request_def)
  then show ?thesis by (simp add: end_request_all_step_def)
qed

text \<open>
  With a scheduler that has no completion hook, the ending of the original request by the end of its
  barrier sequence starts no further ending by a sequence: a third level of \<open>end_all_fuel\<close> is never
  reached. What the request function and the hooks of the driver do is their own and not counted.
\<close>

lemma end_all_two_levels:
  assumes "quiet_ops (env_ops env)"
  shows "end_all_fuel (n + 2) env q rq error = blk_end_request_all env q rq error"
proof -
  have "agree_idle (end_all_fuel (Suc n) env) (end_all_fuel 1 env)"
    using step_idle [OF assms] by (auto simp: agree_idle_def)
  from end_cong(5) [OF this] show ?thesis by (simp add: blk_end_request_all_def numeral_2_eq_2)
qed

section \<open>Steps in any order\<close>

text \<open>The steps that a sequence has still to go through.\<close>

definition seq_steps :: "u32 set" where
  "seq_steps = {QUEUE_ORDSEQ_DRAIN, QUEUE_ORDSEQ_PREFLUSH, QUEUE_ORDSEQ_BAR, QUEUE_ORDSEQ_POSTFLUSH}"

definition steps_left :: "u32 \<Rightarrow> u32 set" where
  "steps_left s = {x \<in> seq_steps. s AND x = 0}"

text \<open>A sequence that has started has no bits besides its steps.\<close>

definition seq_started :: "u32 \<Rightarrow> bool" where
  "seq_started s \<longleftrightarrow> s AND QUEUE_ORDSEQ_STARTED \<noteq> 0 \<and> s AND NOT 0x1F = 0"

lemma and_step_bit:
  "(s :: u32) AND 1 = 0 \<longleftrightarrow> \<not> bit s 0" "s AND 2 = 0 \<longleftrightarrow> \<not> bit s 1" "s AND 4 = 0 \<longleftrightarrow> \<not> bit s 2"
  "s AND 8 = 0 \<longleftrightarrow> \<not> bit s 3" "s AND 16 = 0 \<longleftrightarrow> \<not> bit s 4" "s AND 32 = 0 \<longleftrightarrow> \<not> bit s 5"
  using and_mask_bit [of s 0] and_mask_bit [of s 1] and_mask_bit [of s 2] and_mask_bit [of s 3]
    and_mask_bit [of s 4] and_mask_bit [of s 5] by (auto simp: push_bit_eq_mult)

lemma steps_left_bits:
  "QUEUE_ORDSEQ_DRAIN \<in> steps_left s \<longleftrightarrow> \<not> bit s 1" "QUEUE_ORDSEQ_PREFLUSH \<in> steps_left s \<longleftrightarrow> \<not> bit s 2"
  "QUEUE_ORDSEQ_BAR \<in> steps_left s \<longleftrightarrow> \<not> bit s 3" "QUEUE_ORDSEQ_POSTFLUSH \<in> steps_left s \<longleftrightarrow> \<not> bit s 4"
  by (simp_all add: steps_left_def seq_steps_def QUEUE_ORDSEQ_defs and_step_bit)

lemma seq_started_step:
  assumes "seq_started s" "x \<in> steps_left s"
  shows "seq_started (s OR x)" "steps_left (s OR x) = steps_left s - {x}"
proof -
  have x: "x = 2 \<or> x = 4 \<or> x = 8 \<or> x = 16"
    using assms(2) by (auto simp: steps_left_def seq_steps_def QUEUE_ORDSEQ_defs)
  then have "x AND NOT 0x1F = 0" by auto
  then have "(s OR x) AND NOT 0x1F = 0" using assms(1) by (simp only: seq_started_def bit.conj_disj_distrib2 or.left_neutral)
  moreover have "bit (s OR x) 0"
    using assms(1) by (simp add: seq_started_def QUEUE_ORDSEQ_defs and_step_bit bit_or_iff)
  ultimately show "seq_started (s OR x)" by (simp add: seq_started_def QUEUE_ORDSEQ_defs and_step_bit)
  have "(s OR x) AND y = 0 \<longleftrightarrow> s AND y = 0 \<and> y \<noteq> x" if "y \<in> seq_steps" for y
  proof -
    have "(s OR x) AND y = 0 \<longleftrightarrow> s AND y = 0 \<and> x AND y = 0" by (simp only: bit.conj_disj_distrib2 or_eq_0_iff)
    moreover have "x AND y = 0 \<longleftrightarrow> y \<noteq> x" using x that by (auto simp: seq_steps_def QUEUE_ORDSEQ_defs)
    ultimately show ?thesis by simp
  qed
  then show "steps_left (s OR x) = steps_left s - {x}" by (auto simp: steps_left_def)
qed

lemma cur_seq_done:
  assumes "seq_started (ordseq q)"
  shows "blk_ordered_cur_seq q = QUEUE_ORDSEQ_DONE \<longleftrightarrow> steps_left (ordseq q) = {}"
proof -
  let ?s = "ordseq q"
  have b0: "bit ?s 0" using assms by (simp add: seq_started_def QUEUE_ORDSEQ_defs and_step_bit)
  have "bit (?s AND NOT 0x1F) 5 \<longleftrightarrow> bit ?s 5" by (simp add: bit_simps)
  then have b5: "\<not> bit ?s 5" using assms by (simp add: seq_started_def)
  have nz: "?s \<noteq> 0" using b0 by auto
  have left: "steps_left ?s = {} \<longleftrightarrow> bit ?s 1 \<and> bit ?s 2 \<and> bit ?s 3 \<and> bit ?s 4"
  proof -
    have "steps_left ?s = {} \<longleftrightarrow> (\<forall>x \<in> seq_steps. x \<notin> steps_left ?s)" by (auto simp: steps_left_def)
    also have "\<dots> \<longleftrightarrow> bit ?s 1 \<and> bit ?s 2 \<and> bit ?s 3 \<and> bit ?s 4"
      by (simp only: seq_steps_def ball_simps steps_left_bits) simp
    finally show ?thesis .
  qed
  have "[0..<32] = [0..<6] @ [6..<32]" using upt_add_eq_append [of 0 6 26] by simp
  also have "[0..<6] = [0, 1, 2, 3, 4, 5 :: nat]" by code_simp
  finally have e: "[0..<32] = [0, 1, 2, 3, 4, 5] @ [6..<32]" .
  have ffz: "ffz ?s = (if bit ?s 1 then if bit ?s 2 then if bit ?s 3 then if bit ?s 4 then 5 else 4 else 3 else 2 else 1)"
    unfolding ffz_def e using b0 b5 by (simp del: One_nat_def)
  have "push_bit (if a then if b then if c then if d then 5 else 4 else 3 else 2 else 1) 1 = (32 :: u32) \<longleftrightarrow>
      a \<and> b \<and> c \<and> d" for a b c d
    by (cases a; cases b; cases c; cases d) simp_all
  then show ?thesis
    using nz unfolding blk_ordered_cur_seq_def left ffz QUEUE_ORDSEQ_DONE_def by simp
qed

text \<open>The steps complete one after the other, each with an error or 0.\<close>

fun complete_steps ::
    "'d end_all \<Rightarrow> 'd request_queue \<Rightarrow> (u32 \<times> int) list \<Rightarrow> (bool \<times> 'd request_queue) option" where
  "complete_steps ea q [] = Some (False, q)"
| "complete_steps ea q ((seq, e) # rest) = do {
     (done, q) \<leftarrow> blk_ordered_complete_seq ea q seq e;
     if done then Some (True, q) else complete_steps ea q rest
   }"

fun first_error :: "int \<Rightarrow> int list \<Rightarrow> int" where
  "first_error e [] = e"
| "first_error e (x # xs) = first_error (if e = 0 then x else e) xs"

lemma steps_complete:
  assumes "seq_started (ordseq q)" "orig_bar_rq q = Some rq" "xs \<noteq> []" "distinct (map fst xs)"
    "set (map fst xs) = steps_left (ordseq q)"
  shows "complete_steps ea q xs =
     do { q' \<leftarrow> ea (q\<lparr>orderr := first_error (orderr q) (map snd xs), ordseq := 0\<rparr>) rq (first_error (orderr q) (map snd xs));
          Some (True, q') }"
  using assms
proof (induction xs arbitrary: q)
  case (Cons x xs)
  obtain s e where x: "x = (s, e)" by fastforce
  define err where "err = (if orderr q = 0 then e else orderr q)"
  let ?q = "q\<lparr>orderr := err, ordseq := ordseq q OR s\<rparr>"
  have s: "s \<in> steps_left (ordseq q)" using Cons.prems(5) x by auto
  note step = seq_started_step [OF Cons.prems(1) s]
  have left: "steps_left (ordseq ?q) = set (map fst xs)" using step(2) Cons.prems(4,5) x by auto
  have noted: "(if e \<noteq> 0 \<and> orderr q = 0 then q\<lparr>orderr := e\<rparr> else q) = q\<lparr>orderr := err\<rparr>"
    by (cases q) (auto simp: err_def)
  have "ordseq q AND s = 0" using s by (simp add: steps_left_def)
  then have run: "blk_ordered_complete_seq ea q s e =
      (if blk_ordered_cur_seq ?q \<noteq> QUEUE_ORDSEQ_DONE then Some (False, ?q)
       else do { q' \<leftarrow> ea (?q\<lparr>ordseq := 0\<rparr>) rq err; Some (True, q') })"
    using Cons.prems(2) unfolding blk_ordered_complete_seq_def noted Let_def by simp
  have cur: "blk_ordered_cur_seq ?q = QUEUE_ORDSEQ_DONE \<longleftrightarrow> xs = []"
    using cur_seq_done [of ?q] step(1) left by simp
  show ?case
  proof (cases "xs = []")
    case True
    then show ?thesis
      using run cur x by (cases "ea (q\<lparr>orderr := err, ordseq := 0\<rparr>) rq err") (simp_all add: err_def [symmetric])
  next
    case False
    have "seq_started (ordseq ?q)" "orig_bar_rq ?q = Some rq" "distinct (map fst xs)"
        "set (map fst xs) = steps_left (ordseq ?q)"
      using step(1) Cons.prems(2,4) left x by simp_all
    from Cons.IH [OF this(1,2) False this(3,4)] show ?thesis using run cur False x by (simp add: err_def [symmetric])
  qed
qed simp

section \<open>What a barrier issues\<close>

text \<open>The requests of a sequence in the order of its steps, and whether it has to wait for the drain.\<close>

definition seq_requests :: "u32 \<Rightarrow> rqp list" where
  "seq_requests mode =
     (if mode AND QUEUE_ORDERED_DO_PREFLUSH \<noteq> 0 then [PreFlushRq] else []) @
     (if mode AND QUEUE_ORDERED_DO_BAR \<noteq> 0 then [BarRq] else []) @
     (if mode AND QUEUE_ORDERED_DO_POSTFLUSH \<noteq> 0 then [PostFlushRq] else [])"

definition seq_waits :: "u32 \<Rightarrow> 'd request_queue \<Rightarrow> bool" where
  "seq_waits mode q \<longleftrightarrow> mode AND QUEUE_ORDERED_BY_DRAIN \<noteq> 0 \<and> queue_in_flight q \<noteq> 0"

fun rq_step :: "rqp \<Rightarrow> u32" where
  "rq_step PreFlushRq = QUEUE_ORDSEQ_PREFLUSH"
| "rq_step BarRq = QUEUE_ORDSEQ_BAR"
| "rq_step PostFlushRq = QUEUE_ORDSEQ_POSTFLUSH"
| "rq_step (Rq n) = QUEUE_ORDSEQ_DRAIN"

text \<open>A request was put in front of the dispatch list.\<close>

definition pushed :: "rqp \<Rightarrow> 'd request_queue \<Rightarrow> 'd request_queue \<Rightarrow> bool" where
  "pushed p q q' \<longleftrightarrow> queue_head q' = p # queue_head q \<and> ordseq q' = ordseq q \<and> orderr q' = orderr q \<and>
     ordered q' = ordered q \<and> queue_flags q' = queue_flags q \<and> in_flight q' = in_flight q \<and>
     orig_bar_rq q' = orig_bar_rq q \<and> prepare_flush_fn q' = prepare_flush_fn q"

lemma insert_front:
  assumes "\<not> blk_queue_plugged q"
  shows "elv_insert ops rf q p ELEVATOR_INSERT_FRONT =
     Some ((rq_upd p (rq_set_flag REQ_SOFTBARRIER) q)\<lparr>queue_head := p # queue_head q\<rparr>)"
  using assms by (simp add: elv_insert_def elv_insert_at_def Let_def rq_upd_def queue_flag_test_def)

text \<open>The driver's part in a flush is to fill in the command of the flush request.\<close>

definition prepares :: "'d blk_env \<Rightarrow> bool" where
  "prepares env \<longleftrightarrow> (\<forall>n q p. \<exists>f. env_prepare_flush env n q p = rq_upd p f q)"

lemma queue_flush_pushes:
  fixes w :: u32
  assumes "prepares env" "\<not> blk_queue_plugged q" "prepare_flush_fn q \<noteq> None"
  defines "p \<equiv> if w = QUEUE_ORDERED_DO_PREFLUSH then PreFlushRq else PostFlushRq"
  shows "\<exists>q'. queue_flush env q w = Some q' \<and> pushed p q q' \<and> (\<forall>n. rqs q' (Rq n) = rqs q (Rq n))"
proof -
  obtain n where n: "prepare_flush_fn q = Some n" using assms(3) by blast
  let ?q1 = "rq_upd p (\<lambda>_. blk_rq_init\<lparr>cmd_flags := REQ REQ_HARDBARRIER, rq_disk := rq_disk (rqs q BarRq),
     end_io := if w = QUEUE_ORDERED_DO_PREFLUSH then PreFlushEndIo else PostFlushEndIo\<rparr>) q"
  obtain f where f: "env_prepare_flush env n ?q1 p = rq_upd p f ?q1" using assms(1) unfolding prepares_def by meson
  have "\<not> blk_queue_plugged (rq_upd p f ?q1)" using assms(2) by (simp add: rq_upd_def queue_flag_test_def)
  note front = insert_front [OF this]
  have p: "p \<noteq> Rq k" for k by (simp add: p_def)
  have "queue_flush env q w =
      Some ((rq_upd p (rq_set_flag REQ_SOFTBARRIER) (rq_upd p f ?q1))\<lparr>queue_head := p # queue_head (rq_upd p f ?q1)\<rparr>)"
  proof (cases "w = QUEUE_ORDERED_DO_PREFLUSH")
    case True
    then show ?thesis using n f front by (simp add: queue_flush_def p_def rq_upd_def)
  next
    case False
    then show ?thesis using n f front by (simp add: queue_flush_def p_def rq_upd_def)
  qed
  then show ?thesis using p by (auto simp: pushed_def rq_upd_def)
qed

definition keeps :: "'d request_queue \<Rightarrow> 'd request_queue \<Rightarrow> bool" where
  "keeps q q' \<longleftrightarrow> ordseq q' = ordseq q \<and> orderr q' = orderr q \<and> ordered q' = ordered q \<and>
     queue_flags q' = queue_flags q \<and> in_flight q' = in_flight q \<and> orig_bar_rq q' = orig_bar_rq q \<and>
     prepare_flush_fn q' = prepare_flush_fn q"

lemma pushed_keeps: "pushed p q q' \<longleftrightarrow> queue_head q' = p # queue_head q \<and> keeps q q'"
  by (simp add: pushed_def keeps_def)

lemma keeps_plugged: "keeps q q' \<Longrightarrow> blk_queue_plugged q' \<longleftrightarrow> blk_queue_plugged q"
  by (simp add: keeps_def queue_flag_test_def)

lemma start_postflush_spec:
  assumes "prepares env" "\<not> blk_queue_plugged q" "prepare_flush_fn q \<noteq> None"
  defines "c \<equiv> ordered q AND QUEUE_ORDERED_DO_POSTFLUSH \<noteq> 0"
  shows "\<exists>q'. start_postflush env q =
       Some (if c then Some PostFlushRq else None, if c then 0 else QUEUE_ORDSEQ_POSTFLUSH, q') \<and>
     queue_head q' = (if c then [PostFlushRq] else []) @ queue_head q \<and> keeps q q' \<and>
     (\<forall>n. rqs q' (Rq n) = rqs q (Rq n))"
proof (cases c)
  case True
  obtain q' where "queue_flush env q QUEUE_ORDERED_DO_POSTFLUSH = Some q'" "pushed PostFlushRq q q'"
      "\<forall>n. rqs q' (Rq n) = rqs q (Rq n)"
    using queue_flush_pushes [OF assms(1-3), of QUEUE_ORDERED_DO_POSTFLUSH] by (auto simp: QUEUE_ORDERED_defs)
  then show ?thesis using True by (auto simp: start_postflush_def c_def pushed_keeps)
next
  case False
  then show ?thesis by (auto simp: start_postflush_def c_def keeps_def)
qed

lemma start_preflush_spec:
  assumes "prepares env" "\<not> blk_queue_plugged q" "prepare_flush_fn q \<noteq> None"
  defines "c \<equiv> ordered q AND QUEUE_ORDERED_DO_PREFLUSH \<noteq> 0"
  shows "\<exists>q'. start_preflush env nrq skip q =
       Some (if c then Some PreFlushRq else nrq, if c then skip else skip OR QUEUE_ORDSEQ_PREFLUSH, q') \<and>
     queue_head q' = (if c then [PreFlushRq] else []) @ queue_head q \<and> keeps q q'"
proof (cases c)
  case True
  obtain q' where "queue_flush env q QUEUE_ORDERED_DO_PREFLUSH = Some q'" "pushed PreFlushRq q q'"
    using queue_flush_pushes [OF assms(1-3), of QUEUE_ORDERED_DO_PREFLUSH] by auto
  then show ?thesis using True by (auto simp: start_preflush_def c_def pushed_keeps)
next
  case False
  then show ?thesis by (auto simp: start_preflush_def c_def keeps_def)
qed

lemma start_bar_spec:
  assumes "orig_bar_rq q = Some (Rq k)" "bios (rqs q (Rq k)) \<noteq> []" "\<not> blk_queue_plugged q"
  defines "c \<equiv> ordered q AND QUEUE_ORDERED_DO_BAR \<noteq> 0"
  shows "\<exists>q'. start_bar env nrq skip q =
       Some (if c then Some BarRq else nrq, if c then skip else skip OR QUEUE_ORDSEQ_BAR, q') \<and>
     queue_head q' = (if c then [BarRq] else []) @ queue_head q \<and> keeps q q'"
proof (cases c)
  case True
  obtain b nxt where b: "bios (rqs q (Rq k)) = b # nxt" using assms(2) by (cases "bios (rqs q (Rq k))") auto
  define r where "r = init_request_from_bio (env_settings env)
     (let r = (if bio_data_dir b then rq_set_flag REQ_RW blk_rq_init else blk_rq_init)
      in if ordered q AND QUEUE_ORDERED_DO_FUA \<noteq> 0 then rq_set_flag REQ_FUA r else r) b nxt"
  define q1 where "q1 = share_bios BarRq (rq_upd BarRq (\<lambda>_. r\<lparr>end_io := BarEndIo\<rparr>) q)"
  have k: "keeps q q1" "queue_head q1 = queue_head q"
    by (simp_all add: q1_def share_bios_def keeps_def rq_upd_def assms(1) Let_def)
  let ?q = "(rq_upd BarRq (rq_set_flag REQ_SOFTBARRIER) q1)\<lparr>queue_head := BarRq # queue_head q1\<rparr>"
  have "elv_insert (env_ops env) (env_request_fn env) q1 BarRq ELEVATOR_INSERT_FRONT = Some ?q"
    by (rule insert_front) (use keeps_plugged [OF k(1)] assms(3) in simp)
  then have "start_bar env nrq skip q = Some (Some BarRq, skip, ?q)"
    using True assms(1) b by (simp add: start_bar_def c_def q1_def r_def Let_def)
  moreover have "keeps q ?q" using k(1) by (simp add: keeps_def rq_upd_def)
  ultimately show ?thesis using True k(2) by auto
next
  case False
  then show ?thesis by (auto simp: start_bar_def c_def keeps_def)
qed

lemma skip_steps:
  fixes a b c d :: bool
  defines "s \<equiv> QUEUE_ORDSEQ_STARTED OR ((if d then QUEUE_ORDSEQ_POSTFLUSH else 0) OR (if c then QUEUE_ORDSEQ_BAR else 0) OR
     (if b then QUEUE_ORDSEQ_PREFLUSH else 0) OR (if a then QUEUE_ORDSEQ_DRAIN else 0))"
  shows "seq_started s" "steps_left s = (if d then {} else {QUEUE_ORDSEQ_POSTFLUSH}) \<union> (if c then {} else {QUEUE_ORDSEQ_BAR}) \<union>
     (if b then {} else {QUEUE_ORDSEQ_PREFLUSH}) \<union> (if a then {} else {QUEUE_ORDSEQ_DRAIN})"
  unfolding s_def
  by (cases a; cases b; cases c; cases d; simp add: seq_started_def QUEUE_ORDSEQ_defs)
    (cases a; cases b; cases c; cases d; simp add: steps_left_def seq_steps_def QUEUE_ORDSEQ_defs; auto)

lemma dequeue_head:
  assumes "rq \<in> set (queue_head q)" "\<not> ELV_ON_HASH q rq" "\<not> rq_flagged (rqs q rq) REQ_STARTED"
  shows "blk_dequeue_request env q rq = Some (q\<lparr>queue_head := removeAll rq (queue_head q)\<rparr>)"
  using assms by (simp add: blk_dequeue_request_def blk_queued_rq_def queuelist_del_def Let_def blk_account_rq_def)

lemma complete_skipped:
  assumes "seq_started (ordseq q OR skip)" "steps_left (ordseq q OR skip) \<noteq> {}" "ordseq q AND skip = 0"
  shows "blk_ordered_complete_seq ea q skip 0 = Some (False, q\<lparr>ordseq := ordseq q OR skip\<rparr>)"
  using cur_seq_done [of "q\<lparr>ordseq := ordseq q OR skip\<rparr>"] assms by (simp add: blk_ordered_complete_seq_def Let_def)

lemma started_skip:
  fixes a b c d :: bool
  shows "QUEUE_ORDSEQ_STARTED AND ((if d then QUEUE_ORDSEQ_POSTFLUSH else 0) OR (if c then QUEUE_ORDSEQ_BAR else 0) OR
     (if b then QUEUE_ORDSEQ_PREFLUSH else 0) OR (if a then QUEUE_ORDSEQ_DRAIN else 0)) = 0"
  by (cases a; cases b; cases c; cases d; simp add: QUEUE_ORDSEQ_defs)

text \<open>The steps that a mode leaves out, and the three insertions together.\<close>

definition mode_skips :: "u32 \<Rightarrow> u32" where
  "mode_skips mode =
     (if mode AND QUEUE_ORDERED_DO_POSTFLUSH = 0 then QUEUE_ORDSEQ_POSTFLUSH else 0) OR
     (if mode AND QUEUE_ORDERED_DO_BAR = 0 then QUEUE_ORDSEQ_BAR else 0) OR
     (if mode AND QUEUE_ORDERED_DO_PREFLUSH = 0 then QUEUE_ORDSEQ_PREFLUSH else 0)"

lemma keeps_trans: "keeps q q1 \<Longrightarrow> keeps q1 q2 \<Longrightarrow> keeps q q2"
  by (simp add: keeps_def)

lemma start_steps:
  assumes env: "prepares env" and q: "\<not> blk_queue_plugged q" "prepare_flush_fn q \<noteq> None"
      "orig_bar_rq q = Some (Rq k)" "bios (rqs q (Rq k)) \<noteq> []"
    and run: "seq_requests (ordered q) \<noteq> []"
  shows "\<exists>n2 s2 q2 n3 s3 q3 q4. start_postflush env q = Some (n2, s2, q2) \<and> start_bar env n2 s2 q2 = Some (n3, s3, q3) \<and>
     start_preflush env n3 s3 q3 = Some (Some (hd (seq_requests (ordered q))), mode_skips (ordered q), q4) \<and>
     queue_head q4 = seq_requests (ordered q) @ queue_head q \<and> keeps q q4"
proof -
  let ?m = "ordered q"
  let ?pre = "?m AND QUEUE_ORDERED_DO_PREFLUSH \<noteq> 0" and ?bar = "?m AND QUEUE_ORDERED_DO_BAR \<noteq> 0"
    and ?post = "?m AND QUEUE_ORDERED_DO_POSTFLUSH \<noteq> 0"
  define n2 s2 where "n2 = (if ?post then Some PostFlushRq else None)" and "s2 = (if ?post then 0 else QUEUE_ORDSEQ_POSTFLUSH)"
  obtain q2 where q2: "start_postflush env q = Some (n2, s2, q2)"
      "queue_head q2 = (if ?post then [PostFlushRq] else []) @ queue_head q" "keeps q q2" "rqs q2 (Rq k) = rqs q (Rq k)"
    using start_postflush_spec [OF env q(1,2)] by (auto simp: n2_def s2_def)
  have m2: "ordered q2 = ?m" "\<not> blk_queue_plugged q2" "orig_bar_rq q2 = Some (Rq k)" "bios (rqs q2 (Rq k)) \<noteq> []"
    using q2(3,4) q keeps_plugged [OF q2(3)] by (simp_all add: keeps_def)
  define n3 s3 where "n3 = (if ?bar then Some BarRq else n2)" and "s3 = (if ?bar then s2 else s2 OR QUEUE_ORDSEQ_BAR)"
  obtain q3 where q3: "start_bar env n2 s2 q2 = Some (n3, s3, q3)"
      "queue_head q3 = (if ?bar then [BarRq] else []) @ queue_head q2" "keeps q2 q3"
    using start_bar_spec [OF m2(3,4,2), of env n2 s2] m2(1) by (auto simp: n3_def s3_def)
  have m3: "ordered q3 = ?m" "\<not> blk_queue_plugged q3" "prepare_flush_fn q3 \<noteq> None"
    using q2(3) q3(3) m2 q(2) keeps_plugged [OF q3(3)] by (simp_all add: keeps_def)
  have first: "(if ?pre then Some PreFlushRq else n3) = Some (hd (seq_requests ?m))"
    using run by (auto simp: n3_def n2_def seq_requests_def)
  have skips: "(if ?pre then s3 else s3 OR QUEUE_ORDSEQ_PREFLUSH) = mode_skips ?m"
    by (simp add: mode_skips_def s3_def s2_def or.assoc)
  obtain q4 where q4: "start_preflush env n3 s3 q3 = Some (Some (hd (seq_requests ?m)), mode_skips ?m, q4)"
      "queue_head q4 = (if ?pre then [PreFlushRq] else []) @ queue_head q3" "keeps q3 q4"
    using start_preflush_spec [OF env m3(2,3), of n3 s3] unfolding m3(1) first skips by blast
  have "queue_head q4 = seq_requests ?m @ queue_head q" by (simp add: q4(2) q3(2) q2(2) seq_requests_def)
  moreover have "keeps q q4" using q2(3) q3(3) q4(3) keeps_trans by blast
  ultimately show ?thesis using q2(1) q3(1) q4(1) by blast
qed

lemma skipped_steps:
  fixes w :: bool and mode :: u32
  defines "skip \<equiv> if w then mode_skips mode else mode_skips mode OR QUEUE_ORDSEQ_DRAIN"
  shows "seq_started (QUEUE_ORDSEQ_STARTED OR skip)" "QUEUE_ORDSEQ_STARTED AND skip = 0"
    "steps_left (QUEUE_ORDSEQ_STARTED OR skip) =
       rq_step ` set (seq_requests mode) \<union> (if w then {QUEUE_ORDSEQ_DRAIN} else {})"
proof -
  let ?post = "mode AND QUEUE_ORDERED_DO_POSTFLUSH = 0" and ?bar = "mode AND QUEUE_ORDERED_DO_BAR = 0"
    and ?pre = "mode AND QUEUE_ORDERED_DO_PREFLUSH = 0"
  have skip: "skip = (if ?post then QUEUE_ORDSEQ_POSTFLUSH else 0) OR (if ?bar then QUEUE_ORDSEQ_BAR else 0) OR
     (if ?pre then QUEUE_ORDSEQ_PREFLUSH else 0) OR (if \<not> w then QUEUE_ORDSEQ_DRAIN else 0)"
    by (simp add: skip_def mode_skips_def or.assoc)
  note steps = skip_steps [of ?post ?bar ?pre "\<not> w", folded skip]
  show "seq_started (QUEUE_ORDSEQ_STARTED OR skip)" by (rule steps(1))
  show "QUEUE_ORDSEQ_STARTED AND skip = 0" using started_skip [of ?post ?bar ?pre "\<not> w", folded skip] .
  show "steps_left (QUEUE_ORDSEQ_STARTED OR skip) =
      rq_step ` set (seq_requests mode) \<union> (if w then {QUEUE_ORDSEQ_DRAIN} else {})"
    unfolding steps(2) by (auto simp: seq_requests_def)
qed

text \<open>
  C27. When a barrier comes up, the requests its mode asks for (flush, barrier, flush) go in this order
  to the front of the dispatch list, and the driver gets the first of them, or nothing as long as
  requests have to be drained; exactly their steps, and the drain in that case, are left to do.
\<close>

theorem start_ordered_issues:
  assumes "ordseq q = 0" "\<not> blk_queue_plugged q" "Rq k \<in> set (queue_head q)" "\<not> ELV_ON_HASH q (Rq k)"
    "\<not> rq_flagged (rqs q (Rq k)) REQ_STARTED" "bios (rqs q (Rq k)) \<noteq> []" "prepares env" "prepare_flush_fn q \<noteq> None"
    "mode = start_ordered_mode (rqs q (Rq k)) (next_ordered q)" "seq_requests mode \<noteq> []"
  shows "\<exists>q'. start_ordered ea env q (Rq k) =
       Some (True, if seq_waits mode q then None else Some (hd (seq_requests mode)), q') \<and>
     queue_head q' = seq_requests mode @ removeAll (Rq k) (queue_head q) \<and>
     orig_bar_rq q' = Some (Rq k) \<and> orderr q' = 0 \<and> seq_started (ordseq q') \<and>
     steps_left (ordseq q') =
       rq_step ` set (seq_requests mode) \<union> (if seq_waits mode q then {QUEUE_ORDSEQ_DRAIN} else {})"
proof -
  let ?q0 = "q\<lparr>orderr := 0, ordered := mode, ordseq := ordseq q OR QUEUE_ORDSEQ_STARTED\<rparr>"
  let ?q1 = "?q0\<lparr>queue_head := removeAll (Rq k) (queue_head q), orig_bar_rq := Some (Rq k)\<rparr>"
  let ?w = "seq_waits mode q"
  have deq: "blk_dequeue_request env ?q0 (Rq k) = Some (?q0\<lparr>queue_head := removeAll (Rq k) (queue_head ?q0)\<rparr>)"
    by (rule dequeue_head) (use assms(3-5) in \<open>simp_all add: ELV_ON_HASH_def\<close>)
  have "\<not> blk_queue_plugged ?q1" using assms(2) by (simp add: queue_flag_test_def)
  from start_steps [OF assms(7) this] obtain n2 s2 q2 n3 s3 q3 q4 where steps:
      "start_postflush env ?q1 = Some (n2, s2, q2)" "start_bar env n2 s2 q2 = Some (n3, s3, q3)"
      "start_preflush env n3 s3 q3 = Some (Some (hd (seq_requests mode)), mode_skips mode, q4)"
      "queue_head q4 = seq_requests mode @ queue_head ?q1" "keeps ?q1 q4"
    using assms(6,8,10) by auto
  define skip where "skip = (if ?w then mode_skips mode else mode_skips mode OR QUEUE_ORDSEQ_DRAIN)"
  note sk = skipped_steps [of ?w mode, folded skip_def]
  have f4: "ordered q4 = mode" "queue_in_flight q4 = queue_in_flight q" "ordseq q4 = QUEUE_ORDSEQ_STARTED"
      "orig_bar_rq q4 = Some (Rq k)" "orderr q4 = 0"
    using steps(5) assms(1) by (simp_all add: keeps_def queue_in_flight_def)
  have "steps_left (QUEUE_ORDSEQ_STARTED OR skip) \<noteq> {}" using sk(3) assms(10) by auto
  then have seq: "blk_ordered_complete_seq ea q4 skip 0 = Some (False, q4\<lparr>ordseq := QUEUE_ORDSEQ_STARTED OR skip\<rparr>)"
    using complete_skipped [of q4 skip ea] sk(1,2) f4(3) by simp
  have "start_ordered ea env q (Rq k) =
      Some (True, if ?w then None else Some (hd (seq_requests mode)), q4\<lparr>ordseq := QUEUE_ORDSEQ_STARTED OR skip\<rparr>)"
    using deq steps(1-3) seq f4(1,2) assms(9)
    by (auto simp: start_ordered_def Let_def skip_def seq_waits_def split: if_splits)
  then show ?thesis
    using steps(4) f4(4,5) sk(1,3) by (intro exI [of _ "q4\<lparr>ordseq := QUEUE_ORDSEQ_STARTED OR skip\<rparr>"]) simp
qed

text \<open>A queue in the mode with drain and flushes, with a one-sector barrier write in front.\<close>

definition barrier_sample :: "noop_data request_queue" where
  "barrier_sample = (queue_zero \<lparr>noop_queue = []\<rparr>)\<lparr>queue_head := [Rq 1, Rq 2],
     rqs := (\<lambda>_. rq_zero\<lparr>cmd_type := REQ_TYPE_FS, cmd_flags := REQ REQ_HARDBARRIER OR REQ REQ_RW, data_len := 512,
       bios := [bio_zero\<lparr>bi_size := 512, bi_rw := 0x21\<rparr>]\<rparr>),
     next_ordered := QUEUE_ORDERED_DRAIN_FLUSH, prepare_flush_fn := Some 0,
     in_flight := (\<lambda>_. 0)(True := 1)\<rparr>"

lemma barrier_sample_mode: "start_ordered_mode (rqs barrier_sample (Rq k)) (next_ordered barrier_sample) = 0x71"
  by (simp add: start_ordered_mode_def barrier_sample_def rq_simps QUEUE_ORDERED_defs)

lemma barrier_sample_requests: "seq_requests 0x71 = [PreFlushRq, BarRq, PostFlushRq]" "seq_waits 0x71 barrier_sample"
  by (simp_all add: seq_requests_def QUEUE_ORDERED_defs seq_waits_def barrier_sample_def queue_zero_def queue_in_flight_def)

lemma noop_env_prepares: "prepares noop_env"
proof -
  have "q = rq_upd p (\<lambda>r. r) q" for q :: "noop_data request_queue" and p by (simp add: rq_upd_def)
  then show ?thesis unfolding prepares_def noop_env_def by auto
qed

theorem start_ordered_issues_witness:
  "\<exists>q'. start_ordered (blk_end_request_all noop_env) noop_env barrier_sample (Rq 1) = Some (True, None, q') \<and>
     queue_head q' = [PreFlushRq, BarRq, PostFlushRq, Rq 2]"
proof -
  have "ordseq barrier_sample = 0" "\<not> blk_queue_plugged barrier_sample" "Rq 1 \<in> set (queue_head barrier_sample)"
      "\<not> ELV_ON_HASH barrier_sample (Rq 1)" "\<not> rq_flagged (rqs barrier_sample (Rq 1)) REQ_STARTED"
      "bios (rqs barrier_sample (Rq 1)) \<noteq> []" "prepare_flush_fn barrier_sample \<noteq> None"
    by (simp_all add: barrier_sample_def queue_zero_def queue_flag_test_def ELV_ON_HASH_def list_ex_iff rq_flagged_def REQ_def)
  moreover have "removeAll (Rq 1) (queue_head barrier_sample) = [Rq 2]" by (simp add: barrier_sample_def)
  ultimately show ?thesis
    using start_ordered_issues [of barrier_sample 1 noop_env "0x71" "blk_end_request_all noop_env"]
      barrier_sample_mode [of 1] barrier_sample_requests noop_env_prepares by auto
qed

text \<open>
  C28. The steps of a barrier may complete in any order. As long as one is left nothing is ended; with
  the last one the sequence is over, and the original request is ended with the first error that
  any of the steps reported.
\<close>

theorem barrier_any_order:
  assumes "seq_started (ordseq q)" "orig_bar_rq q = Some rq" "xs \<noteq> []" "distinct (map fst xs)"
    "set (map fst xs) = steps_left (ordseq q)" "err = first_error (orderr q) (map snd xs)"
  shows "complete_steps ea q xs = map_option (Pair True) (ea (q\<lparr>orderr := err, ordseq := 0\<rparr>) rq err)"
  unfolding assms(6) steps_complete [OF assms(1-5)]
  by (cases "ea (q\<lparr>orderr := first_error (orderr q) (map snd xs), ordseq := 0\<rparr>) rq (first_error (orderr q) (map snd xs))")
    simp_all

theorem barrier_any_order_witness:
  "complete_steps (\<lambda>q rq e. if rq = Rq 1 \<and> e = - EIO then Some q else None)
     (barrier_sample\<lparr>ordseq := 1, orig_bar_rq := Some (Rq 1)\<rparr>) [(4, 0), (2, 0), (16, - EIO), (8, - ENOMEM)] =
   Some (True, barrier_sample\<lparr>ordseq := 0, orig_bar_rq := Some (Rq 1), orderr := - EIO\<rparr>)"
proof -
  let ?q = "barrier_sample\<lparr>ordseq := 1, orig_bar_rq := Some (Rq 1)\<rparr>"
  let ?xs = "[(4, 0), (2, 0), (16, - EIO), (8, - ENOMEM)] :: (u32 \<times> int) list"
  have "seq_started (ordseq ?q)" by (simp add: seq_started_def QUEUE_ORDSEQ_defs)
  moreover have "set (map fst ?xs) = steps_left (ordseq ?q)"
    by (auto simp: steps_left_def seq_steps_def QUEUE_ORDSEQ_defs)
  moreover have "- EIO = first_error (orderr ?q) (map snd ?xs)"
    by (simp add: barrier_sample_def queue_zero_def EIO_def)
  ultimately show ?thesis
    using barrier_any_order [of ?q "Rq 1" ?xs "- EIO" "\<lambda>q rq e. if rq = Rq 1 \<and> e = - EIO then Some q else None"] by simp
qed

end
