(* ===== verification/Make_Request.thy ===== *)
theory Make_Request
  imports Barrier
begin

text \<open>
  From a bio to a request: \<^verbatim>\<open>__make_request\<close> of \<^verbatim>\<open>block/blk-core.c\<close>, which merges the bio into a queued
  request or puts a new request on the queue, and the merging of two queued requests that have
  become adjacent, from \<^verbatim>\<open>block/blk-merge.c\<close>. The bounce buffers of \<^verbatim>\<open>mm/bounce.c\<close> are the argument
  \<open>bounce\<close>, the identity for a device that reaches all memory. Start times, the completing
  processor and the mapped buffer address of a request are left out.
\<close>

section \<open>Merging two requests\<close>

text \<open>The bios of the second request go behind those of the first.\<close>

definition append_request :: "request \<Rightarrow> request \<Rightarrow> request" where
  "append_request n r = r\<lparr>bios := bios r @ bios n, data_len := data_len r + blk_rq_bytes n\<rparr>"

definition mix_requests :: "rqp \<Rightarrow> rqp \<Rightarrow> 'd request_queue \<Rightarrow> 'd request_queue" where
  "mix_requests rq nxt q =
     (let r = rqs q rq; n = rqs q nxt
      in if (cmd_flags r OR cmd_flags n) AND REQ REQ_MIXED_MERGE \<noteq> 0 \<or>
            cmd_flags r AND REQ_FAILFAST_MASK \<noteq> cmd_flags n AND REQ_FAILFAST_MASK
         then rq_upd nxt blk_rq_set_mixed_merge (rq_upd rq blk_rq_set_mixed_merge q)
         else q)"

text \<open>The first request takes over the bios, and the second one is released.\<close>

definition join_requests :: "'d blk_env \<Rightarrow> 'd request_queue \<Rightarrow> rqp \<Rightarrow> rqp \<Rightarrow> 'd request_queue option" where
  "join_requests env q rq nxt = do {
     let q = rq_upd rq (append_request (rqs q nxt)) q;
     q \<leftarrow> elv_merge_requests (env_ops env) q rq nxt;
     let q = rq_upd rq (\<lambda>r. r\<lparr>ioprio := ioprio_best (ioprio r) (ioprio (rqs q nxt))\<rparr>) q;
     let q = rq_upd nxt (\<lambda>r. r\<lparr>bios := []\<rparr>) q;
     blk_put_request (blk_end_request_all env) env q nxt
   }"

definition attempt_merge ::
    "'d blk_env \<Rightarrow> 'd request_queue \<Rightarrow> rqp \<Rightarrow> rqp \<Rightarrow> (bool \<times> 'd request_queue) option" where
  "attempt_merge env q rq nxt =
     (let r = rqs q rq; n = rqs q nxt
      in if \<not> rq_mergeable r \<or> \<not> rq_mergeable n then Some (False, q)
         else if blk_rq_pos r + ucast (blk_rq_sectors r) \<noteq> blk_rq_pos n then Some (False, q)
         else if rq_data_dir r \<noteq> rq_data_dir n \<or> rq_disk r \<noteq> rq_disk n \<or> special n \<noteq> None then Some (False, q)
         else if blk_integrity_rq r \<noteq> blk_integrity_rq n then Some (False, q)
         else do {
           (ok, q) \<leftarrow> ll_merge_requests_fn (env_settings env) q rq nxt;
           if \<not> ok then Some (False, q)
           else do {
             let q = mix_requests rq nxt q;
             q \<leftarrow> join_requests env q rq nxt;
             Some (True, q)
           }
         })"

definition attempt_back_merge :: "'d blk_env \<Rightarrow> 'd request_queue \<Rightarrow> rqp \<Rightarrow> (bool \<times> 'd request_queue) option" where
  "attempt_back_merge env q rq = do {
     nxt \<leftarrow> elv_latter_request (env_ops env) q rq;
     case nxt of Some n \<Rightarrow> attempt_merge env q rq n | None \<Rightarrow> Some (False, q)
   }"

definition attempt_front_merge :: "'d blk_env \<Rightarrow> 'd request_queue \<Rightarrow> rqp \<Rightarrow> (bool \<times> 'd request_queue) option" where
  "attempt_front_merge env q rq = do {
     prv \<leftarrow> elv_former_request (env_ops env) q rq;
     case prv of Some p \<Rightarrow> attempt_merge env q p rq | None \<Rightarrow> Some (False, q)
   }"

section \<open>A bio arrives\<close>

definition queue_should_plug :: "'d request_queue \<Rightarrow> bool" where
  "queue_should_plug q \<longleftrightarrow> \<not> (blk_queue_nonrot q \<and> queue_flag_test QUEUE_FLAG_QUEUED q)"

text \<open>
  The two merges of a bio into a request; the result says whether it was merged. The bio comes
  back with its segments counted.
\<close>

definition merge_back ::
    "'d blk_env \<Rightarrow> 'd request_queue \<Rightarrow> rqp \<Rightarrow> bio \<Rightarrow> u32 \<Rightarrow> 16 word \<Rightarrow> u32 \<Rightarrow>
     (bool \<times> bio \<times> 'd request_queue) option" where
  "merge_back env q rq b bytes prio ff =
     (if \<not> rq_mergeable (rqs q rq) then None
      else do {
        (ok, q, b) \<leftarrow> ll_back_merge_fn (env_settings env) q rq b;
        if \<not> ok then Some (False, b, q)
        else do {
          let q = (if cmd_flags (rqs q rq) AND REQ_FAILFAST_MASK \<noteq> ff then rq_upd rq blk_rq_set_mixed_merge q else q);
          let q = rq_upd rq (\<lambda>r. r\<lparr>bios := bios r @ [b], data_len := data_len r + bytes,
                                   ioprio := ioprio_best (ioprio r) prio\<rparr>) q;
          (done, q) \<leftarrow> attempt_back_merge env q rq;
          q \<leftarrow> (if \<not> done then elv_merged_request (env_ops env) q rq ELEVATOR_BACK_MERGE else Some q);
          Some (True, b, q)
        }
      })"

definition merge_front ::
    "'d blk_env \<Rightarrow> 'd request_queue \<Rightarrow> rqp \<Rightarrow> bio \<Rightarrow> u32 \<Rightarrow> 16 word \<Rightarrow> u32 \<Rightarrow>
     (bool \<times> bio \<times> 'd request_queue) option" where
  "merge_front env q rq b bytes prio ff =
     (if \<not> rq_mergeable (rqs q rq) then None
      else do {
        (ok, q, b) \<leftarrow> ll_front_merge_fn (env_settings env) q rq b;
        if \<not> ok then Some (False, b, q)
        else do {
          let q = (if cmd_flags (rqs q rq) AND REQ_FAILFAST_MASK \<noteq> ff
                   then rq_upd rq (\<lambda>r. let r = blk_rq_set_mixed_merge r
                                       in r\<lparr>cmd_flags := (cmd_flags r AND NOT REQ_FAILFAST_MASK) OR ff\<rparr>) q
                   else q);
          let q = rq_upd rq (\<lambda>r. r\<lparr>bios := b # bios r, sector := bi_sector b, data_len := data_len r + bytes,
                                   ioprio := ioprio_best (ioprio r) prio\<rparr>) q;
          (done, q) \<leftarrow> attempt_front_merge env q rq;
          q \<leftarrow> (if \<not> done then elv_merged_request (env_ops env) q rq ELEVATOR_FRONT_MERGE else Some q);
          Some (True, b, q)
        }
      })"

definition try_bio_merge ::
    "'d blk_env \<Rightarrow> 'd request_queue \<Rightarrow> bio \<Rightarrow> u32 \<Rightarrow> 16 word \<Rightarrow> u32 \<Rightarrow> (bool \<times> bio \<times> 'd request_queue) option" where
  "try_bio_merge env q b bytes prio ff =
     (if bio_rw_flagged b BIO_RW_BARRIER \<or> elv_queue_empty (env_ops env) q then Some (False, b, q)
      else do {
        (el_ret, req, q) \<leftarrow> elv_merge (env_ops env) q b;
        case el_ret of
          ELEVATOR_BACK_MERGE \<Rightarrow> do { rq \<leftarrow> req; merge_back env q rq b bytes prio ff }
        | ELEVATOR_FRONT_MERGE \<Rightarrow> do { rq \<leftarrow> req; merge_front env q rq b bytes prio ff }
        | ELEVATOR_NO_MERGE \<Rightarrow> Some (False, b, q)
      })"

definition add_request :: "'d blk_env \<Rightarrow> 'd request_queue \<Rightarrow> rqp \<Rightarrow> 'd request_queue option" where
  "add_request env q rq =
     elv_add_request (env_ops env) (env_request_fn env) q rq ELEVATOR_INSERT_SORT False"

text \<open>The label \<^verbatim>\<open>get_rq\<close>: a new request for the bio.\<close>

definition make_new_request ::
    "'d blk_env \<Rightarrow> u32 \<Rightarrow> io_context option \<Rightarrow> nat option \<Rightarrow> 'd nap list \<Rightarrow> 'd request_queue \<Rightarrow> bio \<Rightarrow> bool \<Rightarrow>
     (io_context option \<times> 'd request_queue) option" where
  "make_new_request env jiffies ioc slot naps q b sync = do {
     let rw_flags = (if bio_data_dir b then 1 else 0);
     let rw_flags = (if sync then rw_flags OR REQ REQ_RW_SYNC else rw_flags);
     (rq, ioc, q) \<leftarrow> get_request_wait (env_ops env) (env_request_fn env) (env_settings env) jiffies ioc slot naps rw_flags q;
     let q = rq_upd rq (\<lambda>r. init_request_from_bio (env_settings env) r b []) q;
     let q = (if queue_should_plug q \<and> elv_queue_empty (env_ops env) q then blk_plug_device q else q);
     q \<leftarrow> add_request env q rq;
     Some (ioc, q)
   }"

text \<open>\<^verbatim>\<open>__make_request\<close>\<close>

definition make_request ::
    "'d blk_env \<Rightarrow> (bio \<Rightarrow> bio) \<Rightarrow> u32 \<Rightarrow> io_context option \<Rightarrow> nat option \<Rightarrow> 'd nap list \<Rightarrow> 'd request_queue \<Rightarrow> bio \<Rightarrow>
     (int \<times> io_context option \<times> 'd request_queue) option" where
  "make_request env bounce jiffies ioc slot naps q b =
     (let bytes = bi_size b;
          prio = bio_prio b;
          sync = bio_rw_flagged b BIO_RW_SYNCIO;
          unplug = bio_rw_flagged b BIO_RW_UNPLUG;
          ff = bi_rw b AND REQ_FAILFAST_MASK
      in if bio_rw_flagged b BIO_RW_BARRIER \<and> next_ordered q = QUEUE_ORDERED_NONE then
           Some (0, ioc, snd (bio_endio b (- EOPNOTSUPP) q))
         else do {
           (merged, b, q) \<leftarrow> try_bio_merge env q (bounce b) bytes prio ff;
           (ioc, q) \<leftarrow> (if merged then Some (ioc, q) else make_new_request env jiffies ioc slot naps q b sync);
           q \<leftarrow> (if unplug \<or> \<not> queue_should_plug q
                 then generic_unplug_device_locked (env_request_fn env) q else Some q);
           Some (0, ioc, q)
         })"

end
