(* ===== verification/Make_Request_Props.thy ===== *)
theory Make_Request_Props
  imports Make_Request Barrier_Props Look
begin

text \<open>
  When two adjacent requests in the list of the LOOK scheduler are merged, the first one carries
  the bytes of both, one after the other, and the second one leaves the scheduler, the merge hash
  and the request pool.
\<close>

section \<open>What merging keeps\<close>

text \<open>The transfer of a request: sector, length, the vectors of its bios and whether they add up.\<close>

definition transfer :: "request \<Rightarrow> sector_t \<times> u32 \<times> (bio_vec list \<times> bool \<times> u32) list" where
  "transfer r = (sector r, data_len r, map (\<lambda>b. (bio_segs b, bio_ok b, bi_size b)) (bios r))"

lemma transferD:
  assumes "transfer r' = transfer r"
  shows "sector r' = sector r" "data_len r' = data_len r" "rq_bytes r' = rq_bytes r" "rq_ok r' \<longleftrightarrow> rq_ok r"
    "bios r' = [] \<longleftrightarrow> bios r = []"
proof -
  let ?f = "\<lambda>b. (bio_segs b, bio_ok b, bi_size b)"
  have m: "map ?f (bios r') = map ?f (bios r)" using assms by (simp add: transfer_def)
  from arg_cong [OF m, of "map fst"] have segs: "map bio_segs (bios r') = map bio_segs (bios r)" by (simp add: comp_def)
  from arg_cong [OF m, of "map (snd \<circ> snd)"] have sizes: "map bi_size (bios r') = map bi_size (bios r)"
    by (simp add: comp_def)
  show "sector r' = sector r" "data_len r' = data_len r" using assms by (simp_all add: transfer_def)
  show "rq_bytes r' = rq_bytes r" by (simp add: rq_bytes_def rq_segs_def segs)
  have "(\<forall>b \<in> set (bios r'). bio_ok b \<and> bi_size b \<noteq> 0) \<longleftrightarrow> (\<forall>b \<in> set (bios r). bio_ok b \<and> bi_size b \<noteq> 0)"
    by (rule ball_map_cong [OF m]) simp
  then show "rq_ok r' \<longleftrightarrow> rq_ok r"
    using bios_size_cong [OF sizes] assms by (simp add: rq_ok_def transfer_def)
  show "bios r' = [] \<longleftrightarrow> bios r = []" using arg_cong [OF m, of length] by auto
qed

text \<open>Everything else about a request that the merge of two requests leaves alone, up to a flag.\<close>

definition same_rq :: "request \<Rightarrow> request \<Rightarrow> bool" where
  "same_rq r r' \<longleftrightarrow> transfer r' = transfer r \<and> ref_count r' = ref_count r \<and>
     (\<forall>f. f \<noteq> REQ_MIXED_MERGE \<longrightarrow> rq_flagged r' f = rq_flagged r f)"

lemma same_rq_refl [simp]: "same_rq r r"
  by (simp add: same_rq_def)

lemma same_rq_trans: "same_rq r r1 \<Longrightarrow> same_rq r1 r2 \<Longrightarrow> same_rq r r2"
  by (simp add: same_rq_def)

lemma same_rq_segments [simp]: "same_rq r (r\<lparr>nr_phys_segments := n\<rparr>)"
  by (simp add: same_rq_def transfer_def rq_flagged_def)

lemma same_rq_front: "bios r \<noteq> [] \<Longrightarrow> same_rq r (set_front_size n r)"
  by (cases "bios r")
    (simp_all add: same_rq_def transfer_def set_front_size_def rq_flagged_def bio_segs_def bio_ok_def)

lemma same_rq_back: "bios r \<noteq> [] \<Longrightarrow> same_rq r (set_back_size n r)"
  by (cases "bios r" rule: rev_cases)
    (simp_all add: same_rq_def transfer_def set_back_size_def rq_flagged_def bio_segs_def bio_ok_def)

lemma same_rq_mixed: "same_rq r (blk_rq_set_mixed_merge r)"
proof -
  have "map (\<lambda>b. (bio_segs b, bio_ok b, bi_size b)) (map (\<lambda>b. b\<lparr>bi_rw := bi_rw b OR ff\<rparr>) bs) =
      map (\<lambda>b. (bio_segs b, bio_ok b, bi_size b)) bs" for ff bs
    by (simp add: bio_segs_def bio_ok_def)
  moreover have "rq_flagged (r\<lparr>bios := bs\<rparr>) f = rq_flagged r f" for bs f by (simp add: rq_flagged_def)
  ultimately show ?thesis
    by (simp add: blk_rq_set_mixed_merge_def Let_def same_rq_def transfer_def) (simp add: rq_set_flag_def)
qed

lemma same_rq_upd: "same_rq (rqs q p) (f (rqs q p)) \<Longrightarrow> same_rq (rqs q x) (rqs (rq_upd p f q) x)"
  by (simp add: rq_upd_def)

lemma rq_upd_rqs: "rq_upd p f q = q\<lparr>rqs := rqs (rq_upd p f q)\<rparr>"
  by (simp add: rq_upd_def)

text \<open>Two queues that differ in their requests only, and there only in what a merge may change.\<close>

definition same_rqs :: "'d request_queue \<Rightarrow> 'd request_queue \<Rightarrow> bool" where
  "same_rqs q q' \<longleftrightarrow> q' = q\<lparr>rqs := rqs q'\<rparr> \<and> (\<forall>x. same_rq (rqs q x) (rqs q' x))"

lemma same_rqs_refl [simp]: "same_rqs q q"
  by (simp add: same_rqs_def)

lemma same_rqs_trans:
  assumes "same_rqs q q1" "same_rqs q1 q2"
  shows "same_rqs q q2"
proof -
  have "q1 = q\<lparr>rqs := rqs q1\<rparr>" "q2 = q1\<lparr>rqs := rqs q2\<rparr>" using assms by (simp_all add: same_rqs_def)
  then have "q2 = q\<lparr>rqs := rqs q2\<rparr>" by (metis (no_types) request_queue.select_convs(21) request_queue.surjective request_queue.update_convs(21))
  then show ?thesis using assms same_rq_trans unfolding same_rqs_def by blast
qed

lemma same_rqs_upd: "same_rq (rqs q p) (f (rqs q p)) \<Longrightarrow> same_rqs q (rq_upd p f q)"
  by (auto simp: same_rqs_def same_rq_upd intro: rq_upd_rqs)

section \<open>The checks before a merge\<close>

lemma contig_defined:
  assumes "bio_ok b" "bi_size b \<noteq> 0" "bio_ok n" "bi_size n \<noteq> 0"
  shows "\<exists>c. blk_phys_contig_segment qs b n = Some c"
proof -
  have "bi_idx x < bi_vcnt x \<and> bi_vcnt x \<le> length (bi_io_vec x)" if "bio_ok x" "bi_size x \<noteq> 0" for x
    using that more_segs [of x 0] length_bio_segs [of x] by (auto simp: bio_ok_def unat_gt_0)
  then have "bi_idx b < bi_vcnt b" "bi_vcnt b \<le> length (bi_io_vec b)" "bi_idx n < length (bi_io_vec n)"
    using assms by fastforce+
  then show ?thesis
    by (auto simp: blk_phys_contig_segment_def bio_iovec_idx_def)
qed

lemma merge_requests_keeps:
  assumes "rq \<noteq> nxt" "bios (rqs q rq) \<noteq> []" "bios (rqs q nxt) \<noteq> []" "rq_ok (rqs q rq)" "rq_ok (rqs q nxt)"
  shows "\<exists>ok q'. ll_merge_requests_fn qs q rq nxt = Some (ok, q') \<and> same_rqs q q'"
proof -
  let ?b = "last (bios (rqs q rq))" and ?n = "hd (bios (rqs q nxt))"
  let ?s = "bi_seg_back_size ?b + bi_seg_front_size ?n"
  obtain c where c: "blk_phys_contig_segment qs ?b ?n = Some c"
    using contig_defined [of ?b ?n qs] assms by (auto simp: rq_ok_def)
  define q1 where "q1 = (if c \<and> nr_phys_segments (rqs q rq) = 1 then rq_upd rq (set_front_size ?s) q else q)"
  define q2 where "q2 = (if c \<and> nr_phys_segments (rqs q nxt) = 1 then rq_upd nxt (set_back_size ?s) q1 else q1)"
  have q1: "same_rqs q q1" "rqs q1 nxt = rqs q nxt"
    using assms(1,2) by (auto simp: q1_def rq_upd_def intro: same_rqs_upd [unfolded rq_upd_def] same_rq_front)
  then have "same_rqs q1 q2"
    using assms(3) same_rqs_upd [of q1 nxt "set_back_size ?s"] same_rq_back [of "rqs q1 nxt" ?s] by (simp add: q2_def)
  then have q2: "same_rqs q q2" using q1(1) by (rule same_rqs_trans [rotated])
  have seg: "same_rqs q (rq_upd rq (\<lambda>r. r\<lparr>nr_phys_segments := k\<rparr>) q2)" for k
    using q2 by (rule same_rqs_trans) (simp add: same_rqs_upd)
  let ?r = "rqs q rq" and ?t = "rqs q nxt"
  define k where "k = int (unat (nr_phys_segments ?r)) + int (unat (nr_phys_segments ?t)) - (if c then 1 else 0)"
  have "ll_merge_requests_fn qs q rq nxt =
      (if special ?r \<noteq> None \<or> special ?t \<noteq> None \<or> blk_rq_sectors ?r + blk_rq_sectors ?t > max_sectors (limits qs)
       then Some (False, q)
       else if k > int (unat (queue_max_segments qs)) then Some (False, q2)
       else Some (True, rq_upd rq (\<lambda>r. r\<lparr>nr_phys_segments := word_of_int k\<rparr>) q2))"
    unfolding ll_merge_requests_fn_def Let_def c q1_def q2_def k_def using assms(2,3)
    by (cases c; cases "nr_phys_segments ?r = 1"; cases "nr_phys_segments ?t = 1") simp_all
  then show ?thesis using q2 seg by (metis same_rqs_refl)
qed

lemma mix_keeps: "same_rqs q (mix_requests rq nxt q)"
  unfolding mix_requests_def Let_def
  by (auto intro: same_rqs_trans same_rqs_upd same_rq_mixed)

section \<open>The second request goes away\<close>

lemma look_merge_requests_spec:
  assumes "elv_hash_ok_but {rq} q"
  shows "\<exists>h. elv_merge_requests elevator_look q rq nxt =
        Some (q\<lparr>elv_hash := h, nr_sorted := nr_sorted q - 1, last_merge := Some rq, elevator_data :=
          (elevator_data q)\<lparr>look_queue := removeAll nxt (look_queue (elevator_data q))\<rparr>\<rparr>) \<and>
      elv_hash_ok (q\<lparr>elv_hash := h\<rparr>) \<and> hashed (q\<lparr>elv_hash := h\<rparr>) = insert rq (hashed q) - {nxt}"
proof -
  let ?q = "q\<lparr>elevator_data := (elevator_data q)\<lparr>look_queue := removeAll nxt (look_queue (elevator_data q))\<rparr>\<rparr>"
  have "elv_hash_ok_but {rq} ?q" using assms by (simp add: elv_hash_ok_but_def)
  then obtain q1 where q1: "elv_rqhash_reposition ?q rq = Some q1" "elv_hash_ok q1" "hashed q1 = insert rq (hashed q)"
      "q1 = ?q\<lparr>elv_hash := elv_hash q1\<rparr>"
    using rqhash_reposition_spec [of rq "{}" ?q] by (auto simp: hashed_def)
  define h1 where "h1 = elv_hash q1"
  have q1_eq: "q1 = ?q\<lparr>elv_hash := h1\<rparr>" unfolding h1_def by (rule q1(4))
  define h where "h = elv_hash (elv_rqhash_del q1 nxt)"
  have del: "elv_rqhash_del q1 nxt = q1\<lparr>elv_hash := h\<rparr>"
    by (simp add: h_def elv_rqhash_del_def elv_rqhash_unlink_def)
  have rqs: "rqs q1 = rqs q" by (simp add: q1_eq)
  have "elv_hash_ok (q\<lparr>elv_hash := h\<rparr>)"
    using rqhash_del_ok [OF q1(2), of nxt] rqs unfolding del by (simp add: elv_hash_ok_but_def)
  moreover have "hashed (q\<lparr>elv_hash := h\<rparr>) = insert rq (hashed q) - {nxt}"
    using hashed_del [of q1 nxt] q1(3) unfolding del by (simp add: hashed_def)
  moreover have "elv_merge_requests elevator_look q rq nxt =
      Some (q1\<lparr>elv_hash := h, nr_sorted := nr_sorted q1 - 1, last_merge := Some rq\<rparr>)"
    by (simp add: elv_merge_requests_def elevator_look_def look_merged_requests_def q1(1) del)
  moreover have "q1\<lparr>elv_hash := h, nr_sorted := nr_sorted q1 - 1, last_merge := Some rq\<rparr> =
      ?q\<lparr>elv_hash := h, nr_sorted := nr_sorted q - 1, last_merge := Some rq\<rparr>"
    by (simp add: q1_eq)
  ultimately show ?thesis by (intro exI [of _ h] conjI) simp_all
qed

lemma freed_request_fields:
  "rqs (freed_request qs sync priv q) = rqs q"
  "elv_hash (freed_request qs sync priv q) = elv_hash q"
  "elevator_data (freed_request qs sync priv q) = elevator_data q"
  "nr_sorted (freed_request qs sync priv q) = nr_sorted q"
  "last_merge (freed_request qs sync priv q) = last_merge q"
  "queue_head (freed_request qs sync priv q) = queue_head q"
  "rq_count (freed_request qs sync priv q) = (rq_count q)(sync := rq_count q sync - 1)"
  by (simp_all add: freed_request_def freed_request_dir_def Let_def blk_clear_queue_congested_def
      blk_clear_queue_full_def queue_flag_clear_def)

text \<open>Dropping the last reference to a request that was never started and is on no list.\<close>

lemma put_unqueued:
  assumes "quiet_ops (env_ops env)" "ordseq q = 0" "ref_count (rqs q p) = 1" "\<not> rq_flagged (rqs q p) REQ_STARTED"
    and "\<not> blk_queued_rq env q p" "p \<notin> hashed q"
  shows "\<exists>q'. blk_put_request ea env q p = Some q' \<and> rqs q' = (rqs q)(p := (rqs q p)\<lparr>ref_count := 0\<rparr>) \<and>
     elv_hash q' = elv_hash q \<and> elevator_data q' = elevator_data q \<and> nr_sorted q' = nr_sorted q \<and>
     last_merge q' = last_merge q \<and> queue_head q' = queue_head q \<and>
     (\<forall>sync. rq_count q' sync = (if rq_flagged (rqs q p) REQ_ALLOCED \<and> sync = rq_is_sync (rqs q p)
                                 then rq_count q sync - 1 else rq_count q sync))"
proof -
  let ?r = "(rqs q p)\<lparr>ref_count := 0\<rparr>"
  let ?q = "rq_upd p (\<lambda>r. r\<lparr>ref_count := ref_count r - 1\<rparr>) q"
  have q: "?q = q\<lparr>rqs := (rqs q)(p := ?r)\<rparr>" using assms(3) by (simp add: rq_upd_def)
  have c: "elv_completed_request ea env ?q p = Some ?q"
    using completed_idle [OF assms(1), of ?q ea p] assms(2,4) unfolding q
    by (simp add: blk_account_rq_def rq_flagged_def)
  have free: "blk_free_request (env_ops env) x p = x" for x
    using assms(1) by (simp add: blk_free_request_def elv_put_request_def quiet_ops_def)
  have "\<not> blk_queued_rq env ?q p" "\<not> ELV_ON_HASH ?q p"
    using assms(5,6) unfolding q by (simp_all add: blk_queued_rq_def ELV_ON_HASH_iff hashed_def)
  moreover have "rq_flagged ?r f = rq_flagged (rqs q p) f" "rq_is_sync ?r = rq_is_sync (rqs q p)" for f
    by (simp_all add: rq_flagged_def rq_is_sync_def rq_data_dir_def)
  moreover have "rqs ?q p = ?r" unfolding q by simp
  ultimately have "blk_put_request ea env q p =
      Some (if rq_flagged (rqs q p) REQ_ALLOCED
            then freed_request (env_settings env) (rq_is_sync (rqs q p)) (rq_flagged (rqs q p) REQ_ELVPRIV) ?q else ?q)"
    by (simp add: blk_put_request_def Let_def c free)
  then show ?thesis by (simp add: freed_request_fields) (simp add: q)
qed

section \<open>Two requests become one\<close>

text \<open>What is left when the request \<open>nxt\<close> has been merged into \<open>rq\<close>.\<close>

definition merged :: "look_data request_queue \<Rightarrow> rqp \<Rightarrow> rqp \<Rightarrow> look_data request_queue \<Rightarrow> bool" where
  "merged q rq nxt q' \<longleftrightarrow>
     blk_rq_pos (rqs q rq) + ucast (blk_rq_sectors (rqs q rq)) = blk_rq_pos (rqs q nxt) \<and>
     sector (rqs q' rq) = sector (rqs q rq) \<and> rq_ok (rqs q' rq) \<and>
     rq_bytes (rqs q' rq) = rq_bytes (rqs q rq) @ rq_bytes (rqs q nxt) \<and>
     bios (rqs q' rq) \<noteq> [] \<and> bios (rqs q' nxt) = [] \<and>
     (\<forall>p. p \<notin> {rq, nxt} \<longrightarrow> same_rq (rqs q p) (rqs q' p)) \<and>
     elv_hash_ok q' \<and> hashed q' = insert rq (hashed q) - {nxt} \<and>
     elevator_data q' = (elevator_data q)\<lparr>look_queue := removeAll nxt (look_queue (elevator_data q))\<rparr> \<and>
     queue_head q' = queue_head q \<and> nr_sorted q' = nr_sorted q - 1 \<and> last_merge q' = Some rq \<and>
     (\<forall>sync. rq_count q' sync = (if rq_flagged (rqs q nxt) REQ_ALLOCED \<and> sync = rq_is_sync (rqs q nxt)
                                 then rq_count q sync - 1 else rq_count q sync))"

lemma append_request_spec:
  assumes "rq_ok r" "rq_ok n" "bios r \<noteq> []" "unat (data_len r) + unat (data_len n) < 2 ^ 32"
  shows "rq_ok (append_request n r)" "rq_bytes (append_request n r) = rq_bytes r @ rq_bytes n"
    "sector (append_request n r) = sector r"
proof -
  have "unat (data_len r + data_len n) = unat (data_len r) + unat (data_len n)"
    using assms(4) by (subst unat_plus_if') simp
  then show "rq_ok (append_request n r)"
    using assms(1,2) by (auto simp: rq_ok_def append_request_def blk_rq_bytes_def bios_size_def)
  show "rq_bytes (append_request n r) = rq_bytes r @ rq_bytes n"
    by (simp add: rq_bytes_def rq_segs_def append_request_def segs_bytes_def)
  show "sector (append_request n r) = sector r" by (simp add: append_request_def)
qed

lemma same_rq_sync: "same_rq r r' \<Longrightarrow> rq_is_sync r' = rq_is_sync r"
  by (simp add: same_rq_def rq_is_sync_def rw_is_sync_def rq_flagged_def)

lemma same_hash_key: "same_rq r r' \<Longrightarrow> rq_hash_key r' = rq_hash_key r"
  by (simp add: same_rq_def transfer_def rq_hash_key_def rq_simps)

lemma mergeable_not_started: "rq_mergeable r \<Longrightarrow> \<not> rq_flagged r REQ_STARTED"
proof
  assume "rq_mergeable r" "rq_flagged r REQ_STARTED"
  then have "cmd_flags r AND RQ_NOMERGE_FLAGS = 0" "cmd_flags r AND REQ REQ_STARTED \<noteq> 0"
    by (simp_all add: rq_mergeable_def rq_flagged_def)
  then show False
    by (simp add: RQ_NOMERGE_FLAGS_def bit.conj_disj_distrib or_eq_0_iff)
qed

text \<open>The first request takes over the bios of the second.\<close>

lemma join_spec:
  fixes env :: "look_data blk_env" and q :: "look_data request_queue" and rq nxt :: rqp
  defines "a \<equiv> append_request (rqs q nxt) (rqs q rq)"
    and "d \<equiv> (elevator_data q)\<lparr>look_queue := removeAll nxt (look_queue (elevator_data q))\<rparr>"
  assumes ops: "env_ops env = elevator_look" "env_own env = look_queue" and ne: "rq \<noteq> nxt" and ok: "elv_hash_ok q" "ordseq q = 0"
    and gone: "ref_count (rqs q nxt) = 1" "nxt \<notin> set (queue_head q)" "nxt \<notin> set (tag_busy_list q)"
      "\<not> rq_flagged (rqs q nxt) REQ_STARTED"
  shows "\<exists>q'. join_requests env q rq nxt = Some q' \<and>
     rqs q' = (rqs q)(rq := a\<lparr>ioprio := ioprio_best (ioprio a) (ioprio (rqs q nxt))\<rparr>,
                      nxt := (rqs q nxt)\<lparr>bios := [], ref_count := 0\<rparr>) \<and>
     elv_hash_ok q' \<and> hashed q' = insert rq (hashed q) - {nxt} \<and> elevator_data q' = d \<and>
     queue_head q' = queue_head q \<and> nr_sorted q' = nr_sorted q - 1 \<and> last_merge q' = Some rq \<and>
     (\<forall>sync. rq_count q' sync = (if rq_flagged (rqs q nxt) REQ_ALLOCED \<and> sync = rq_is_sync (rqs q nxt)
                                 then rq_count q sync - 1 else rq_count q sync))"
proof -
  let ?m = "(rqs q)(rq := a)"
  define q3 where "q3 = rq_upd rq (append_request (rqs q nxt)) q"
  have q3: "q3 = q\<lparr>rqs := ?m\<rparr>" by (simp add: q3_def a_def rq_upd_def)
  have "elv_hash_ok_but {rq} q3"
    by (rule hash_ok_rqs_cong [of _ q]) (use ok hash_ok_but_mono [of "{}" q "{rq}"] in \<open>simp_all add: q3\<close>)
  then obtain h where h: "elv_merge_requests elevator_look q3 rq nxt =
        Some (q\<lparr>rqs := ?m, elv_hash := h, nr_sorted := nr_sorted q - 1, last_merge := Some rq, elevator_data := d\<rparr>)"
      "elv_hash_ok (q3\<lparr>elv_hash := h\<rparr>)" "hashed (q3\<lparr>elv_hash := h\<rparr>) = insert rq (hashed q) - {nxt}"
    using look_merge_requests_spec [of rq q3 nxt] by (auto simp: q3 hashed_def d_def)
  let ?m' = "?m(rq := a\<lparr>ioprio := ioprio_best (ioprio a) (ioprio (rqs q nxt))\<rparr>, nxt := (rqs q nxt)\<lparr>bios := []\<rparr>)"
  define q4 where "q4 = q\<lparr>elv_hash := h, nr_sorted := nr_sorted q - 1, last_merge := Some rq, elevator_data := d, rqs := ?m'\<rparr>"
  have run: "join_requests env q rq nxt = blk_put_request (blk_end_request_all env) env q4 nxt"
    unfolding join_requests_def q3_def [symmetric] ops(1) Let_def h(1) using ne by (simp add: rq_upd_def q4_def)
  have hash4: "hashed q4 = insert rq (hashed q) - {nxt}" using h(3) by (simp add: hashed_def q4_def)
  have "\<not> rq_flagged (rqs q4 nxt) REQ_STARTED" "ref_count (rqs q4 nxt) = 1" "ordseq q4 = 0"
    using gone ok(2) by (simp_all add: q4_def rq_flagged_def)
  moreover have "\<not> blk_queued_rq env q4 nxt" using gone(2,3) ops(2) by (simp add: blk_queued_rq_def q4_def d_def)
  moreover have "quiet_ops (env_ops env)" by (simp add: ops(1) quiet_ops_def elevator_look_def)
  ultimately obtain q' where q': "blk_put_request (blk_end_request_all env) env q4 nxt = Some q'"
      "rqs q' = (rqs q4)(nxt := (rqs q4 nxt)\<lparr>ref_count := 0\<rparr>)" "elv_hash q' = elv_hash q4" "elevator_data q' = elevator_data q4"
      "nr_sorted q' = nr_sorted q4" "last_merge q' = last_merge q4" "queue_head q' = queue_head q4"
      "\<forall>sync. rq_count q' sync = (if rq_flagged (rqs q4 nxt) REQ_ALLOCED \<and> sync = rq_is_sync (rqs q4 nxt)
                                 then rq_count q4 sync - 1 else rq_count q4 sync)"
    using put_unqueued [of env q4 nxt "blk_end_request_all env"] hash4 by blast
  have "elv_hash_ok q'"
    by (rule hash_ok_rqs_cong [OF h(2)]) (use ne q'(2,3) in \<open>simp_all add: q3 q4_def rq_hash_key_def rq_simps\<close>)
  moreover have "hashed q' = insert rq (hashed q) - {nxt}" using hash4 q'(3) by (simp add: hashed_def)
  moreover have "rq_flagged (rqs q4 nxt) REQ_ALLOCED = rq_flagged (rqs q nxt) REQ_ALLOCED"
      "rq_is_sync (rqs q4 nxt) = rq_is_sync (rqs q nxt)"
    by (simp_all add: q4_def rq_flagged_def rq_is_sync_def)
  ultimately show ?thesis
    unfolding run q'(1) using q'(2-8) by (intro exI [of _ q']) (simp add: q4_def)
qed

lemma joined_transfer:
  assumes "transfer r2 = transfer r" "transfer n2 = transfer n" "rq_ok r" "bios r \<noteq> []" "rq_ok n"
    and "unat (data_len r) + unat (data_len n) < 2 ^ 32" "r' = (append_request n2 r2)\<lparr>ioprio := x\<rparr>"
  shows "sector r' = sector r" "rq_ok r'" "rq_bytes r' = rq_bytes r @ rq_bytes n" "bios r' \<noteq> []"
proof -
  note t = transferD [OF assms(1)] transferD [OF assms(2)]
  have "transfer r' = transfer (append_request n2 r2)" using assms(7) by (simp add: transfer_def)
  note t' = transferD [OF this] append_request_spec [of r2 n2]
  show "sector r' = sector r" "rq_ok r'" "rq_bytes r' = rq_bytes r @ rq_bytes n"
    using t t' assms(3-6) by simp_all
  show "bios r' \<noteq> []" using t assms(4,7) by (simp add: append_request_def)
qed

lemma join_merged:
  fixes env :: "look_data blk_env"
  assumes ops: "env_ops env = elevator_look" "env_own env = look_queue" and ne: "rq \<noteq> nxt" and ok: "elv_hash_ok q" "ordseq q = 0"
    and rqs: "bios (rqs q rq) \<noteq> []" "rq_ok (rqs q rq)" "rq_ok (rqs q nxt)"
    and len: "unat (data_len (rqs q rq)) + unat (data_len (rqs q nxt)) < 2 ^ 32"
    and gone: "ref_count (rqs q nxt) = 1" "nxt \<notin> set (queue_head q)" "nxt \<notin> set (tag_busy_list q)"
    and go: "rq_mergeable (rqs q nxt)"
      "blk_rq_pos (rqs q rq) + ucast (blk_rq_sectors (rqs q rq)) = blk_rq_pos (rqs q nxt)"
    and same: "same_rqs q q2"
  shows "\<exists>q'. join_requests env q2 rq nxt = Some q' \<and> merged q rq nxt q'"
proof -
  have sm: "same_rq (rqs q p) (rqs q2 p)" for p using same by (simp add: same_rqs_def)
  have t: "transfer (rqs q2 p) = transfer (rqs q p)" for p using sm [of p] by (simp add: same_rq_def)
  obtain m where q2: "q2 = q\<lparr>rqs := m\<rparr>" using same unfolding same_rqs_def by blast
  have hash: "elv_hash_ok q2" by (rule hash_ok_rqs_cong [OF ok(1)]) (simp_all add: q2 same_hash_key [OF sm, unfolded q2, simplified])
  have "\<not> rq_flagged (rqs q2 nxt) REQ_STARTED" "ref_count (rqs q2 nxt) = 1"
    using mergeable_not_started [OF go(1)] sm [of nxt] gone(1) by (simp_all add: same_rq_def)
  then obtain q' where q': "join_requests env q2 rq nxt = Some q'"
      "rqs q' rq = (append_request (rqs q2 nxt) (rqs q2 rq))\<lparr>ioprio := ioprio (rqs q' rq)\<rparr>" "bios (rqs q' nxt) = []"
      "\<And>p. p \<notin> {rq, nxt} \<Longrightarrow> rqs q' p = rqs q2 p" "elv_hash_ok q'" "hashed q' = insert rq (hashed q) - {nxt}"
      "elevator_data q' = (elevator_data q)\<lparr>look_queue := removeAll nxt (look_queue (elevator_data q))\<rparr>"
      "queue_head q' = queue_head q" "nr_sorted q' = nr_sorted q - 1" "last_merge q' = Some rq"
      "\<forall>sync. rq_count q' sync = (if rq_flagged (rqs q2 nxt) REQ_ALLOCED \<and> sync = rq_is_sync (rqs q2 nxt)
                                 then rq_count q sync - 1 else rq_count q sync)"
    using join_spec [OF ops ne hash] ok(2) gone(2,3) ne by (fastforce simp: q2 hashed_def)
  note joined = joined_transfer [OF t t rqs(2,1,3) len q'(2)]
  have "rq_flagged (rqs q2 nxt) REQ_ALLOCED = rq_flagged (rqs q nxt) REQ_ALLOCED"
    using sm [of nxt] by (simp add: same_rq_def)
  moreover have "\<forall>p. p \<notin> {rq, nxt} \<longrightarrow> same_rq (rqs q p) (rqs q' p)" using q'(4) sm by simp
  ultimately have "merged q rq nxt q'"
    unfolding merged_def using go(2) joined q'(3,5-11) same_rq_sync [OF sm, of nxt] by simp
  then show ?thesis using q'(1) by blast
qed

lemma look_attempt_merge:
  fixes env :: "look_data blk_env"
  assumes ops: "env_ops env = elevator_look" "env_own env = look_queue" and ne: "rq \<noteq> nxt" and ok: "elv_hash_ok q" "ordseq q = 0"
    and rqs: "bios (rqs q rq) \<noteq> []" "rq_ok (rqs q rq)" "rq_ok (rqs q nxt)" "bios (rqs q nxt) \<noteq> []"
    and len: "unat (data_len (rqs q rq)) + unat (data_len (rqs q nxt)) < 2 ^ 32"
    and gone: "ref_count (rqs q nxt) = 1" "nxt \<notin> set (queue_head q)" "nxt \<notin> set (tag_busy_list q)"
  shows "\<exists>m q'. attempt_merge env q rq nxt = Some (m, q') \<and> (if m then merged q rq nxt q' else same_rqs q q')"
proof -
  obtain fits q1 where q1: "ll_merge_requests_fn (env_settings env) q rq nxt = Some (fits, q1)" "same_rqs q q1"
    using merge_requests_keeps [OF ne rqs(1,4,2,3)] by blast
  have "same_rqs q (mix_requests rq nxt q1)" using q1(2) mix_keeps by (rule same_rqs_trans)
  note join = join_merged [OF ops ne ok rqs(1,2,3) len gone _ _ this]
  show ?thesis
  proof (cases "rq_mergeable (rqs q nxt) \<and>
      blk_rq_pos (rqs q rq) + ucast (blk_rq_sectors (rqs q rq)) = blk_rq_pos (rqs q nxt)")
    case True
    then obtain q' where "join_requests env (mix_requests rq nxt q1) rq nxt = Some q'" "merged q rq nxt q'"
      using join by blast
    moreover from this q1(1) have "attempt_merge env q rq nxt = Some (False, q) \<or> attempt_merge env q rq nxt = Some (False, q1) \<or>
        attempt_merge env q rq nxt = Some (True, q')"
      by (simp add: attempt_merge_def Let_def)
    ultimately show ?thesis using q1(2) same_rqs_refl [of q] by metis
  next
    case False
    then show ?thesis by (auto simp: attempt_merge_def Let_def)
  qed
qed

lemma same_rqs_ok:
  assumes "same_rqs q q'"
  shows "look_ok q \<Longrightarrow> look_ok q'" "elv_hash_ok q \<Longrightarrow> elv_hash_ok q'"
proof -
  have sm: "same_rq (rqs q p) (rqs q' p)" for p using assms by (simp add: same_rqs_def)
  obtain m where q': "q' = q\<lparr>rqs := m\<rparr>" using assms unfolding same_rqs_def by blast
  have "bios (rqs q' p) = [] \<longleftrightarrow> bios (rqs q p) = []" for p
    by (rule transferD(5)) (use sm [of p] in \<open>simp add: same_rq_def\<close>)
  moreover have "elevator_data q' = elevator_data q" by (simp add: q')
  ultimately show "look_ok q \<Longrightarrow> look_ok q'" by (simp add: look_ok_def)
  have hash: "elv_hash q' = elv_hash q" by (simp add: q')
  show "elv_hash_ok q'" if "elv_hash_ok q"
    by (rule hash_ok_rqs_cong [OF that hash]) (rule same_hash_key [OF sm])
qed

lemma prev_in_rev:
  assumes "distinct (xs @ rq # nxt # ys)"
  shows "prev_in (rev (xs @ rq # nxt # ys)) rq = Some nxt"
proof -
  have "prev_in (as @ nxt # rq # bs) rq = Some nxt" if "rq \<notin> set as" "rq \<noteq> nxt" for as bs
    using that
  proof (induction as)
    case (Cons a as)
    then show ?case by (cases as) auto
  qed simp
  from this [of "rev ys" "rev xs"] assms show ?thesis by simp
qed

text \<open>
  C11. A back merge in the LOOK scheduler joins a request with the one behind it in the list or
  leaves both alone, and never fails. When it joins them, the second request started where the
  first one ended, the first one now carries the bytes of both in order, and the second one has
  left the list, the merge hash, the count of sorted requests and the request pool. All other
  requests stay as they are, and the invariants of LOOK and of the hash hold again.
\<close>

theorem look_back_merge:
  fixes env :: "look_data blk_env"
  assumes ops: "env_ops env = elevator_look" "env_own env = look_queue"
    and list: "look_queue (elevator_data q) = xs @ rq # nxt # ys" and inv: "look_ok q" "elv_hash_ok q" "ordseq q = 0"
    and rqs: "rq_ok (rqs q rq)" "rq_ok (rqs q nxt)" "unat (data_len (rqs q rq)) + unat (data_len (rqs q nxt)) < 2 ^ 32"
    and gone: "ref_count (rqs q nxt) = 1" "nxt \<notin> set (queue_head q)" "nxt \<notin> set (tag_busy_list q)"
  shows "\<exists>m q'. attempt_back_merge env q rq = Some (m, q') \<and> look_ok q' \<and> elv_hash_ok q' \<and>
     (if m then merged q rq nxt q' \<and> look_queue (elevator_data q') = xs @ rq # ys else same_rqs q q')"
proof -
  have dist: "distinct (xs @ rq # nxt # ys)" and bios: "\<forall>p \<in> set (xs @ rq # nxt # ys). bios (rqs q p) \<noteq> []"
    using inv(1) list by (simp_all add: look_ok_def)
  then have ne: "rq \<noteq> nxt" by auto
  obtain m q' where q': "attempt_merge env q rq nxt = Some (m, q')" "if m then merged q rq nxt q' else same_rqs q q'"
    using look_attempt_merge [OF ops ne inv(2,3) _ rqs(1,2) _ rqs(3) gone] bios by auto
  have "attempt_back_merge env q rq = Some (m, q')"
    using q'(1) prev_in_rev [OF dist] list
    by (simp add: attempt_back_merge_def elv_latter_request_def ops(1) elevator_look_def look_latter_request_def queuelist_next_def)
  moreover have "look_ok q' \<and> elv_hash_ok q' \<and> look_queue (elevator_data q') = xs @ rq # ys" if "merged q rq nxt q'"
  proof -
    have queue: "look_queue (elevator_data q') = xs @ rq # ys" "look_dir (elevator_data q') = look_dir (elevator_data q)"
      using that list dist ne by (simp_all add: merged_def removeAll_id)
    have "bios (rqs q' p) \<noteq> []" if "p \<in> set (xs @ rq # ys)" for p
      using that \<open>merged q rq nxt q'\<close> dist bios transferD(5) [of "rqs q' p" "rqs q p"]
      by (cases "p = rq") (auto simp: merged_def same_rq_def)
    then show ?thesis using that queue dist inv(1) by (simp add: look_ok_def merged_def)
  qed
  moreover have "look_ok q' \<and> elv_hash_ok q'" if "same_rqs q q'"
    using same_rqs_ok [OF that] inv by blast
  ultimately show ?thesis using q'(2) by (cases m) auto
qed

definition look_env :: "look_data blk_env" where
  "look_env = \<lparr>env_ops = elevator_look, env_request_fn = Some, env_settings = qs0,
     env_own = look_queue, env_unlink = (\<lambda>rq d. d\<lparr>look_queue := removeAll rq (look_queue d)\<rparr>),
     env_prepare_flush = (\<lambda>_ q _. q), env_end_io = (\<lambda>_ q _ _. Some q), env_prep_rq = (\<lambda>_ q _. (0, q))\<rparr>"

definition adjacent_sample :: "look_data request_queue" where
  "adjacent_sample = (queue_zero \<lparr>look_queue = [Rq 7, Rq 8], cur_pos = 0, look_dir = 1\<rparr>)\<lparr>nr_sorted := 2,
     rqs := (\<lambda>p. rq_zero\<lparr>cmd_type := REQ_TYPE_FS, sector := (if p = Rq 8 then 4 else 0), data_len := 2048,
                          bios := [bio3], nr_phys_segments := 2, ref_count := 1\<rparr>)\<rparr>"

lemma adjacent_rq:
  "rqs adjacent_sample p = rq_zero\<lparr>cmd_type := REQ_TYPE_FS, sector := (if p = Rq 8 then 4 else 0), data_len := 2048,
     bios := [bio3], nr_phys_segments := 2, ref_count := 1\<rparr>"
  by (simp add: adjacent_sample_def)

lemma adjacent_fits: "\<exists>q. ll_merge_requests_fn qs0 adjacent_sample (Rq 7) (Rq 8) = Some (True, q)"
proof -
  have "ucast (max_sectors (limits qs0)) = (1024 :: u32)" "queue_max_segments qs0 = 128"
    by (simp_all add: queue_max_segments_def qs0_def limits0_def blk_set_default_limits_def BLK_MAX_SEGMENTS_def BLK_DEF_MAX_SECTORS_def)
  moreover obtain c where "blk_phys_contig_segment qs0 bio3 bio3 = Some c"
    using contig_defined [of bio3 bio3 qs0] by (auto simp: bio3_def bio_zero_def bio_ok_def bio_segs_def)
  ultimately show ?thesis
    by (cases c) (simp_all add: ll_merge_requests_fn_def Let_def adjacent_rq blk_rq_sectors_def blk_rq_bytes_def rq_zero_def)
qed

theorem look_back_merge_witness:
  "\<exists>q'. attempt_back_merge look_env adjacent_sample (Rq 7) = Some (True, q') \<and>
     look_queue (elevator_data q') = [Rq 7] \<and> length (rq_bytes (rqs q' (Rq 7))) = 4096"
proof -
  have ok: "rq_ok (rqs adjacent_sample p)" for p
    by (simp add: rq_ok_def adjacent_rq bio3_def bio_zero_def bio_ok_def bio_segs_def)
  have "\<exists>m q'. attempt_back_merge look_env adjacent_sample (Rq 7) = Some (m, q') \<and> look_ok q' \<and> elv_hash_ok q' \<and>
     (if m then merged adjacent_sample (Rq 7) (Rq 8) q' \<and> look_queue (elevator_data q') = [] @ Rq 7 # []
      else same_rqs adjacent_sample q')"
    by (rule look_back_merge)
      (simp_all add: ok look_env_def, simp_all add: adjacent_sample_def queue_zero_def look_ok_def elv_hash_ok_but_def)
  then obtain m q' where q': "attempt_back_merge look_env adjacent_sample (Rq 7) = Some (m, q')"
     "if m then merged adjacent_sample (Rq 7) (Rq 8) q' \<and> look_queue (elevator_data q') = [Rq 7] else same_rqs adjacent_sample q'"
    unfolding append_Nil by blast
  obtain q1 where q1: "ll_merge_requests_fn qs0 adjacent_sample (Rq 7) (Rq 8) = Some (True, q1)" using adjacent_fits by blast
  have "attempt_back_merge look_env adjacent_sample (Rq 7) = attempt_merge look_env adjacent_sample (Rq 7) (Rq 8)"
    by (simp add: attempt_back_merge_def elv_latter_request_def look_env_def elevator_look_def look_latter_request_def
        queuelist_next_def adjacent_sample_def queue_zero_def)
  moreover have "attempt_merge look_env adjacent_sample (Rq 7) (Rq 8) =
      do { q \<leftarrow> join_requests look_env (mix_requests (Rq 7) (Rq 8) q1) (Rq 7) (Rq 8); Some (True, q) }"
    using q1 by (simp add: attempt_merge_def adjacent_rq rq_mergeable_def blk_fs_request_def rq_zero_def
        blk_rq_sectors_def blk_rq_bytes_def blk_rq_pos_def rq_data_dir_def blk_integrity_rq_def look_env_def)
  ultimately have m using q'(1) by (auto split: bind_splits)
  then have "merged adjacent_sample (Rq 7) (Rq 8) q'" "look_queue (elevator_data q') = [Rq 7]" using q'(2) by simp_all
  moreover have "length (rq_bytes (rqs adjacent_sample p)) = 2048" for p
    using length_rq_bytes [OF ok, of p] by (simp add: adjacent_rq)
  ultimately have "length (rq_bytes (rqs q' (Rq 7))) = 4096" by (simp add: merged_def)
  then show ?thesis using q' \<open>m\<close> by simp
qed

end
