(* ===== verification/Elv_Switch.thy ===== *)
theory Elv_Switch
  imports Barrier
begin

text \<open>
  The registry of I/O schedulers and the change of the scheduler of a queue, from
  \<^verbatim>\<open>block/elevator.c\<close>: finding and loading a scheduler by its name, attaching one to a new queue,
  quiescing a queue and switching its scheduler through sysfs. The configured default is an argument.
  All schedulers share one type \<open>'d\<close> of private data, which stands for the
  \<^verbatim>\<open>void *\<close> of the code. Loading a module and the state of a module are the record \<open>mod_env\<close>; memory and
  the registration in sysfs succeed or fail as arguments say.
\<close>

section \<open>Schedulers and modules\<close>

record 'd elevator_type =
  elevator_name :: string
  et_ops :: "'d elevator_ops"
  elevator_owner :: "nat option"

text \<open>The list of schedulers, the \<^verbatim>\<open>elevator=\<close> parameter of the kernel and the use counts of modules.\<close>

record 'd elv_state =
  elv_list :: "'d elevator_type list"
  chosen_elevator :: string
  module_refs :: "nat \<Rightarrow> int"

record 'd mod_env =
  request_module :: "string \<Rightarrow> 'd elv_state \<Rightarrow> 'd elv_state"
  module_live :: "nat \<Rightarrow> bool"

definition try_module_get :: "'d mod_env \<Rightarrow> nat option \<Rightarrow> 'd elv_state \<Rightarrow> bool \<times> 'd elv_state" where
  "try_module_get env owner st =
     (case owner of
        None \<Rightarrow> (True, st)
      | Some m \<Rightarrow> if module_live env m then (True, st\<lparr>module_refs := (module_refs st)(m := module_refs st m + 1)\<rparr>)
                  else (False, st))"

definition module_put :: "nat option \<Rightarrow> 'd elv_state \<Rightarrow> 'd elv_state" where
  "module_put owner st =
     (case owner of
        None \<Rightarrow> st
      | Some m \<Rightarrow> st\<lparr>module_refs := (module_refs st)(m := module_refs st m - 1)\<rparr>)"

section \<open>The registry\<close>

definition elevator_find :: "string \<Rightarrow> 'd elv_state \<Rightarrow> 'd elevator_type option" where
  "elevator_find name st = List.find (\<lambda>e. elevator_name e = name) (elv_list st)"

definition elevator_put :: "'d elevator_type \<Rightarrow> 'd elv_state \<Rightarrow> 'd elv_state" where
  "elevator_put e = module_put (elevator_owner e)"

text \<open>\<^verbatim>\<open>snprintf\<close> into 24 bytes, the last of which ends the string.\<close>

definition iosched_module :: "string \<Rightarrow> string" where
  "iosched_module name = take 23 (name @ ''-iosched'')"

definition elevator_get ::
    "'d mod_env \<Rightarrow> string \<Rightarrow> 'd elv_state \<Rightarrow> 'd elevator_type option \<times> 'd elv_state" where
  "elevator_get env name st =
     (let (e, st) = (case elevator_find name st of
                       Some e \<Rightarrow> (Some e, st)
                     | None \<Rightarrow> (let st = request_module env (iosched_module name) st in (elevator_find name st, st)))
      in case e of
           None \<Rightarrow> (None, st)
         | Some t \<Rightarrow>
             (case try_module_get env (elevator_owner t) st of (ok, st) \<Rightarrow> (if ok then Some t else None, st)))"

definition elevator_setup :: "string \<Rightarrow> 'd elv_state \<Rightarrow> 'd elv_state" where
  "elevator_setup str st = st\<lparr>chosen_elevator := take 15 str\<rparr>"

definition elv_register :: "'d elevator_type \<Rightarrow> 'd elv_state \<Rightarrow> 'd elv_state option" where
  "elv_register e st =
     (if elevator_find (elevator_name e) st \<noteq> None then None else Some (st\<lparr>elv_list := elv_list st @ [e]\<rparr>))"

text \<open>
  A scheduler is known by its name, which is unique in the list. The io contexts that
  \<^verbatim>\<open>elv_unregister\<close> trims for CFQ are left out.
\<close>

definition elv_unregister :: "'d elevator_type \<Rightarrow> 'd elv_state \<Rightarrow> 'd elv_state" where
  "elv_unregister e st = st\<lparr>elv_list := filter (\<lambda>x. elevator_name x \<noteq> elevator_name e) (elv_list st)\<rparr>"

section \<open>The scheduler of a queue\<close>

text \<open>
  An \<^verbatim>\<open>elevator_queue\<close>: the scheduler with its private data and merge hash. While it is attached, data
  and hash are those of the request queue; \<open>in_sysfs\<close> says whether the queue has its directory
  \<^verbatim>\<open>iosched\<close>.
\<close>

record 'd elevator_queue =
  eq_type :: "'d elevator_type"
  eq_data :: 'd
  eq_hash :: "nat \<Rightarrow> rqp list"

record 'd disk =
  disk_queue :: "'d request_queue"
  disk_type :: "'d elevator_type option"
  in_sysfs :: bool

record mem_outcome =
  mem_queue :: bool
  mem_hash :: bool
  mem_data :: bool

definition elevator_alloc ::
    "mem_outcome \<Rightarrow> 'd elevator_type \<Rightarrow> 'd elv_state \<Rightarrow> bool \<times> 'd elv_state" where
  "elevator_alloc mem e st =
     (if \<not> mem_queue mem then (False, elevator_put e st)
      else if \<not> mem_hash mem then (False, elevator_put e st)
      else (True, st))"

definition elevator_release :: "'d elevator_type \<Rightarrow> 'd elv_state \<Rightarrow> 'd elv_state" where
  "elevator_release e = elevator_put e"

text \<open>\<^verbatim>\<open>elevator_alloc\<close> and \<^verbatim>\<open>elevator_init_queue\<close> in sequence, as both callers use them;
  without memory the scheduler is put back.\<close>

definition elevator_create ::
    "mem_outcome \<Rightarrow> 'd elevator_type \<Rightarrow> 'd elv_state \<Rightarrow> 'd elevator_queue option \<times> 'd elv_state" where
  "elevator_create mem e st =
     (case elevator_alloc mem e st of
        (False, st) \<Rightarrow> (None, st)
      | (True, st) \<Rightarrow>
          (case elevator_init_fn (et_ops e) (mem_data mem) of
             None \<Rightarrow> (None, elevator_release e st)
           | Some d \<Rightarrow> (Some \<lparr>eq_type = e, eq_data = d, eq_hash = (\<lambda>_. [])\<rparr>, st)))"

definition elevator_attach :: "'d elevator_queue \<Rightarrow> 'd request_queue \<Rightarrow> 'd request_queue" where
  "elevator_attach e q = q\<lparr>elevator_data := eq_data e, elv_hash := eq_hash e\<rparr>"

definition elevator_exit :: "'d elevator_queue \<Rightarrow> 'd elv_state \<Rightarrow> 'd elv_state option" where
  "elevator_exit e st = do {
     _ \<leftarrow> (case elevator_exit_fn (et_ops (eq_type e)) of Some f \<Rightarrow> f (eq_data e) | None \<Rightarrow> Some ());
     Some (elevator_release (eq_type e) st)
   }"

text \<open>
  The choice of \<^verbatim>\<open>elevator_init\<close>: the name that is asked for or nothing, else the parameter of the
  kernel, else the configured default, else noop.
\<close>

definition default_elevator ::
    "'d mod_env \<Rightarrow> string \<Rightarrow> 'd elv_state \<Rightarrow> 'd elevator_type option \<times> 'd elv_state" where
  "default_elevator env config st =
     (let (e, st) = (if chosen_elevator st \<noteq> [] then elevator_get env (chosen_elevator st) st else (None, st))
      in case e of
           Some t \<Rightarrow> (Some t, st)
         | None \<Rightarrow>
             (case elevator_get env config st of
                (Some t, st) \<Rightarrow> (Some t, st)
              | (None, st) \<Rightarrow> elevator_get env ''noop'' st))"

definition elevator_init ::
    "'d mod_env \<Rightarrow> string \<Rightarrow> mem_outcome \<Rightarrow> string option \<Rightarrow> 'd disk \<Rightarrow> 'd elv_state \<Rightarrow> (int \<times> 'd disk \<times> 'd elv_state) option" where
  "elevator_init env config mem name d st =
     (let q = (disk_queue d)\<lparr>queue_head := [], last_merge := None, end_sector := 0, boundary_rq := None\<rparr>;
          d = d\<lparr>disk_queue := q\<rparr>;
          (e, st) = (case name of Some n \<Rightarrow> elevator_get env n st | None \<Rightarrow> default_elevator env config st)
      in case e of
           None \<Rightarrow> (if name \<noteq> None then Some (- EINVAL, d, st) else None)
         | Some t \<Rightarrow>
             (case elevator_create mem t st of
                (None, st) \<Rightarrow> Some (- ENOMEM, d, st)
              | (Some eq, st) \<Rightarrow> Some (0, d\<lparr>disk_queue := elevator_attach eq q, disk_type := Some t\<rparr>, st)))"

section \<open>Quiescing a queue\<close>

text \<open>
  The loop of \<^verbatim>\<open>elv_quiesce_start\<close> sleeps as long as requests with private data of the scheduler exist;
  what the rest of the system does to the queue meanwhile is an entry of the list. \<open>None\<close>: it is
  still waiting when the list ends.
\<close>

fun elv_quiesce_loop ::
    "'d elevator_ops \<Rightarrow> ('d request_queue \<Rightarrow> 'd request_queue option) \<Rightarrow> ('d request_queue \<Rightarrow> 'd request_queue) list \<Rightarrow>
     'd request_queue \<Rightarrow> 'd request_queue option" where
  "elv_quiesce_loop ops request_fn naps q =
     (if elvpriv q = 0 then Some q
      else case naps of
        [] \<Rightarrow> None
      | nap # naps \<Rightarrow> do {
          q \<leftarrow> blk_run_queue ops request_fn q;
          q \<leftarrow> elv_drain_elevator ops (nap q);
          elv_quiesce_loop ops request_fn naps q
        })"

definition elv_quiesce_start ::
    "'d elevator_ops \<Rightarrow> ('d request_queue \<Rightarrow> 'd request_queue option) \<Rightarrow> ('d request_queue \<Rightarrow> 'd request_queue) list \<Rightarrow>
     'd request_queue \<Rightarrow> 'd request_queue option" where
  "elv_quiesce_start ops request_fn naps q = do {
     q \<leftarrow> elv_drain_elevator ops (queue_flag_set QUEUE_FLAG_ELVSWITCH q);
     elv_quiesce_loop ops request_fn naps q
   }"

definition elv_quiesce_end :: "'d request_queue \<Rightarrow> 'd request_queue" where
  "elv_quiesce_end q = queue_flag_clear QUEUE_FLAG_ELVSWITCH q"

section \<open>Switching\<close>

text \<open>
  \<^verbatim>\<open>elevator_switch\<close>. The two outcomes of \<^verbatim>\<open>elv_register_queue\<close> are those for the new scheduler and, if that
  fails, for the old one again; \<open>gap\<close> is what happens to the queue between the attachment and the
  registration, when the queue lock is not held.
\<close>

definition elevator_switch ::
    "('d request_queue \<Rightarrow> 'd request_queue option) \<Rightarrow> mem_outcome \<Rightarrow> ('d request_queue \<Rightarrow> 'd request_queue) list \<Rightarrow>
     ('d request_queue \<Rightarrow> 'd request_queue) \<Rightarrow> bool \<times> bool \<Rightarrow> 'd elevator_type \<Rightarrow> 'd disk \<Rightarrow> 'd elv_state \<Rightarrow>
     (bool \<times> 'd disk \<times> 'd elv_state) option" where
  "elevator_switch request_fn mem naps gap reg new_e d st = do {
     old \<leftarrow> disk_type d;
     case elevator_create mem new_e st of
       (None, st) \<Rightarrow> Some (False, d, st)
     | (Some e, st) \<Rightarrow> do {
         q \<leftarrow> elv_quiesce_start (et_ops old) request_fn naps (disk_queue d);
         let old_elevator = \<lparr>eq_type = old, eq_data = elevator_data q, eq_hash = elv_hash q\<rparr>;
         let q = gap (elevator_attach e q);
         if fst reg then do {
           st \<leftarrow> elevator_exit old_elevator st;
           Some (True, d\<lparr>disk_queue := elv_quiesce_end q, disk_type := Some new_e, in_sysfs := True\<rparr>, st)
         } else do {
           st \<leftarrow> elevator_exit (e\<lparr>eq_data := elevator_data q, eq_hash := elv_hash q\<rparr>) st;
           let q = elevator_attach old_elevator q;
           Some (False, d\<lparr>disk_queue := queue_flag_clear QUEUE_FLAG_ELVSWITCH q, in_sysfs := snd reg\<rparr>, st)
         }
       }
   }"

section \<open>The sysfs file\<close>

definition isspace :: "char \<Rightarrow> bool" where
  "isspace c \<longleftrightarrow> (let n = of_char c :: nat in n \<in> {9..13} \<or> n = 32 \<or> n = 160)"

definition skip_spaces :: "string \<Rightarrow> string" where
  "skip_spaces s = dropWhile isspace s"

text \<open>
  \<^verbatim>\<open>strim\<close>: the result, and what the buffer holds afterwards, where only the trailing white space has
  been cut off.
\<close>

definition strim :: "string \<Rightarrow> string \<times> string" where
  "strim buf =
     (let s = skip_spaces buf
      in if s = [] then (s, buf)
         else (let t = rev (dropWhile isspace (rev s)) in (t, takeWhile isspace buf @ t)))"

definition elv_iosched_store ::
    "'d mod_env \<Rightarrow> ('d request_queue \<Rightarrow> 'd request_queue option) \<Rightarrow> mem_outcome \<Rightarrow> ('d request_queue \<Rightarrow> 'd request_queue) list \<Rightarrow>
     ('d request_queue \<Rightarrow> 'd request_queue) \<Rightarrow> bool \<times> bool \<Rightarrow> string \<Rightarrow> 'd disk \<Rightarrow> 'd elv_state \<Rightarrow>
     (int \<times> 'd disk \<times> 'd elv_state) option" where
  "elv_iosched_store env request_fn mem naps gap reg name d st =
     (let count = int (length name)
      in case disk_type d of
           None \<Rightarrow> Some (count, d, st)
         | Some cur \<Rightarrow>
             (case strim (take 15 name) of
                (stripped, name_buf) \<Rightarrow>
                  (case elevator_get env stripped st of
                     (None, st) \<Rightarrow> Some (- EINVAL, d, st)
                   | (Some e, st) \<Rightarrow>
                       (if name_buf = elevator_name cur then Some (count, d, elevator_put e st)
                        else do {
                          (_, d, st) \<leftarrow> elevator_switch request_fn mem naps gap reg e d st;
                          Some (count, d, st)
                        }))))"

definition elv_iosched_show :: "'d disk \<Rightarrow> 'd elv_state \<Rightarrow> string" where
  "elv_iosched_show d st =
     (case disk_type d of
        None \<Rightarrow> ''none'' @ [CHR 0x0A]
      | Some cur \<Rightarrow>
          concat (map (\<lambda>e. if elevator_name cur = elevator_name e then ''['' @ elevator_name cur @ ''] ''
                           else elevator_name e @ '' '') (elv_list st)) @ [CHR 0x0A])"

section \<open>Giving up\<close>

partial_function (option) elv_abort_queue :: "'d blk_env \<Rightarrow> 'd request_queue \<Rightarrow> 'd request_queue option" where
  "elv_abort_queue env q =
     (case queue_head q of
        [] \<Rightarrow> Some q
      | rq # _ \<Rightarrow>
          Option.bind (blk_start_request env (rq_upd rq (rq_set_flag REQ_QUIET) q) rq)
            (\<lambda>q. Option.bind (blk_end_request_all env q rq (- EIO)) (\<lambda>q. elv_abort_queue env q)))"

end
