(* ===== verification/Rbtree.thy ===== *)
theory Rbtree
  imports Prelude
begin

text \<open>
  The red-black trees of \<^verbatim>\<open>lib/rbtree.c\<close> and \<^verbatim>\<open>include/linux/rbtree.h\<close>. The code walks trees through
  parent pointers. Here a pointer into a tree is the subtree at the node together with the path
  from there to the root, the parent first, so that \<^verbatim>\<open>rb_parent\<close> is the first frame of the path and
  every assignment of the code has its counterpart. A dereference of a null pointer is \<open>None\<close>.

  The theory shows that insertion and removal never dereference a null pointer, keep the sequence
  of the entries, apart from the one that is removed, and keep the tree balanced.
\<close>

section \<open>Trees and pointers into them\<close>

datatype rb_color = RB_RED | RB_BLACK

datatype 'a rb_node = RbNull | RbNode rb_color (rb_left: "'a rb_node") 'a (rb_right: "'a rb_node")

text \<open>A step up: the node is the left or the right child of a node with that colour, entry and other child.\<close>

datatype 'a rb_frame = IsLeft rb_color 'a "'a rb_node" | IsRight rb_color "'a rb_node" 'a

type_synonym 'a rb_path = "'a rb_frame list"

fun rb_plug :: "'a rb_node \<Rightarrow> 'a rb_path \<Rightarrow> 'a rb_node" where
  "rb_plug t [] = t"
| "rb_plug t (IsLeft c x r # p) = rb_plug (RbNode c t x r) p"
| "rb_plug t (IsRight c l x # p) = rb_plug (RbNode c l x t) p"

text \<open>The pointer to the node with the entry \<open>x\<close>.\<close>

fun rb_pointer :: "'a \<Rightarrow> 'a rb_node \<Rightarrow> 'a rb_path \<Rightarrow> ('a rb_node \<times> 'a rb_path) option" where
  "rb_pointer x RbNull p = None"
| "rb_pointer x (RbNode c l y r) p =
     (if x = y then Some (RbNode c l y r, p)
      else case rb_pointer x l (IsLeft c y r # p) of
        Some f \<Rightarrow> Some f
      | None \<Rightarrow> rb_pointer x r (IsRight c l y # p))"

fun rb_is_red :: "'a rb_node \<Rightarrow> bool" where
  "rb_is_red (RbNode c l x r) \<longleftrightarrow> c = RB_RED"
| "rb_is_red RbNull \<longleftrightarrow> False"

abbreviation rb_black_or_null :: "'a rb_node \<Rightarrow> bool" where
  "rb_black_or_null t \<equiv> \<not> rb_is_red t"

fun rb_set_color :: "rb_color \<Rightarrow> 'a rb_node \<Rightarrow> 'a rb_node option" where
  "rb_set_color c' (RbNode c l x r) = Some (RbNode c' l x r)"
| "rb_set_color c' RbNull = None"

abbreviation rb_set_black :: "'a rb_node \<Rightarrow> 'a rb_node option" where
  "rb_set_black \<equiv> rb_set_color RB_BLACK"

abbreviation rb_set_red :: "'a rb_node \<Rightarrow> 'a rb_node option" where
  "rb_set_red \<equiv> rb_set_color RB_RED"

fun frame_color :: "'a rb_frame \<Rightarrow> rb_color" where
  "frame_color (IsLeft c x r) = c"
| "frame_color (IsRight c l x) = c"

section \<open>Rotations\<close>

fun rb_rotate_left :: "'a rb_node \<Rightarrow> 'a rb_node option" where
  "rb_rotate_left (RbNode c l x (RbNode c' rl y rr)) = Some (RbNode c' (RbNode c l x rl) y rr)"
| "rb_rotate_left _ = None"

fun rb_rotate_right :: "'a rb_node \<Rightarrow> 'a rb_node option" where
  "rb_rotate_right (RbNode c (RbNode c' ll y lr) x r) = Some (RbNode c' ll y (RbNode c lr x r))"
| "rb_rotate_right _ = None"

section \<open>Insertion\<close>

text \<open>
  The loop of \<^verbatim>\<open>rb_insert_color\<close>. After the last rotation the node is below a black one and the loop
  ends. A red root has no parent, which the code would dereference.
\<close>

fun rb_insert_loop :: "'a rb_node \<Rightarrow> 'a rb_path \<Rightarrow> 'a rb_node option" where
  "rb_insert_loop node [] = Some node"
| "rb_insert_loop node [f] = (if frame_color f = RB_RED then None else Some (rb_plug node [f]))"
| "rb_insert_loop node (f # g # rest) =
     (if frame_color f \<noteq> RB_RED then Some (rb_plug node (f # g # rest))
      else case g of
        IsLeft cg gx uncle \<Rightarrow>
          (if rb_is_red uncle then do {
             uncle \<leftarrow> rb_set_black uncle;
             parent \<leftarrow> rb_set_black (rb_plug node [f]);
             rb_insert_loop (RbNode RB_RED parent gx uncle) rest
           } else do {
             parent \<leftarrow> (case f of IsRight c l x \<Rightarrow> rb_rotate_left (rb_plug node [f]) | IsLeft c x r \<Rightarrow> Some (rb_plug node [f]));
             parent \<leftarrow> rb_set_black parent;
             gparent \<leftarrow> rb_rotate_right (RbNode RB_RED parent gx uncle);
             Some (rb_plug gparent rest)
           })
      | IsRight cg uncle gx \<Rightarrow>
          (if rb_is_red uncle then do {
             uncle \<leftarrow> rb_set_black uncle;
             parent \<leftarrow> rb_set_black (rb_plug node [f]);
             rb_insert_loop (RbNode RB_RED uncle gx parent) rest
           } else do {
             parent \<leftarrow> (case f of IsLeft c x r \<Rightarrow> rb_rotate_right (rb_plug node [f]) | IsRight c l x \<Rightarrow> Some (rb_plug node [f]));
             parent \<leftarrow> rb_set_black parent;
             gparent \<leftarrow> rb_rotate_left (RbNode RB_RED uncle gx parent);
             Some (rb_plug gparent rest)
           }))"

definition rb_insert_color :: "'a rb_node \<Rightarrow> 'a rb_path \<Rightarrow> 'a rb_node option" where
  "rb_insert_color node p = do { root \<leftarrow> rb_insert_loop node p; rb_set_black root }"

definition rb_link_node :: "'a \<Rightarrow> 'a rb_node" where
  "rb_link_node x = RbNode RB_RED RbNull x RbNull"

section \<open>Removal\<close>

text \<open>
  The two arms of the loop of \<^verbatim>\<open>__rb_erase_color\<close> on the parent, once the other child is black: either
  the parent is one black node short and the loop goes on with it, or the tree is repaired.
\<close>

datatype 'a rb_repair = GoUp "'a rb_node" | Repaired "'a rb_node"

fun rb_erase_left :: "'a rb_node \<Rightarrow> rb_color \<Rightarrow> 'a \<Rightarrow> 'a rb_node \<Rightarrow> 'a rb_repair option" where
  "rb_erase_left node c x RbNull = None"
| "rb_erase_left node c x (RbNode co ol y orr) =
     (if rb_black_or_null ol \<and> rb_black_or_null orr then Some (GoUp (RbNode c node x (RbNode RB_RED ol y orr)))
      else do {
        other \<leftarrow> (if rb_black_or_null orr then do {
                    ol \<leftarrow> rb_set_black ol;
                    rb_rotate_right (RbNode RB_RED ol y orr)
                  } else Some (RbNode co ol y orr));
        other \<leftarrow> rb_set_color c other;
        right \<leftarrow> rb_set_black (rb_right other);
        other \<leftarrow> (case other of RbNode c' l y r \<Rightarrow> Some (RbNode c' l y right) | RbNull \<Rightarrow> None);
        parent \<leftarrow> rb_rotate_left (RbNode RB_BLACK node x other);
        Some (Repaired parent)
      })"

fun rb_erase_right :: "'a rb_node \<Rightarrow> rb_color \<Rightarrow> 'a \<Rightarrow> 'a rb_node \<Rightarrow> 'a rb_repair option" where
  "rb_erase_right node c x RbNull = None"
| "rb_erase_right node c x (RbNode co ol y orr) =
     (if rb_black_or_null ol \<and> rb_black_or_null orr then Some (GoUp (RbNode c (RbNode RB_RED ol y orr) x node))
      else do {
        other \<leftarrow> (if rb_black_or_null ol then do {
                    orr \<leftarrow> rb_set_black orr;
                    rb_rotate_left (RbNode RB_RED ol y orr)
                  } else Some (RbNode co ol y orr));
        other \<leftarrow> rb_set_color c other;
        left \<leftarrow> rb_set_black (rb_left other);
        other \<leftarrow> (case other of RbNode c' l y r \<Rightarrow> Some (RbNode c' left y r) | RbNull \<Rightarrow> None);
        parent \<leftarrow> rb_rotate_right (RbNode RB_BLACK other x node);
        Some (Repaired parent)
      })"

text \<open>\<^verbatim>\<open>if (node) rb_set_black(node)\<close>\<close>

fun rb_blacken :: "'a rb_node \<Rightarrow> 'a rb_node" where
  "rb_blacken (RbNode c l x r) = RbNode RB_BLACK l x r"
| "rb_blacken RbNull = RbNull"

text \<open>
  \<^verbatim>\<open>__rb_erase_color\<close>. With a red sibling the parent is rotated first, which puts the sibling above it
  on the path; a node that is red in the end stops the loop.
\<close>

function rb_erase_color :: "'a rb_node \<Rightarrow> 'a rb_path \<Rightarrow> 'a rb_node option" where
  "rb_erase_color node [] = Some (rb_blacken node)"
| "rb_erase_color node (IsLeft c x other # p) =
     (if rb_is_red node then Some (rb_plug (rb_blacken node) (IsLeft c x other # p))
      else case other of
        RbNull \<Rightarrow> None
      | RbNode co ol y orr \<Rightarrow>
          (let (c, other, p) = (if co = RB_RED then (RB_RED, ol, IsLeft RB_BLACK y orr # p) else (c, other, p))
           in case rb_erase_left node c x other of
                None \<Rightarrow> None
              | Some (GoUp t) \<Rightarrow> rb_erase_color t p
              | Some (Repaired t) \<Rightarrow> Some (rb_blacken (rb_plug t p))))"
| "rb_erase_color node (IsRight c other x # p) =
     (if rb_is_red node then Some (rb_plug (rb_blacken node) (IsRight c other x # p))
      else case other of
        RbNull \<Rightarrow> None
      | RbNode co ol y orr \<Rightarrow>
          (let (c, other, p) = (if co = RB_RED then (RB_RED, orr, IsRight RB_BLACK ol y # p) else (c, other, p))
           in case rb_erase_right node c x other of
                None \<Rightarrow> None
              | Some (GoUp t) \<Rightarrow> rb_erase_color t p
              | Some (Repaired t) \<Rightarrow> Some (rb_blacken (rb_plug t p))))"
  by pat_completeness auto

lemma rb_erase_GoUp:
  "rb_erase_left node c x other = Some (GoUp t) \<Longrightarrow> rb_is_red t \<longleftrightarrow> c = RB_RED"
  "rb_erase_right node c x other = Some (GoUp t) \<Longrightarrow> rb_is_red t \<longleftrightarrow> c = RB_RED"
  by (cases other; auto split: if_splits bind_splits)+

termination rb_erase_color
  by (relation "measure (\<lambda>(t, p). 2 * length p + (if rb_is_red t then 0 else 1))")
    (auto dest!: rb_erase_GoUp split: if_splits)

text \<open>
  \<^verbatim>\<open>rb_erase\<close> of a node: the child that takes its place and the path below which a black node may be
  missing. A node with two children is replaced by its successor, which takes over its colour.
\<close>

fun rb_leftmost :: "'a rb_node \<Rightarrow> 'a rb_path \<Rightarrow> ('a rb_node \<times> 'a rb_path) option" where
  "rb_leftmost RbNull p = None"
| "rb_leftmost (RbNode c l x r) p =
     (if l = RbNull then Some (RbNode c l x r, p) else rb_leftmost l (IsLeft c x r # p))"

fun rb_rightmost :: "'a rb_node \<Rightarrow> 'a rb_path \<Rightarrow> ('a rb_node \<times> 'a rb_path) option" where
  "rb_rightmost RbNull p = None"
| "rb_rightmost (RbNode c l x r) p =
     (if r = RbNull then Some (RbNode c l x r, p) else rb_rightmost r (IsRight c l x # p))"

fun rb_entry :: "'a rb_node \<Rightarrow> 'a option" where
  "rb_entry RbNull = None"
| "rb_entry (RbNode c l x r) = Some x"

definition rb_unlink :: "rb_color \<Rightarrow> 'a rb_node \<Rightarrow> 'a rb_path \<Rightarrow> 'a rb_node option" where
  "rb_unlink c child p = (if c = RB_BLACK then rb_erase_color child p else Some (rb_plug child p))"

fun rb_erase :: "'a rb_node \<Rightarrow> 'a rb_path \<Rightarrow> 'a rb_node option" where
  "rb_erase RbNull p = None"
| "rb_erase (RbNode c l x r) p =
     (if l = RbNull then rb_unlink c r p
      else if r = RbNull then rb_unlink c l p
      else case rb_leftmost r [] of
        Some (RbNode cs sl y sr, sp) \<Rightarrow> rb_unlink cs sr (sp @ IsRight c l y # p)
      | _ \<Rightarrow> None)"

section \<open>Neighbours\<close>

definition rb_first :: "'a rb_node \<Rightarrow> 'a option" where
  "rb_first root = do { (n, _) \<leftarrow> rb_leftmost root []; rb_entry n }"

definition rb_last :: "'a rb_node \<Rightarrow> 'a option" where
  "rb_last root = do { (n, _) \<leftarrow> rb_rightmost root []; rb_entry n }"

fun rb_up_next :: "'a rb_path \<Rightarrow> 'a option" where
  "rb_up_next [] = None"
| "rb_up_next (IsLeft c x r # p) = Some x"
| "rb_up_next (IsRight c l x # p) = rb_up_next p"

fun rb_up_prev :: "'a rb_path \<Rightarrow> 'a option" where
  "rb_up_prev [] = None"
| "rb_up_prev (IsRight c l x # p) = Some x"
| "rb_up_prev (IsLeft c x r # p) = rb_up_prev p"

fun rb_next :: "'a rb_node \<Rightarrow> 'a rb_path \<Rightarrow> 'a option" where
  "rb_next (RbNode c l x r) p = (if r \<noteq> RbNull then rb_first r else rb_up_next p)"
| "rb_next RbNull p = None"

fun rb_prev :: "'a rb_node \<Rightarrow> 'a rb_path \<Rightarrow> 'a option" where
  "rb_prev (RbNode c l x r) p = (if l \<noteq> RbNull then rb_last l else rb_up_prev p)"
| "rb_prev RbNull p = None"

fun rb_replace_node :: "'a rb_node \<Rightarrow> 'a rb_path \<Rightarrow> 'a \<Rightarrow> 'a rb_node option" where
  "rb_replace_node RbNull p y = None"
| "rb_replace_node (RbNode c l x r) p y = Some (rb_plug (RbNode c l y r) p)"

section \<open>The sequence of the entries\<close>

lemma rb_plug_append [simp]: "rb_plug t (p @ p') = rb_plug (rb_plug t p) p'"
  by (induction t p rule: rb_plug.induct) simp_all

fun inorder :: "'a rb_node \<Rightarrow> 'a list" where
  "inorder RbNull = []"
| "inorder (RbNode c l x r) = inorder l @ x # inorder r"

fun before :: "'a rb_path \<Rightarrow> 'a list" where
  "before [] = []"
| "before (IsLeft c x r # p) = before p"
| "before (IsRight c l x # p) = before p @ inorder l @ [x]"

fun behind :: "'a rb_path \<Rightarrow> 'a list" where
  "behind [] = []"
| "behind (IsLeft c x r # p) = x # inorder r @ behind p"
| "behind (IsRight c l x # p) = behind p"

lemma inorder_plug [simp]: "inorder (rb_plug t p) = before p @ inorder t @ behind p"
  by (induction t p rule: rb_plug.induct) simp_all

lemma before_append [simp]: "before (p @ p') = before p' @ before p"
  by (induction p rule: before.induct) simp_all

lemma behind_append [simp]: "behind (p @ p') = behind p @ behind p'"
  by (induction p rule: behind.induct) simp_all

lemma inorder_set_color [simp]: "rb_set_color c t = Some t' \<Longrightarrow> inorder t' = inorder t"
  by (cases t) auto

lemma inorder_blacken [simp]: "inorder (rb_blacken t) = inorder t"
  by (cases t) simp_all

lemma inorder_rotate_left: "rb_rotate_left t = Some t' \<Longrightarrow> inorder t' = inorder t"
  by (cases t rule: rb_rotate_left.cases) auto

lemma inorder_rotate_right: "rb_rotate_right t = Some t' \<Longrightarrow> inorder t' = inorder t"
  by (cases t rule: rb_rotate_right.cases) auto

lemmas inorder_rotate = inorder_rotate_left inorder_rotate_right

lemma inorder_insert_loop: "rb_insert_loop t p = Some t' \<Longrightarrow> inorder t' = before p @ inorder t @ behind p"
proof (induction t p arbitrary: t' rule: rb_insert_loop.induct)
  case (3 node f g rest)
  show ?case
  proof (cases "frame_color f = RB_RED")
    case True
    then show ?thesis
      using 3 by (cases f; cases g)
        (auto split: if_splits bind_splits dest!: inorder_rotate inorder_set_color)
  qed (use 3 in \<open>cases f; cases g; auto\<close>)
qed (auto split: if_splits)

fun repair_tree :: "'a rb_repair \<Rightarrow> 'a rb_node" where
  "repair_tree (GoUp t) = t"
| "repair_tree (Repaired t) = t"

lemma inorder_erase_left:
  "rb_erase_left node c x other = Some s \<Longrightarrow> inorder (repair_tree s) = inorder node @ x # inorder other"
proof (cases other)
  case (RbNode co ol y orr)
  assume "rb_erase_left node c x other = Some s"
  then show ?thesis unfolding RbNode
    by (cases ol; cases orr) (auto split: if_splits bind_splits)
qed simp

lemma inorder_erase_right:
  "rb_erase_right node c x other = Some s \<Longrightarrow> inorder (repair_tree s) = inorder other @ x # inorder node"
proof (cases other)
  case (RbNode co ol y orr)
  assume "rb_erase_right node c x other = Some s"
  then show ?thesis unfolding RbNode
    by (cases ol; cases orr) (auto split: if_splits bind_splits)
qed simp

lemma inorder_erase_color:
  "rb_erase_color t p = Some t' \<Longrightarrow> inorder t' = before p @ inorder t @ behind p"
proof (induction t p arbitrary: t' rule: rb_erase_color.induct)
  case (2 node c x other p)
  show ?case
  proof (cases other)
    case (RbNode co ol y orr)
    then show ?thesis
      using 2 by (cases "co = RB_RED")
        (auto simp del: rb_erase_left.simps split: if_splits option.splits rb_repair.splits dest!: inorder_erase_left)
  qed (use 2 in \<open>auto split: if_splits\<close>)
next
  case (3 node c other x p)
  show ?case
  proof (cases other)
    case (RbNode co ol y orr)
    then show ?thesis
      using 3 by (cases "co = RB_RED")
        (auto simp del: rb_erase_right.simps split: if_splits option.splits rb_repair.splits dest!: inorder_erase_right)
  qed (use 3 in \<open>auto split: if_splits\<close>)
qed auto

lemma leftmost_spec:
  assumes "t \<noteq> RbNull"
  shows "\<exists>c x r sp. rb_leftmost t p = Some (RbNode c RbNull x r, sp @ p) \<and> before sp = [] \<and>
    inorder t = x # inorder r @ behind sp \<and> rb_plug (RbNode c RbNull x r) sp = t"
  using assms
proof (induction t p rule: rb_leftmost.induct)
  case (2 c l x r p)
  show ?case
  proof (cases "l = RbNull")
    case False
    then obtain c' x' r' sp where s: "rb_leftmost l (IsLeft c x r # p) = Some (RbNode c' RbNull x' r', sp @ IsLeft c x r # p)"
        "before sp = []" "inorder l = x' # inorder r' @ behind sp" "rb_plug (RbNode c' RbNull x' r') sp = l"
      using 2 by blast
    have "rb_plug (RbNode c' RbNull x' r') (sp @ [IsLeft c x r]) = RbNode c l x r"
      using s(4) by (simp add: rb_plug_append)
    then show ?thesis using False s by (intro exI [of _ c'] exI [of _ x'] exI [of _ r'] exI [of _ "sp @ [IsLeft c x r]"]) simp
  qed (intro exI [of _ c] exI [of _ x] exI [of _ r] exI [of _ "[]"], simp)
qed simp

lemma inorder_unlink: "rb_unlink c t p = Some t' \<Longrightarrow> inorder t' = before p @ inorder t @ behind p"
  by (auto simp: rb_unlink_def inorder_erase_color split: if_splits)

lemma inorder_erase:
  assumes "rb_erase (RbNode c l x r) p = Some t'"
  shows "inorder t' = before p @ inorder l @ inorder r @ behind p"
proof (cases "l = RbNull \<or> r = RbNull")
  case True
  then show ?thesis using assms by (auto split: if_splits dest!: inorder_unlink)
next
  case False
  then obtain cs y sr sp where "rb_leftmost r [] = Some (RbNode cs RbNull y sr, sp)" "before sp = []"
      "inorder r = y # inorder sr @ behind sp"
    using leftmost_spec [of r "[]"] by auto
  then show ?thesis using assms False by (auto dest!: inorder_unlink)
qed

section \<open>Balance\<close>

fun black_height :: "'a rb_node \<Rightarrow> nat" where
  "black_height RbNull = 0"
| "black_height (RbNode c l x r) = black_height l + (if c = RB_BLACK then 1 else 0)"

text \<open>No red node has a red child, and every way down meets the same number of black nodes.\<close>

fun balanced :: "'a rb_node \<Rightarrow> bool" where
  "balanced RbNull \<longleftrightarrow> True"
| "balanced (RbNode c l x r) \<longleftrightarrow> balanced l \<and> balanced r \<and> black_height l = black_height r \<and>
     (c = RB_RED \<longrightarrow> \<not> rb_is_red l \<and> \<not> rb_is_red r)"

definition rb_ok :: "'a rb_node \<Rightarrow> bool" where
  "rb_ok t \<longleftrightarrow> balanced t \<and> \<not> rb_is_red t"

fun sibling :: "'a rb_frame \<Rightarrow> 'a rb_node" where
  "sibling (IsLeft c x r) = r"
| "sibling (IsRight c l x) = l"

text \<open>Above the node there is a black one.\<close>

definition black_above :: "'a rb_path \<Rightarrow> bool" where
  "black_above p \<longleftrightarrow> p \<noteq> [] \<and> frame_color (hd p) = RB_BLACK"

text \<open>A place in a balanced tree for a subtree of black height \<open>h\<close>.\<close>

fun place_ok :: "nat \<Rightarrow> 'a rb_path \<Rightarrow> bool" where
  "place_ok h [] \<longleftrightarrow> True"
| "place_ok h (f # p) \<longleftrightarrow> balanced (sibling f) \<and> black_height (sibling f) = h \<and>
     (frame_color f = RB_RED \<longrightarrow> \<not> rb_is_red (sibling f) \<and> black_above p) \<and>
     place_ok (h + (if frame_color f = RB_BLACK then 1 else 0)) p"

lemma rb_color_cases [simp]: "c \<noteq> RB_RED \<longleftrightarrow> c = RB_BLACK" "c \<noteq> RB_BLACK \<longleftrightarrow> c = RB_RED"
  by (cases c; simp)+

lemma plug_ok:
  "balanced t \<Longrightarrow> place_ok (black_height t) p \<Longrightarrow> (rb_is_red t \<Longrightarrow> black_above p) \<Longrightarrow> rb_ok (rb_plug t p)"
proof (induction t p rule: rb_plug.induct)
  case (1 t)
  then show ?case by (auto simp: rb_ok_def black_above_def)
next
  case (2 t c x r p)
  then show ?case by (cases c) (auto simp: black_above_def)
next
  case (3 t c l x p)
  then show ?case by (cases c) (auto simp: black_above_def)
qed

lemma plug_not_null: "t \<noteq> RbNull \<Longrightarrow> rb_plug t p \<noteq> RbNull"
  by (induction t p rule: rb_plug.induct) simp_all

lemma rb_ok_red: "rb_is_red t \<longleftrightarrow> (\<exists>l x r. t = RbNode RB_RED l x r)"
  by (cases t) auto

lemma insert_loop_ok:
  "balanced t \<Longrightarrow> rb_is_red t \<Longrightarrow> place_ok (black_height t) p \<Longrightarrow>
   \<exists>t'. rb_insert_loop t p = Some t' \<and> balanced t' \<and> t' \<noteq> RbNull"
proof (induction t p rule: rb_insert_loop.induct)
  case (1 node)
  then show ?case by auto
next
  case (2 node f)
  then have "rb_ok (rb_plug node [f])" by (intro plug_ok) (auto simp: black_above_def)
  then show ?case using 2 by (cases f) (auto simp: rb_ok_def black_above_def)
next
  case (3 node f g rest)
  show ?case
  proof (cases "frame_color f = RB_RED")
    case False
    then have "rb_ok (rb_plug node (f # g # rest))" using 3 by (intro plug_ok) (auto simp: black_above_def)
    moreover have "rb_plug node (f # g # rest) \<noteq> RbNull" using 3(4) by (intro plug_not_null) auto
    ultimately show ?thesis using False by (auto simp: rb_ok_def)
  next
    case True
    obtain l x r where t: "node = RbNode RB_RED l x r" using 3(4) by (auto simp: rb_ok_red)
    have fin: "\<exists>t'. Some (rb_plug u rest) = Some t' \<and> balanced t' \<and> t' \<noteq> RbNull"
      if "balanced u" "u \<noteq> RbNull" "\<not> rb_is_red u" "place_ok (black_height u) rest" for u
      using plug_ok [of u rest] that plug_not_null by (auto simp: rb_ok_def)
    show ?thesis
    proof (cases "rb_is_red (sibling g)")
      case red: True
      then obtain ul ux ur where u: "sibling g = RbNode RB_RED ul ux ur" by (auto simp: rb_ok_red)
      show ?thesis
        using 3 True u by (cases g; cases f) (auto simp: t black_above_def)
    next
      case False
      then show ?thesis
        using 3(3,5) True fin by (cases g; cases f) (auto simp: t black_above_def)
    qed
  qed
qed

lemma erase_left_ok:
  assumes "balanced node" "balanced other" "\<not> rb_is_red node" "\<not> rb_is_red other" "black_height other = Suc (black_height node)"
  shows "\<exists>s. rb_erase_left node c x other = Some s \<and> (rb_is_red (repair_tree s) \<longleftrightarrow> c = RB_RED) \<and>
    (case s of
       GoUp t \<Rightarrow> balanced (rb_blacken t) \<and> black_height t = black_height node + (if c = RB_BLACK then 1 else 0)
     | Repaired t \<Rightarrow> balanced t \<and> black_height t = Suc (black_height node) + (if c = RB_BLACK then 1 else 0))"
proof -
  obtain ol y orr where other: "other = RbNode RB_BLACK ol y orr" using assms(4,5) by (cases other) auto
  show ?thesis using assms unfolding other by (cases ol; cases orr) (auto split: if_splits)
qed

lemma erase_right_ok:
  assumes "balanced node" "balanced other" "\<not> rb_is_red node" "\<not> rb_is_red other" "black_height other = Suc (black_height node)"
  shows "\<exists>s. rb_erase_right node c x other = Some s \<and> (rb_is_red (repair_tree s) \<longleftrightarrow> c = RB_RED) \<and>
    (case s of
       GoUp t \<Rightarrow> balanced (rb_blacken t) \<and> black_height t = black_height node + (if c = RB_BLACK then 1 else 0)
     | Repaired t \<Rightarrow> balanced t \<and> black_height t = Suc (black_height node) + (if c = RB_BLACK then 1 else 0))"
proof -
  obtain ol y orr where other: "other = RbNode RB_BLACK ol y orr" using assms(4,5) by (cases other) auto
  show ?thesis using assms unfolding other by (cases ol; cases orr) (auto split: if_splits)
qed

lemma blacken_ok: "rb_ok t \<Longrightarrow> rb_ok (rb_blacken t)"
  by (cases t) (auto simp: rb_ok_def)

lemma blacken_black: "\<not> rb_is_red t \<Longrightarrow> rb_blacken t = t"
  by (cases t) auto

lemma blacken_red:
  assumes "balanced (rb_blacken t)" "rb_is_red t" "place_ok (Suc (black_height t)) p"
  shows "rb_ok (rb_plug (rb_blacken t) p)"
  using assms by (intro plug_ok) (auto simp: rb_ok_red)

text \<open>One round of the loop, on either side: \<open>p\<close> is the path above the parent.\<close>

definition repair_ok :: "nat \<Rightarrow> rb_color \<Rightarrow> 'a rb_repair \<Rightarrow> bool" where
  "repair_ok h c s \<longleftrightarrow> (rb_is_red (repair_tree s) \<longleftrightarrow> c = RB_RED) \<and>
    (case s of
       GoUp t \<Rightarrow> balanced (rb_blacken t) \<and> black_height t = h + (if c = RB_BLACK then 1 else 0)
     | Repaired t \<Rightarrow> balanced t \<and> black_height t = Suc h + (if c = RB_BLACK then 1 else 0))"

lemma erase_round_ok:
  assumes "repair_ok h c s" "place_ok (Suc h + (if c = RB_BLACK then 1 else 0)) p" "c = RB_RED \<Longrightarrow> black_above p"
    and "\<And>t. s = GoUp t \<Longrightarrow> balanced (rb_blacken t) \<Longrightarrow> place_ok (Suc (black_height t)) p \<Longrightarrow>
          \<exists>t'. rb_erase_color t p = Some t' \<and> rb_ok t'"
  shows "\<exists>t'. (case s of GoUp t \<Rightarrow> rb_erase_color t p | Repaired t \<Rightarrow> Some (rb_blacken (rb_plug t p))) = Some t' \<and> rb_ok t'"
proof (cases s)
  case (GoUp t)
  then show ?thesis using assms(1,2) assms(4) [of t] by (simp add: repair_ok_def)
next
  case (Repaired t)
  then have "rb_ok (rb_plug t p)" using plug_ok [of t p] assms(1-3) by (auto simp: repair_ok_def)
  then show ?thesis by (simp add: Repaired blacken_ok)
qed

lemma erase_color_ok:
  "balanced (rb_blacken t) \<Longrightarrow> place_ok (Suc (black_height t)) p \<Longrightarrow> \<exists>t'. rb_erase_color t p = Some t' \<and> rb_ok t'"
proof (induction t p rule: rb_erase_color.induct)
  case (1 node)
  then show ?case by (cases node) (auto simp: rb_ok_def)
next
  case (2 node c x other p)
  show ?case
  proof (cases "rb_is_red node")
    case True
    then show ?thesis using blacken_red [OF 2(2) True 2(3)] by simp
  next
    case False
    obtain co ol y orr where other: "other = RbNode co ol y orr" using 2(3) by (cases other) auto
    let ?c = "if co = RB_RED then RB_RED else c" and ?o = "if co = RB_RED then ol else other"
      and ?p = "if co = RB_RED then IsLeft RB_BLACK y orr # p else p"
    have place: "balanced ?o" "\<not> rb_is_red ?o" "black_height ?o = Suc (black_height node)"
        "place_ok (Suc (black_height node) + (if ?c = RB_BLACK then 1 else 0)) ?p" "?c = RB_RED \<Longrightarrow> black_above ?p"
      using 2(3) by (auto simp: other black_above_def split: if_splits)
    obtain s where s: "rb_erase_left node ?c x ?o = Some s" "repair_ok (black_height node) ?c s"
      using erase_left_ok [of node ?o ?c x] place(1-3) 2(2) False unfolding repair_ok_def by (auto simp: blacken_black)
    have "rb_erase_color node (IsLeft c x other # p) =
        (case s of GoUp t \<Rightarrow> rb_erase_color t ?p | Repaired t \<Rightarrow> Some (rb_blacken (rb_plug t ?p)))"
      using False s(1) unfolding other by (cases co) (simp_all del: rb_erase_left.simps)
    moreover have "\<exists>t'. rb_erase_color t ?p = Some t' \<and> rb_ok t'"
      if "s = GoUp t" "balanced (rb_blacken t)" "place_ok (Suc (black_height t)) ?p" for t
      using 2(1) [OF False other refl] s(1) that by (cases co) (simp_all add: other del: rb_erase_left.simps)
    ultimately show ?thesis using erase_round_ok [OF s(2) place(4,5)] by simp
  qed
next
  case (3 node c other x p)
  show ?case
  proof (cases "rb_is_red node")
    case True
    then show ?thesis using blacken_red [OF 3(2) True 3(3)] by simp
  next
    case False
    obtain co ol y orr where other: "other = RbNode co ol y orr" using 3(3) by (cases other) auto
    let ?c = "if co = RB_RED then RB_RED else c" and ?o = "if co = RB_RED then orr else other"
      and ?p = "if co = RB_RED then IsRight RB_BLACK ol y # p else p"
    have place: "balanced ?o" "\<not> rb_is_red ?o" "black_height ?o = Suc (black_height node)"
        "place_ok (Suc (black_height node) + (if ?c = RB_BLACK then 1 else 0)) ?p" "?c = RB_RED \<Longrightarrow> black_above ?p"
      using 3(3) by (auto simp: other black_above_def split: if_splits)
    obtain s where s: "rb_erase_right node ?c x ?o = Some s" "repair_ok (black_height node) ?c s"
      using erase_right_ok [of node ?o ?c x] place(1-3) 3(2) False unfolding repair_ok_def by (auto simp: blacken_black)
    have "rb_erase_color node (IsRight c other x # p) =
        (case s of GoUp t \<Rightarrow> rb_erase_color t ?p | Repaired t \<Rightarrow> Some (rb_blacken (rb_plug t ?p)))"
      using False s(1) unfolding other by (cases co) (simp_all del: rb_erase_right.simps)
    moreover have "\<exists>t'. rb_erase_color t ?p = Some t' \<and> rb_ok t'"
      if "s = GoUp t" "balanced (rb_blacken t)" "place_ok (Suc (black_height t)) ?p" for t
      using 3(1) [OF False other refl] s(1) that by (cases co) (simp_all add: other del: rb_erase_right.simps)
    ultimately show ?thesis using erase_round_ok [OF s(2) place(4,5)] by simp
  qed
qed

section \<open>Pointers\<close>

lemma rb_pointer_None: "x \<notin> set (inorder t) \<Longrightarrow> rb_pointer x t p = None"
  by (induction x t p rule: rb_pointer.induct) auto

lemma pointer_spec:
  "x \<in> set (inorder t) \<Longrightarrow>
   \<exists>c l r p'. rb_pointer x t p = Some (RbNode c l x r, p' @ p) \<and> rb_plug (RbNode c l x r) p' = t"
proof (induction x t p rule: rb_pointer.induct)
  case (2 x c l y r p)
  consider "x = y" | "x \<noteq> y" "x \<in> set (inorder l)" | "x \<noteq> y" "x \<notin> set (inorder l)" "x \<in> set (inorder r)"
    using 2(3) by auto
  then show ?case
  proof cases
    case 1
    then show ?thesis by (intro exI [of _ c] exI [of _ l] exI [of _ r] exI [of _ "[]"]) simp
  next
    case c2: 2
    then obtain c' l' r' p' where "rb_pointer x l (IsLeft c y r # p) = Some (RbNode c' l' x r', p' @ IsLeft c y r # p)"
        "rb_plug (RbNode c' l' x r') p' = l"
      using 2(1) by blast
    then show ?thesis using c2 by (intro exI [of _ c'] exI [of _ l'] exI [of _ r'] exI [of _ "p' @ [IsLeft c y r]"]) simp
  next
    case c3: 3
    then obtain c' l' r' p' where "rb_pointer x r (IsRight c l y # p) = Some (RbNode c' l' x r', p' @ IsRight c l y # p)"
        "rb_plug (RbNode c' l' x r') p' = r"
      using 2(2) rb_pointer_None [of x l] by fastforce
    then show ?thesis using c3 rb_pointer_None [of x l]
      by (intro exI [of _ c'] exI [of _ l'] exI [of _ r'] exI [of _ "p' @ [IsRight c l y]"]) simp
  qed
qed simp

lemma plug_okD: "rb_ok (rb_plug t p) \<Longrightarrow> balanced t \<and> place_ok (black_height t) p \<and> (rb_is_red t \<longrightarrow> black_above p)"
proof (induction t p rule: rb_plug.induct)
  case (1 t)
  then show ?case by (simp add: rb_ok_def)
next
  case (2 t c x r p)
  then show ?case by (cases c) (auto simp: black_above_def)
next
  case (3 t c l x p)
  then show ?case by (cases c) (auto simp: black_above_def)
qed

lemma rb_unlink_ok:
  assumes "balanced child" "c = RB_RED \<Longrightarrow> \<not> rb_is_red child" "place_ok (black_height child + (if c = RB_BLACK then 1 else 0)) p"
  shows "\<exists>t'. rb_unlink c child p = Some t' \<and> rb_ok t'"
proof (cases c)
  case RB_RED
  then show ?thesis using assms plug_ok [of child p] by (simp add: rb_unlink_def)
next
  case RB_BLACK
  have "balanced (rb_blacken child)" using assms(1) by (cases child) auto
  then show ?thesis using assms(3) RB_BLACK erase_color_ok [of child p] by (simp add: rb_unlink_def)
qed

lemma place_entry: "place_ok h (sp @ IsRight c l x # p) \<longleftrightarrow> place_ok h (sp @ IsRight c l y # p)"
  by (induction sp arbitrary: h) (auto simp: black_above_def hd_append)

lemma rb_erase_ok:
  assumes "rb_ok (rb_plug (RbNode c l x r) p)"
  shows "\<exists>t'. rb_erase (RbNode c l x r) p = Some t' \<and> rb_ok t'"
proof (cases "l = RbNull \<or> r = RbNull")
  case True
  have b: "balanced (RbNode c l x r)" "place_ok (black_height (RbNode c l x r)) p" using plug_okD [OF assms] by blast+
  show ?thesis
  proof (cases "l = RbNull")
    case True
    then show ?thesis using b rb_unlink_ok [of r c p] by simp
  next
    case False
    then show ?thesis using b True rb_unlink_ok [of l c p] by simp
  qed
next
  case False
  then obtain cs y sr sp where s: "rb_leftmost r [] = Some (RbNode cs RbNull y sr, sp)" "rb_plug (RbNode cs RbNull y sr) sp = r"
    using leftmost_spec [of r "[]"] by auto
  then have "rb_ok (rb_plug (RbNode cs RbNull y sr) (sp @ IsRight c l x # p))" using assms by (simp only: rb_plug_append rb_plug.simps)
  then have "balanced (RbNode cs RbNull y sr)" "place_ok (black_height (RbNode cs RbNull y sr)) (sp @ IsRight c l y # p)"
    using plug_okD [of "RbNode cs RbNull y sr" "sp @ IsRight c l x # p"] place_entry [of _ sp c l x p y] by blast+
  then have "\<exists>t'. rb_unlink cs sr (sp @ IsRight c l y # p) = Some t' \<and> rb_ok t'" by (intro rb_unlink_ok) simp_all
  then show ?thesis using False s(1) by simp
qed

section \<open>Neighbours in the sequence\<close>

definition head_of :: "'a list \<Rightarrow> 'a option" where
  "head_of xs = (case xs of [] \<Rightarrow> None | x # _ \<Rightarrow> Some x)"

lemma inorder_Nil [simp]: "inorder t = [] \<longleftrightarrow> t = RbNull"
  by (cases t) auto

lemma rb_first_spec: "rb_first t = head_of (inorder t)"
  using leftmost_spec [of t "[]"] by (cases "t = RbNull") (auto simp: rb_first_def head_of_def)

lemma rightmost_last: "\<exists>c l x sp. t \<noteq> RbNull \<longrightarrow> rb_rightmost t p = Some (RbNode c l x RbNull, sp) \<and> last (inorder t) = x"
  by (induction t p rule: rb_rightmost.induct) (auto split: if_splits)

lemma rb_last_spec: "rb_last t = (if t = RbNull then None else Some (last (inorder t)))"
  using rightmost_last [of t "[]"] by (auto simp: rb_last_def)

lemma up_next_spec: "rb_up_next p = head_of (behind p)"
  by (induction p rule: rb_up_next.induct) (auto simp: head_of_def)

lemma up_prev_spec: "rb_up_prev p = (if before p = [] then None else Some (last (before p)))"
  by (induction p rule: rb_up_prev.induct) auto

lemma rb_next_spec: "rb_next (RbNode c l x r) p = head_of (inorder r @ behind p)"
  by (cases "r = RbNull") (auto simp: rb_first_spec up_next_spec head_of_def split: list.splits)

lemma rb_prev_spec:
  "rb_prev (RbNode c l x r) p = (if before p @ inorder l = [] then None else Some (last (before p @ inorder l)))"
  by (cases "l = RbNull") (auto simp: rb_last_spec up_prev_spec)

section \<open>Correctness\<close>

fun rb_height :: "'a rb_node \<Rightarrow> nat" where
  "rb_height RbNull = 0"
| "rb_height (RbNode c l x r) = Suc (max (rb_height l) (rb_height r))"

lemma height_black:
  "balanced t \<Longrightarrow> rb_height t \<le> 2 * black_height t + (if rb_is_red t then 1 else 0)"
proof (induction t)
  case (RbNode c l x r)
  then show ?case by (cases c) (auto split: if_splits)
qed simp

lemma size_black: "balanced t \<Longrightarrow> 2 ^ black_height t \<le> Suc (length (inorder t))"
proof (induction t)
  case (RbNode c l x r)
  then show ?case by (cases c) auto
qed simp

lemma erase_pointer:
  assumes "rb_ok t" "x \<in> set (inorder t)" "distinct (inorder t)"
  shows "\<exists>node p t'. rb_pointer x t [] = Some (node, p) \<and> rb_erase node p = Some t' \<and> rb_ok t' \<and>
     inorder t' = removeAll x (inorder t)"
proof -
  obtain c l r p where p: "rb_pointer x t [] = Some (RbNode c l x r, p)" "rb_plug (RbNode c l x r) p = t"
    using pointer_spec [OF assms(2), of "[]"] by auto
  then obtain t' where t': "rb_erase (RbNode c l x r) p = Some t'" "rb_ok t'"
    using rb_erase_ok [of c l x r p] assms(1) by auto
  have "inorder t = before p @ inorder l @ x # inorder r @ behind p" using p(2) by auto
  then have "removeAll x (inorder t) = before p @ inorder l @ inorder r @ behind p"
    using assms(3) by (simp add: removeAll_id)
  then show ?thesis using p(1) t' inorder_erase [OF t'(1)] by auto
qed

lemma insert_place:
  assumes "rb_ok t" "rb_plug RbNull p = t"
  shows "\<exists>t'. rb_insert_color (rb_link_node x) p = Some t' \<and> rb_ok t' \<and> inorder t' = before p @ x # behind p"
proof -
  have "place_ok 0 p" using plug_okD [of RbNull p] assms by simp
  then obtain root where root: "rb_insert_loop (rb_link_node x) p = Some root" "balanced root" "root \<noteq> RbNull"
    using insert_loop_ok [of "rb_link_node x" p] by (auto simp: rb_link_node_def)
  then obtain c l y r where y: "root = RbNode c l y r" by (cases root) auto
  have "inorder root = before p @ x # behind p" using inorder_insert_loop [OF root(1)] by (simp add: rb_link_node_def)
  then show ?thesis using root y by (auto simp: rb_insert_color_def rb_ok_def)
qed

text \<open>
  C14. Linking a node at an empty place of a red-black tree and rebalancing never dereferences a
  null pointer. The sequence of the entries is the old one with the new entry at that place, and
  the tree is a red-black tree again.
\<close>

theorem rb_insert_correct:
  assumes "rb_ok t" "rb_plug RbNull p = t"
  shows "inorder t = before p @ behind p \<and>
     (\<exists>t'. rb_insert_color (rb_link_node x) p = Some t' \<and> rb_ok t' \<and> inorder t' = before p @ x # behind p)"
  using insert_place [OF assms] assms(2) by auto

definition rb_sample :: "nat rb_node" where
  "rb_sample = RbNode RB_BLACK (RbNode RB_RED RbNull 1 RbNull) 2 (RbNode RB_RED RbNull 5 RbNull)"

theorem rb_insert_correct_witness:
  "rb_plug RbNull [IsLeft RB_RED 5 RbNull, IsRight RB_BLACK (RbNode RB_RED RbNull 1 RbNull) 2] = rb_sample \<and>
   (\<exists>t'. rb_insert_color (rb_link_node (4 :: nat)) [IsLeft RB_RED 5 RbNull, IsRight RB_BLACK (RbNode RB_RED RbNull 1 RbNull) 2] = Some t' \<and>
     inorder t' = [1, 2, 4, 5])"
proof -
  have "rb_ok rb_sample" by (simp add: rb_ok_def rb_sample_def)
  moreover have "rb_plug RbNull [IsLeft RB_RED 5 RbNull, IsRight RB_BLACK (RbNode RB_RED RbNull 1 RbNull) 2] = rb_sample"
    by (simp add: rb_sample_def)
  ultimately show ?thesis
    using rb_insert_correct [of rb_sample "[IsLeft RB_RED 5 RbNull, IsRight RB_BLACK (RbNode RB_RED RbNull 1 RbNull) 2]" 4] by auto
qed

text \<open>
  C15. Removing a node from a red-black tree never dereferences a null pointer, takes exactly its
  entry out of the sequence and leaves a red-black tree; a walk down such a tree takes at most
  twice the logarithm of the number of entries.
\<close>

theorem rb_erase_correct:
  assumes "rb_ok t" "x \<in> set (inorder t)" "distinct (inorder t)"
  shows "\<exists>node p t'. rb_pointer x t [] = Some (node, p) \<and> rb_erase node p = Some t' \<and> rb_ok t' \<and>
     inorder t' = removeAll x (inorder t) \<and> 2 ^ ((rb_height t' + 1) div 2) \<le> Suc (length (inorder t'))"
proof -
  obtain node p t' where t': "rb_pointer x t [] = Some (node, p)" "rb_erase node p = Some t'" "rb_ok t'"
      "inorder t' = removeAll x (inorder t)"
    using erase_pointer [OF assms] by blast
  have "(rb_height t' + 1) div 2 \<le> black_height t'" using height_black [of t'] t'(3) by (simp add: rb_ok_def)
  then have "2 ^ ((rb_height t' + 1) div 2) \<le> (2 :: nat) ^ black_height t'" by (rule power_increasing) simp
  also have "\<dots> \<le> Suc (length (inorder t'))" using size_black [of t'] t'(3) by (simp add: rb_ok_def)
  finally show ?thesis using t' by blast
qed

theorem rb_erase_correct_witness:
  "\<exists>node p t'. rb_pointer 2 rb_sample [] = Some (node, p) \<and> rb_erase node p = Some t' \<and> inorder t' = [1, 5]"
  using rb_erase_correct [of rb_sample 2] by (auto simp: rb_ok_def rb_sample_def)

end
