(* ===== verification/Elevator_Rb.thy ===== *)
theory Elevator_Rb
  imports Rbtree Blk
begin

text \<open>
  The trees of requests, sorted by their first sector, that \<^verbatim>\<open>block/elevator.c\<close> offers to the I/O
  schedulers: \<^verbatim>\<open>elv_rb_add\<close>, \<^verbatim>\<open>elv_rb_del\<close>, \<^verbatim>\<open>elv_rb_find\<close> and the neighbours of a request. The
  lemmas say what they do to the sequence of the requests in a tree.
\<close>

section \<open>Operations\<close>

text \<open>The walk of \<^verbatim>\<open>elv_rb_add\<close>: the request at the same sector, or the place for the new one.\<close>

fun elv_rb_walk ::
    "(rqp \<Rightarrow> request) \<Rightarrow> rqp \<Rightarrow> rqp rb_node \<Rightarrow> rqp rb_path \<Rightarrow> rqp + rqp rb_path" where
  "elv_rb_walk mem rq RbNull p = Inr p"
| "elv_rb_walk mem rq (RbNode c l y r) p =
     (if blk_rq_pos (mem rq) < blk_rq_pos (mem y) then elv_rb_walk mem rq l (IsLeft c y r # p)
      else if blk_rq_pos (mem rq) > blk_rq_pos (mem y) then elv_rb_walk mem rq r (IsRight c l y # p)
      else Inl y)"

definition elv_rb_add ::
    "(rqp \<Rightarrow> request) \<Rightarrow> rqp rb_node \<Rightarrow> rqp \<Rightarrow> (rqp option \<times> rqp rb_node) option" where
  "elv_rb_add mem root rq =
     (case elv_rb_walk mem rq root [] of
        Inl alias \<Rightarrow> Some (Some alias, root)
      | Inr p \<Rightarrow> do { root \<leftarrow> rb_insert_color (rb_link_node rq) p; Some (None, root) })"

text \<open>A request that is on no tree has an empty node, which is a bug in \<^verbatim>\<open>elv_rb_del\<close>.\<close>

definition elv_rb_del :: "rqp rb_node \<Rightarrow> rqp \<Rightarrow> rqp rb_node option" where
  "elv_rb_del root rq = do { (node, p) \<leftarrow> rb_pointer rq root []; rb_erase node p }"

fun elv_rb_find :: "(rqp \<Rightarrow> request) \<Rightarrow> rqp rb_node \<Rightarrow> sector_t \<Rightarrow> rqp option" where
  "elv_rb_find mem RbNull sec = None"
| "elv_rb_find mem (RbNode c l y r) sec =
     (if sec < blk_rq_pos (mem y) then elv_rb_find mem l sec
      else if sec > blk_rq_pos (mem y) then elv_rb_find mem r sec
      else Some y)"

text \<open>The neighbours; \<^verbatim>\<open>rb_next\<close> and \<^verbatim>\<open>rb_prev\<close> of an empty node are null.\<close>

definition elv_rb_former_request :: "rqp rb_node \<Rightarrow> rqp \<Rightarrow> rqp option" where
  "elv_rb_former_request root rq = do { (node, p) \<leftarrow> rb_pointer rq root []; rb_prev node p }"

definition elv_rb_latter_request :: "rqp rb_node \<Rightarrow> rqp \<Rightarrow> rqp option" where
  "elv_rb_latter_request root rq = do { (node, p) \<leftarrow> rb_pointer rq root []; rb_next node p }"

section \<open>What they do to the sequence\<close>

text \<open>Requests in strictly ascending order of their first sectors.\<close>

definition ascending :: "(rqp \<Rightarrow> request) \<Rightarrow> rqp list \<Rightarrow> bool" where
  "ascending mem xs \<longleftrightarrow> sorted_wrt (\<lambda>x y. blk_rq_pos (mem x) < blk_rq_pos (mem y)) xs"

definition tree_ok :: "(rqp \<Rightarrow> request) \<Rightarrow> rqp rb_node \<Rightarrow> bool" where
  "tree_ok mem t \<longleftrightarrow> rb_ok t \<and> ascending mem (inorder t)"

lemma ascending_distinct: "ascending mem xs \<Longrightarrow> distinct xs"
  by (induction xs) (auto simp: ascending_def)

lemma ascending_removeAll: "ascending mem xs \<Longrightarrow> ascending mem (removeAll x xs)"
  unfolding ascending_def removeAll_filter_not_eq by (rule sorted_wrt_filter)

lemma ascending_cong:
  "ascending mem xs \<Longrightarrow> (\<And>x. x \<in> set xs \<Longrightarrow> blk_rq_pos (mem' x) = blk_rq_pos (mem x)) \<Longrightarrow> ascending mem' xs"
  unfolding ascending_def by (rule sorted_wrt_mono_rel) auto

lemma walk_alias:
  "elv_rb_walk mem rq t p = Inl y \<Longrightarrow> y \<in> set (inorder t) \<and> blk_rq_pos (mem y) = blk_rq_pos (mem rq)"
proof (induction mem rq t p rule: elv_rb_walk.induct)
  case (2 mem rq c l y' r p)
  consider "blk_rq_pos (mem rq) < blk_rq_pos (mem y')" | "blk_rq_pos (mem y') < blk_rq_pos (mem rq)" | "blk_rq_pos (mem rq) = blk_rq_pos (mem y')"
    by (rule linorder_cases)
  then show ?case
  proof cases
    case 1
    then have "elv_rb_walk mem rq l (IsLeft c y' r # p) = Inl y" using 2(3) by simp
    from 2(1) [OF 1 this] show ?thesis by auto
  next
    case c2: 2
    then have less: "\<not> blk_rq_pos (mem rq) < blk_rq_pos (mem y')" by (rule order_less_not_sym)
    then have "elv_rb_walk mem rq r (IsRight c l y' # p) = Inl y" using 2(3) c2 by simp
    from 2(2) [OF less c2 this] show ?thesis by auto
  next
    case 3
    then show ?thesis using 2(3) by simp
  qed
qed simp

lemma ascending_mid:
  "ascending mem (xs @ y # ys) \<longleftrightarrow> ascending mem xs \<and> ascending mem ys \<and>
     (\<forall>x \<in> set xs. blk_rq_pos (mem x) < blk_rq_pos (mem y)) \<and> (\<forall>z \<in> set ys. blk_rq_pos (mem y) < blk_rq_pos (mem z))"
proof -
  have "blk_rq_pos (mem x) < blk_rq_pos (mem z)"
    if "blk_rq_pos (mem x) < blk_rq_pos (mem y)" "blk_rq_pos (mem y) < blk_rq_pos (mem z)" for x z
    using that by (rule less_trans)
  then show ?thesis unfolding ascending_def sorted_wrt_append sorted_wrt.simps list.set ball_simps by blast
qed

lemma ascending_inj:
  assumes "ascending mem xs" "x \<in> set xs" "y \<in> set xs" "blk_rq_pos (mem x) = blk_rq_pos (mem y)"
  shows "x = y"
proof (rule ccontr)
  assume "x \<noteq> y"
  obtain as bs where xs: "xs = as @ x # bs" using assms(2) by (metis split_list)
  then have "y \<in> set as \<or> y \<in> set bs" using assms(3) \<open>x \<noteq> y\<close> by auto
  then show False using assms(1,4) unfolding xs ascending_mid by auto
qed

lemma walk_place:
  "elv_rb_walk mem rq t p = Inr p' \<Longrightarrow> ascending mem (inorder t) \<Longrightarrow>
   \<exists>a. p' = a @ p \<and> rb_plug RbNull a = t \<and> (\<forall>x \<in> set (before a). blk_rq_pos (mem x) < blk_rq_pos (mem rq)) \<and>
     (\<forall>x \<in> set (behind a). blk_rq_pos (mem rq) < blk_rq_pos (mem x))"
proof (induction mem rq t p rule: elv_rb_walk.induct)
  case (2 mem rq c l y r p)
  have asc: "ascending mem (inorder l)" "ascending mem (inorder r)"
      "\<forall>x \<in> set (inorder l). blk_rq_pos (mem x) < blk_rq_pos (mem y)" "\<forall>x \<in> set (inorder r). blk_rq_pos (mem y) < blk_rq_pos (mem x)"
    using 2(4) by (simp_all add: ascending_mid)
  consider "blk_rq_pos (mem rq) < blk_rq_pos (mem y)" | "blk_rq_pos (mem y) < blk_rq_pos (mem rq)" | "blk_rq_pos (mem rq) = blk_rq_pos (mem y)"
    by (rule linorder_cases)
  then show ?case
  proof cases
    case 1
    then have "elv_rb_walk mem rq l (IsLeft c y r # p) = Inr p'" using 2(3) by simp
    from 2(1) [OF 1 this asc(1)] obtain a where a: "p' = a @ IsLeft c y r # p" "rb_plug RbNull a = l"
        "\<forall>x \<in> set (before a). blk_rq_pos (mem x) < blk_rq_pos (mem rq)" "\<forall>x \<in> set (behind a). blk_rq_pos (mem rq) < blk_rq_pos (mem x)"
      by blast
    have "\<forall>x \<in> set (inorder r). blk_rq_pos (mem rq) < blk_rq_pos (mem x)" using 1 asc(4) less_trans by blast
    then show ?thesis using a 1 by (intro exI [of _ "a @ [IsLeft c y r]"]) (simp add: ball_Un)
  next
    case c2: 2
    then have less: "\<not> blk_rq_pos (mem rq) < blk_rq_pos (mem y)" by (rule order_less_not_sym)
    then have "elv_rb_walk mem rq r (IsRight c l y # p) = Inr p'" using 2(3) c2 by simp
    from 2(2) [OF less c2 this asc(2)] obtain a where a: "p' = a @ IsRight c l y # p" "rb_plug RbNull a = r"
        "\<forall>x \<in> set (before a). blk_rq_pos (mem x) < blk_rq_pos (mem rq)" "\<forall>x \<in> set (behind a). blk_rq_pos (mem rq) < blk_rq_pos (mem x)"
      by blast
    have "\<forall>x \<in> set (inorder l). blk_rq_pos (mem x) < blk_rq_pos (mem rq)" using c2 asc(3) less_trans by blast
    then show ?thesis using a c2 by (intro exI [of _ "a @ [IsRight c l y]"]) (simp add: ball_Un)
  next
    case 3
    then show ?thesis using 2(3) by simp
  qed
qed simp

lemma rb_add_spec:
  assumes "tree_ok mem t"
  shows "(\<exists>y. elv_rb_add mem t rq = Some (Some y, t) \<and> y \<in> set (inorder t) \<and> blk_rq_pos (mem y) = blk_rq_pos (mem rq)) \<or>
     (\<exists>t' xs ys. elv_rb_add mem t rq = Some (None, t') \<and> inorder t = xs @ ys \<and> inorder t' = xs @ rq # ys \<and> tree_ok mem t')"
proof (cases "elv_rb_walk mem rq t []")
  case (Inl y)
  then show ?thesis using walk_alias [OF Inl] by (simp add: elv_rb_add_def)
next
  case (Inr p)
  have asc: "rb_ok t" "ascending mem (inorder t)" using assms by (simp_all add: tree_ok_def)
  obtain p: "rb_plug RbNull p = t" "\<forall>x \<in> set (before p). blk_rq_pos (mem x) < blk_rq_pos (mem rq)"
      "\<forall>x \<in> set (behind p). blk_rq_pos (mem rq) < blk_rq_pos (mem x)"
    using walk_place [OF Inr asc(2)] by auto
  obtain t' where t': "rb_insert_color (rb_link_node rq) p = Some t'" "rb_ok t'" "inorder t' = before p @ rq # behind p"
    using insert_place [OF asc(1) p(1)] by blast
  have seq: "inorder t = before p @ behind p" using p(1) by auto
  then have "ascending mem (before p)" "ascending mem (behind p)"
    using asc(2) by (auto simp: ascending_def sorted_wrt_append)
  then have "tree_ok mem t'" using t'(2,3) p(2,3) by (simp add: tree_ok_def ascending_mid)
  then show ?thesis using Inr t' seq by (simp add: elv_rb_add_def) blast
qed

lemma rb_del_spec:
  assumes "tree_ok mem t" "rq \<in> set (inorder t)"
  shows "\<exists>t'. elv_rb_del t rq = Some t' \<and> tree_ok mem t' \<and> inorder t' = removeAll rq (inorder t)"
  using erase_pointer [of t rq] assms ascending_distinct [of mem "inorder t"] ascending_removeAll [of mem "inorder t" rq]
  by (auto simp: tree_ok_def elv_rb_del_def)

lemma rb_latter_spec:
  assumes "inorder t = xs @ rq # ys" "distinct (inorder t)"
  shows "elv_rb_latter_request t rq = head_of ys"
proof -
  obtain c l r p where p: "rb_pointer rq t [] = Some (RbNode c l rq r, p)" "rb_plug (RbNode c l rq r) p = t"
    using pointer_spec [of rq t "[]"] assms(1) by auto
  have "inorder t = (before p @ inorder l) @ rq # (inorder r @ behind p)" using p(2) by auto
  moreover have "rq \<notin> set xs" "rq \<notin> set ys" using assms by auto
  ultimately have "inorder r @ behind p = ys"
    using append_Cons_eq_iff [of rq xs ys "before p @ inorder l" "inorder r @ behind p"] assms(1) by simp
  then show ?thesis using p(1) by (simp add: elv_rb_latter_request_def rb_next_spec del: rb_next.simps)
qed

lemma rb_former_spec:
  assumes "inorder t = xs @ rq # ys" "distinct (inorder t)"
  shows "elv_rb_former_request t rq = (if xs = [] then None else Some (last xs))"
proof -
  obtain c l r p where p: "rb_pointer rq t [] = Some (RbNode c l rq r, p)" "rb_plug (RbNode c l rq r) p = t"
    using pointer_spec [of rq t "[]"] assms(1) by auto
  have "inorder t = (before p @ inorder l) @ rq # (inorder r @ behind p)" using p(2) by auto
  moreover have "rq \<notin> set xs" "rq \<notin> set ys" using assms by auto
  ultimately have "before p @ inorder l = xs"
    using append_Cons_eq_iff [of rq xs ys "before p @ inorder l" "inorder r @ behind p"] assms(1) by simp
  then show ?thesis using p(1) rb_prev_spec [of c l rq r p] by (simp add: elv_rb_former_request_def del: rb_prev.simps)
qed

lemma rb_find_sound: "elv_rb_find mem t sec = Some y \<Longrightarrow> y \<in> set (inorder t) \<and> blk_rq_pos (mem y) = sec"
proof (induction mem t sec rule: elv_rb_find.induct)
  case (2 mem c l x r sec)
  consider "sec < blk_rq_pos (mem x)" | "blk_rq_pos (mem x) < sec" "\<not> sec < blk_rq_pos (mem x)" | "sec = blk_rq_pos (mem x)"
    using linorder_cases order_less_not_sym by metis
  then show ?case
  proof cases
    case 1
    then have "elv_rb_find mem l sec = Some y" using 2(3) by simp
    from 2(1) [OF 1 this] show ?thesis by auto
  next
    case c2: 2
    then have "elv_rb_find mem r sec = Some y" using 2(3) by simp
    from 2(2) [OF c2(2,1) this] show ?thesis by auto
  next
    case 3
    then show ?thesis using 2(3) by simp
  qed
qed simp

lemma rb_find_ascending:
  "ascending mem (inorder t) \<Longrightarrow> y \<in> set (inorder t) \<Longrightarrow> elv_rb_find mem t (blk_rq_pos (mem y)) = Some y"
proof (induction t)
  case (RbNode c l x r)
  note asc = RbNode.prems(1) [unfolded inorder.simps ascending_mid]
  consider "y = x" | "y \<in> set (inorder l)" | "y \<in> set (inorder r)" using RbNode.prems(2) by auto
  then show ?case
  proof cases
    case 3
    then have "blk_rq_pos (mem x) < blk_rq_pos (mem y)" using asc by blast
    moreover from this have "\<not> blk_rq_pos (mem y) < blk_rq_pos (mem x)" by (rule order_less_not_sym)
    ultimately show ?thesis using RbNode.IH(2) asc 3 by simp
  qed (use RbNode.IH(1) asc in simp_all)
qed simp

end
