(* ===== verification/Deadline.thy ===== *)
theory Deadline
  imports Elevator_Rb Iosched Request
begin

text \<open>
  The deadline I/O scheduler of \<^verbatim>\<open>block/deadline-iosched.c\<close>. Requests are kept, reads and writes apart,
  in a tree by sector and in a list by arrival. They are dispatched in batches of ascending sectors;
  between batches the scheduler prefers reads, until writes have been passed over too often, and
  falls back to the oldest request when it has waited too long. The time of a call is the argument
  \<open>jiffies\<close>; \<open>False\<close> stands for \<^verbatim>\<open>READ\<close> and \<open>True\<close> for \<^verbatim>\<open>WRITE\<close>. A request that has left the
  scheduler keeps the last value of its deadline, which the code overwrites and nobody reads.

  The theory shows that the scheduler satisfies the contract of the elevator core, that writes are
  not starved, and how the choice of the next request depends on its settings.
\<close>

section \<open>The scheduler\<close>

definition read_expire :: int where "read_expire = uint HZ div 2"
definition write_expire :: int where "write_expire = 5 * uint HZ"
definition writes_starved_default :: int where "writes_starved_default = 2"
definition fifo_batch_default :: int where "fifo_batch_default = 16"

record deadline_data =
  sort_list :: "bool \<Rightarrow> rqp rb_node"
  fifo_list :: "bool \<Rightarrow> rqp list"
  dd_next_rq :: "bool \<Rightarrow> rqp option"
  batching :: u32
  last_sector :: sector_t
  dd_starved :: u32
  fifo_expire :: "bool \<Rightarrow> int"
  fifo_batch :: int
  writes_starved :: int
  front_merges :: int

abbreviation dd_upd ::
    "(deadline_data \<Rightarrow> deadline_data) \<Rightarrow> deadline_data request_queue \<Rightarrow> deadline_data request_queue" where
  "dd_upd f q \<equiv> q\<lparr>elevator_data := f (elevator_data q)\<rparr>"

definition deadline_rb_root :: "deadline_data request_queue \<Rightarrow> rqp \<Rightarrow> rqp rb_node" where
  "deadline_rb_root q rq = sort_list (elevator_data q) (rq_data_dir (rqs q rq))"

definition set_rb_root :: "rqp \<Rightarrow> rqp rb_node \<Rightarrow> deadline_data request_queue \<Rightarrow> deadline_data request_queue" where
  "set_rb_root rq t q = dd_upd (\<lambda>dd. dd\<lparr>sort_list := (sort_list dd)(rq_data_dir (rqs q rq) := t)\<rparr>) q"

definition deadline_latter_request :: "deadline_data request_queue \<Rightarrow> rqp \<Rightarrow> rqp option" where
  "deadline_latter_request q rq = elv_rb_latter_request (deadline_rb_root q rq) rq"

definition deadline_del_rq_rb :: "deadline_data request_queue \<Rightarrow> rqp \<Rightarrow> deadline_data request_queue option" where
  "deadline_del_rq_rb q rq = do {
     let data_dir = rq_data_dir (rqs q rq);
     let q = (if dd_next_rq (elevator_data q) data_dir = Some rq
              then dd_upd (\<lambda>dd. dd\<lparr>dd_next_rq := (dd_next_rq dd)(data_dir := deadline_latter_request q rq)\<rparr>) q else q);
     t \<leftarrow> elv_rb_del (deadline_rb_root q rq) rq;
     Some (set_rb_root rq t q)
   }"

definition rq_fifo_clear :: "deadline_data request_queue \<Rightarrow> rqp \<Rightarrow> deadline_data request_queue" where
  "rq_fifo_clear q rq = dd_upd (\<lambda>dd. dd\<lparr>fifo_list := (\<lambda>dir. removeAll rq (fifo_list dd dir))\<rparr>) q"

definition deadline_remove_request ::
    "deadline_data request_queue \<Rightarrow> rqp \<Rightarrow> deadline_data request_queue option" where
  "deadline_remove_request q rq = deadline_del_rq_rb (rq_fifo_clear q rq) rq"

definition deadline_move_to_dispatch ::
    "deadline_data request_queue \<Rightarrow> rqp \<Rightarrow> deadline_data request_queue option" where
  "deadline_move_to_dispatch q rq = do {
     q \<leftarrow> deadline_remove_request q rq;
     Some (elv_dispatch_add_tail q rq)
   }"

definition deadline_move_request ::
    "deadline_data request_queue \<Rightarrow> rqp \<Rightarrow> deadline_data request_queue option" where
  "deadline_move_request q rq =
     (let data_dir = rq_data_dir (rqs q rq);
          q = dd_upd (\<lambda>dd. dd\<lparr>dd_next_rq := (\<lambda>_. None)(data_dir := deadline_latter_request q rq)\<rparr>) q;
          q = dd_upd (\<lambda>dd. dd\<lparr>last_sector := rq_end_sector (rqs q rq)\<rparr>) q
      in deadline_move_to_dispatch q rq)"

text \<open>A request at the same sector is sent to the dispatch list to make room in the tree.\<close>

partial_function (option) deadline_add_rq_rb ::
    "rqp \<Rightarrow> deadline_data request_queue \<Rightarrow> deadline_data request_queue option" where
  "deadline_add_rq_rb rq q = do {
     (alias, t) \<leftarrow> elv_rb_add (rqs q) (deadline_rb_root q rq) rq;
     case alias of
       None \<Rightarrow> Some (set_rb_root rq t q)
     | Some a \<Rightarrow> do { q \<leftarrow> deadline_move_request q a; deadline_add_rq_rb rq q }
   }"

definition deadline_add_request ::
    "u32 \<Rightarrow> deadline_data request_queue \<Rightarrow> rqp \<Rightarrow> deadline_data request_queue option" where
  "deadline_add_request jiffies q rq = do {
     let data_dir = rq_data_dir (rqs q rq);
     q \<leftarrow> deadline_add_rq_rb rq q;
     let q = rq_upd rq (\<lambda>r. r\<lparr>fifo_time := jiffies + word_of_int (fifo_expire (elevator_data q) data_dir)\<rparr>) q;
     Some (dd_upd (\<lambda>dd. dd\<lparr>fifo_list := (fifo_list dd)(data_dir := fifo_list dd data_dir @ [rq])\<rparr>) q)
   }"

section \<open>Merging\<close>

definition deadline_merge ::
    "deadline_data elevator_ops \<Rightarrow> deadline_data request_queue \<Rightarrow> bio \<Rightarrow> (elv_merge_ret \<times> rqp option) option" where
  "deadline_merge ops q b =
     (let dd = elevator_data q
      in if front_merges dd \<noteq> 0 then
           (let sec = bi_sector b + ucast (bio_sectors b)
            in case elv_rb_find (rqs q) (sort_list dd (bio_data_dir b)) sec of
                 Some rq \<Rightarrow>
                   (if sec \<noteq> blk_rq_pos (rqs q rq) then None
                    else do {
                      ok \<leftarrow> elv_rq_merge_ok ops q rq b;
                      Some (if ok then (ELEVATOR_FRONT_MERGE, Some rq) else (ELEVATOR_NO_MERGE, None))
                    })
               | None \<Rightarrow> Some (ELEVATOR_NO_MERGE, None))
         else Some (ELEVATOR_NO_MERGE, None))"

definition deadline_merged_request ::
    "deadline_data request_queue \<Rightarrow> rqp \<Rightarrow> elv_merge_ret \<Rightarrow> deadline_data request_queue option" where
  "deadline_merged_request q req type =
     (if type = ELEVATOR_FRONT_MERGE then do {
        t \<leftarrow> elv_rb_del (deadline_rb_root q req) req;
        deadline_add_rq_rb req (set_rb_root req t q)
      } else Some q)"

definition on_a_list :: "deadline_data request_queue \<Rightarrow> rqp \<Rightarrow> bool" where
  "on_a_list q rq \<longleftrightarrow> rq \<in> set (queue_head q) \<or> (\<exists>dir. rq \<in> set (fifo_list (elevator_data q) dir))"

text \<open>\<^verbatim>\<open>list_move(&req->queuelist, &next->queuelist)\<close>: off its list, and behind the entry \<open>nxt\<close> of whatever list that is on.\<close>

definition move_behind :: "rqp \<Rightarrow> rqp \<Rightarrow> rqp list \<Rightarrow> rqp list" where
  "move_behind req nxt xs = concat (map (\<lambda>x. if x = nxt then [x, req] else [x]) (removeAll req xs))"

definition deadline_merged_requests ::
    "deadline_data request_queue \<Rightarrow> rqp \<Rightarrow> rqp \<Rightarrow> deadline_data request_queue option" where
  "deadline_merged_requests q req nxt =
     (let q = (if on_a_list q req \<and> on_a_list q nxt \<and> time_before (fifo_time (rqs q nxt)) (fifo_time (rqs q req))
               then rq_upd req (\<lambda>r. r\<lparr>fifo_time := fifo_time (rqs q nxt)\<rparr>)
                      ((dd_upd (\<lambda>dd. dd\<lparr>fifo_list := (\<lambda>dir. move_behind req nxt (fifo_list dd dir))\<rparr>) q)
                       \<lparr>queue_head := move_behind req nxt (queue_head q)\<rparr>)
               else q)
      in deadline_remove_request q nxt)"

section \<open>Dispatch\<close>

definition time_after :: "u32 \<Rightarrow> u32 \<Rightarrow> bool" where
  "time_after a b \<longleftrightarrow> sint (b - a) < 0"

definition deadline_check_fifo :: "u32 \<Rightarrow> deadline_data request_queue \<Rightarrow> bool \<Rightarrow> bool option" where
  "deadline_check_fifo jiffies q ddir =
     (case fifo_list (elevator_data q) ddir of
        [] \<Rightarrow> None
      | rq # _ \<Rightarrow> Some (time_after jiffies (fifo_time (rqs q rq))))"

text \<open>The label \<^verbatim>\<open>dispatch_request\<close>.\<close>

definition dispatch_request ::
    "deadline_data request_queue \<Rightarrow> rqp \<Rightarrow> (bool \<times> deadline_data request_queue) option" where
  "dispatch_request q rq = do {
     q \<leftarrow> deadline_move_request (dd_upd (\<lambda>dd. dd\<lparr>batching := batching dd + 1\<rparr>) q) rq;
     Some (True, q)
   }"

text \<open>The label \<^verbatim>\<open>dispatch_find_request\<close>: a new batch in the chosen direction.\<close>

definition dispatch_find_request ::
    "u32 \<Rightarrow> deadline_data request_queue \<Rightarrow> bool \<Rightarrow> (bool \<times> deadline_data request_queue) option" where
  "dispatch_find_request jiffies q data_dir = do {
     expired \<leftarrow> deadline_check_fifo jiffies q data_dir;
     rq \<leftarrow> (case dd_next_rq (elevator_data q) data_dir of
              Some rq \<Rightarrow> if expired then head_of (fifo_list (elevator_data q) data_dir) else Some rq
            | None \<Rightarrow> head_of (fifo_list (elevator_data q) data_dir));
     dispatch_request (dd_upd (\<lambda>dd. dd\<lparr>batching := 0\<rparr>) q) rq
   }"

text \<open>The label \<^verbatim>\<open>dispatch_writes\<close>.\<close>

definition dispatch_writes ::
    "u32 \<Rightarrow> deadline_data request_queue \<Rightarrow> (bool \<times> deadline_data request_queue) option" where
  "dispatch_writes jiffies q =
     (if sort_list (elevator_data q) True = RbNull then None
      else dispatch_find_request jiffies (dd_upd (\<lambda>dd. dd\<lparr>dd_starved := 0\<rparr>) q) True)"

text \<open>
  The settings are signed, the counters unsigned: the comparisons are between unsigned numbers. The
  counter of starved writes is incremented by the comparison.
\<close>

definition deadline_dispatch_requests ::
    "u32 \<Rightarrow> deadline_data request_queue \<Rightarrow> bool \<Rightarrow> (bool \<times> deadline_data request_queue) option" where
  "deadline_dispatch_requests jiffies q force =
     (let dd = elevator_data q;
          reads = (fifo_list dd False \<noteq> []);
          writes = (fifo_list dd True \<noteq> []);
          rq = (case dd_next_rq dd True of Some rq \<Rightarrow> Some rq | None \<Rightarrow> dd_next_rq dd False)
      in case (rq, batching dd < word_of_int (fifo_batch dd)) of
           (Some rq, True) \<Rightarrow> dispatch_request q rq
         | _ \<Rightarrow>
             (if reads then
                (if sort_list dd False = RbNull then None
                 else if writes then
                   (let q = dd_upd (\<lambda>dd. dd\<lparr>dd_starved := dd_starved dd + 1\<rparr>) q
                    in if dd_starved dd \<ge> word_of_int (writes_starved dd) then dispatch_writes jiffies q
                       else dispatch_find_request jiffies q False)
                 else dispatch_find_request jiffies q False)
              else if writes then dispatch_writes jiffies q
              else Some (False, q)))"

definition deadline_queue_empty :: "deadline_data request_queue \<Rightarrow> bool" where
  "deadline_queue_empty q \<longleftrightarrow> fifo_list (elevator_data q) True = [] \<and> fifo_list (elevator_data q) False = []"

definition deadline_exit_queue :: "deadline_data \<Rightarrow> unit option" where
  "deadline_exit_queue dd = (if fifo_list dd False \<noteq> [] then None else if fifo_list dd True \<noteq> [] then None else Some ())"

definition deadline_init_queue :: "bool \<Rightarrow> deadline_data option" where
  "deadline_init_queue mem =
     (if \<not> mem then None
      else Some \<lparr>sort_list = (\<lambda>_. RbNull), fifo_list = (\<lambda>_. []), dd_next_rq = (\<lambda>_. None), batching = 0, last_sector = 0,
        dd_starved = 0, fifo_expire = (\<lambda>dir. if dir then write_expire else read_expire),
        fifo_batch = fifo_batch_default, writes_starved = writes_starved_default, front_merges = 1\<rparr>)"

definition iosched_deadline :: "u32 \<Rightarrow> deadline_data elevator_ops" where
  "iosched_deadline jiffies =
     (let ops = \<lparr>
        elevator_merge_fn = None, elevator_merged_fn = Some deadline_merged_request,
        elevator_merge_req_fn = Some deadline_merged_requests, elevator_allow_merge_fn = None,
        elevator_dispatch_fn = deadline_dispatch_requests jiffies, elevator_add_req_fn = deadline_add_request jiffies,
        elevator_activate_req_fn = None, elevator_deactivate_req_fn = None,
        elevator_queue_empty_fn = Some deadline_queue_empty, elevator_completed_req_fn = None,
        elevator_former_req_fn = Some (\<lambda>q rq. Some (elv_rb_former_request (deadline_rb_root q rq) rq)),
        elevator_latter_req_fn = Some (\<lambda>q rq. Some (elv_rb_latter_request (deadline_rb_root q rq) rq)),
        elevator_set_req_fn = None, elevator_put_req_fn = None, elevator_may_queue_fn = None,
        elevator_init_fn = deadline_init_queue, elevator_exit_fn = Some deadline_exit_queue\<rparr>
      in ops\<lparr>elevator_merge_fn := Some (deadline_merge ops)\<rparr>)"

section \<open>Settings\<close>

text \<open>
  The files of the scheduler in sysfs, on the number \<open>v\<close> that \<^verbatim>\<open>simple_strtol\<close> reads from the text. A time
  is given in milliseconds and kept in ticks.
\<close>

definition INT_MAX :: int where "INT_MAX = 2 ^ 31 - 1"
definition INT_MIN :: int where "INT_MIN = - (2 ^ 31)"

definition as_int :: "u32 \<Rightarrow> int" where "as_int w = sint w"

definition jiffies_to_msecs :: "u32 \<Rightarrow> u32" where
  "jiffies_to_msecs j = (1000 div HZ) * j"

definition store_value :: "int \<Rightarrow> int \<Rightarrow> bool \<Rightarrow> int \<Rightarrow> int" where
  "store_value lo hi conv v =
     (let data = as_int (word_of_int v);
          data = (if data < lo then lo else if data > hi then hi else data)
      in if conv then as_int (msecs_to_jiffies (word_of_int data)) else data)"

definition show_value :: "bool \<Rightarrow> int \<Rightarrow> int" where
  "show_value conv v = (if conv then as_int (jiffies_to_msecs (word_of_int v)) else v)"

definition deadline_expire_store :: "bool \<Rightarrow> int \<Rightarrow> deadline_data \<Rightarrow> deadline_data" where
  "deadline_expire_store dir v dd = dd\<lparr>fifo_expire := (fifo_expire dd)(dir := store_value 0 INT_MAX True v)\<rparr>"

definition deadline_writes_starved_store :: "int \<Rightarrow> deadline_data \<Rightarrow> deadline_data" where
  "deadline_writes_starved_store v dd = dd\<lparr>writes_starved := store_value INT_MIN INT_MAX False v\<rparr>"

definition deadline_front_merges_store :: "int \<Rightarrow> deadline_data \<Rightarrow> deadline_data" where
  "deadline_front_merges_store v dd = dd\<lparr>front_merges := store_value 0 1 False v\<rparr>"

definition deadline_fifo_batch_store :: "int \<Rightarrow> deadline_data \<Rightarrow> deadline_data" where
  "deadline_fifo_batch_store v dd = dd\<lparr>fifo_batch := store_value 0 INT_MAX False v\<rparr>"

definition deadline_expire_show :: "bool \<Rightarrow> deadline_data \<Rightarrow> int" where
  "deadline_expire_show dir dd = show_value True (fifo_expire dd dir)"

section \<open>The invariant\<close>

text \<open>
  In each direction tree and list hold the same requests, of that direction, the tree in ascending
  order; the next request of a batch is one of them.
\<close>

definition deadline_ok :: "deadline_data request_queue \<Rightarrow> bool" where
  "deadline_ok q \<longleftrightarrow>
     (\<forall>dir. let dd = elevator_data q; xs = fifo_list dd dir; t = sort_list dd dir
            in tree_ok (rqs q) t \<and> distinct xs \<and> set xs = set (inorder t) \<and>
               (\<forall>rq \<in> set xs. rq_data_dir (rqs q rq) = dir) \<and> (\<forall>rq. dd_next_rq dd dir = Some rq \<longrightarrow> rq \<in> set xs))"

definition deadline_pending :: "deadline_data request_queue \<Rightarrow> rqp multiset" where
  "deadline_pending q = mset (fifo_list (elevator_data q) False) + mset (fifo_list (elevator_data q) True)"

lemma deadline_okD:
  assumes "deadline_ok q"
  shows "tree_ok (rqs q) (sort_list (elevator_data q) dir)" "distinct (fifo_list (elevator_data q) dir)"
    "set (fifo_list (elevator_data q) dir) = set (inorder (sort_list (elevator_data q) dir))"
    "rq \<in> set (fifo_list (elevator_data q) dir) \<Longrightarrow> rq_data_dir (rqs q rq) = dir"
    "dd_next_rq (elevator_data q) dir = Some rq \<Longrightarrow> rq \<in> set (fifo_list (elevator_data q) dir)"
  using assms unfolding deadline_ok_def Let_def by blast+

lemma pending_iff:
  assumes "deadline_ok q"
  shows "rq \<in># deadline_pending q \<longleftrightarrow> rq \<in> set (fifo_list (elevator_data q) (rq_data_dir (rqs q rq)))"
  using deadline_okD(4) [OF assms, of rq] unfolding deadline_pending_def
  by (cases "rq_data_dir (rqs q rq)") auto

lemma head_of_mem: "head_of xs = Some x \<Longrightarrow> x \<in> set xs"
  by (cases xs) (auto simp: head_of_def)

lemma latter_spec:
  assumes "deadline_ok q" "rq \<in> set (fifo_list (elevator_data q) dir)" "deadline_latter_request q rq = Some y"
  shows "y \<in> set (fifo_list (elevator_data q) dir)" "y \<noteq> rq"
proof -
  let ?t = "sort_list (elevator_data q) dir"
  have dist: "distinct (inorder ?t)" using deadline_okD(1) [OF assms(1)] ascending_distinct by (auto simp: tree_ok_def)
  obtain xs ys where t: "inorder ?t = xs @ rq # ys"
    using assms(2) deadline_okD(3) [OF assms(1)] by (metis split_list)
  have "head_of ys = Some y"
    using assms(3) rb_latter_spec [OF t dist] deadline_okD(4) [OF assms(1,2)]
    by (simp add: deadline_latter_request_def deadline_rb_root_def)
  then have "y \<in> set ys" by (rule head_of_mem)
  then show "y \<in> set (fifo_list (elevator_data q) dir)" "y \<noteq> rq" using t dist deadline_okD(3) [OF assms(1), of dir] by auto
qed

text \<open>A request leaves the scheduler for the dispatch list.\<close>

definition moved :: "rqp \<Rightarrow> deadline_data request_queue \<Rightarrow> deadline_data request_queue \<Rightarrow> bool" where
  "moved rq q q' \<longleftrightarrow> dispatched rq q q' \<and> queue_head q' = queue_head q @ [rq] \<and>
     (let dd = elevator_data q; dd' = elevator_data q'
      in fifo_list dd' = (\<lambda>dir. removeAll rq (fifo_list dd dir)) \<and>
         (\<forall>dir. inorder (sort_list dd' dir) = removeAll rq (inorder (sort_list dd dir))) \<and>
         dd_next_rq dd' = (\<lambda>_. None)(rq_data_dir (rqs q rq) := deadline_latter_request q rq) \<and>
         batching dd' = batching dd \<and> dd_starved dd' = dd_starved dd \<and> fifo_expire dd' = fifo_expire dd \<and>
         fifo_batch dd' = fifo_batch dd \<and> writes_starved dd' = writes_starved dd)"

lemma move_request_spec:
  assumes ok: "deadline_ok q" and rq: "rq \<in> set (fifo_list (elevator_data q) dir)"
  shows "\<exists>q'. deadline_move_request q rq = Some q' \<and> deadline_ok q' \<and> moved rq q q'"
proof -
  let ?dd = "elevator_data q"
  have dir: "rq_data_dir (rqs q rq) = dir" using deadline_okD(4) [OF ok rq] .
  let ?l = "deadline_latter_request q rq"
  obtain t where t: "elv_rb_del (sort_list ?dd dir) rq = Some t" "tree_ok (rqs q) t" "inorder t = removeAll rq (inorder (sort_list ?dd dir))"
    using rb_del_spec [OF deadline_okD(1) [OF ok]] rq deadline_okD(3) [OF ok] by blast
  define dd' where "dd' = ?dd\<lparr>dd_next_rq := (\<lambda>_. None)(dir := ?l), last_sector := rq_end_sector (rqs q rq),
      fifo_list := (\<lambda>dir. removeAll rq (fifo_list ?dd dir)), sort_list := (sort_list ?dd)(dir := t)\<rparr>"
  define q1 where "q1 = q\<lparr>elevator_data := dd'\<rparr>"
  have l: "?l \<noteq> Some rq" using latter_spec(2) [OF ok rq] by blast
  have run: "deadline_move_request q rq = Some (elv_dispatch_add_tail q1 rq)"
    using l by (simp add: deadline_move_request_def deadline_move_to_dispatch_def deadline_remove_request_def deadline_del_rq_rb_def
        rq_fifo_clear_def deadline_rb_root_def set_rb_root_def dir t(1) q1_def dd'_def Let_def)
  have other: "rq \<notin> set (inorder (sort_list ?dd d))" if "d \<noteq> dir" for d
    using that deadline_okD(3,4) [OF ok] dir by blast
  have ord: "inorder (sort_list dd' d) = removeAll rq (inorder (sort_list ?dd d))" for d
    using t(3) other [of d] by (auto simp: dd'_def)
  have "deadline_ok q1" unfolding deadline_ok_def Let_def
  proof (intro allI conjI impI ballI)
    fix d
    show "tree_ok (rqs q1) (sort_list (elevator_data q1) d)"
      using t(2) deadline_okD(1) [OF ok, of "\<not> dir"] by (simp add: q1_def dd'_def)
    show "distinct (fifo_list (elevator_data q1) d)" using deadline_okD(2) [OF ok, of d] by (simp add: q1_def dd'_def distinct_removeAll)
    show "set (fifo_list (elevator_data q1) d) = set (inorder (sort_list (elevator_data q1) d))"
      using deadline_okD(3) [OF ok, of d] ord [of d] by (simp add: q1_def) (simp add: dd'_def)
    show "rq_data_dir (rqs q1 x) = d" if "x \<in> set (fifo_list (elevator_data q1) d)" for x
      using that deadline_okD(4) [OF ok, of x d] by (simp add: q1_def dd'_def)
    show "x \<in> set (fifo_list (elevator_data q1) d)" if "dd_next_rq (elevator_data q1) d = Some x" for x
      using that latter_spec [OF ok rq, of x] by (simp add: q1_def dd'_def split: if_splits)
  qed
  then have "deadline_ok (elv_dispatch_add_tail q1 rq)" by (simp add: deadline_ok_def elv_frame)
  moreover have "moved rq q (elv_dispatch_add_tail q1 rq)"
    using dispatched_add_tail [of rq q1] ord unfolding moved_def Let_def
    by (simp add: elv_frame q1_def dir) (simp add: dd'_def)
  ultimately show ?thesis using run by blast
qed

lemma moved_pending:
  assumes "deadline_ok q" "rq \<in> set (fifo_list (elevator_data q) dir)" "moved rq q q'"
  shows "deadline_pending q = add_mset rq (deadline_pending q')"
proof -
  let ?f = "fifo_list (elevator_data q)"
  have "mset (?f d) = (if d = dir then add_mset rq (mset (removeAll rq (?f d))) else mset (removeAll rq (?f d)))" for d
  proof (cases "d = dir")
    case True
    then have "rq \<in> set (?f d)" "distinct (?f d)" using assms(1,2) deadline_okD(2) by auto
    then show ?thesis using True by (simp add: distinct_remove1_removeAll [symmetric])
  next
    case False
    then have "rq \<notin> set (?f d)" using deadline_okD(4) [OF assms(1)] assms(2) by metis
    then show ?thesis using False by simp
  qed
  then have "mset (?f False) + mset (?f True) = add_mset rq (mset (removeAll rq (?f False)) + mset (removeAll rq (?f True)))"
    by (cases dir) simp_all
  then show ?thesis using assms(3) by (simp add: deadline_pending_def moved_def Let_def)
qed

section \<open>Insertion\<close>

text \<open>The tree takes the request, once a request at the same sector has made room.\<close>

lemma add_rq_rb_free:
  assumes ok: "deadline_ok q"
    and free: "\<forall>b \<in> set (inorder (deadline_rb_root q rq)). blk_rq_pos (rqs q b) \<noteq> blk_rq_pos (rqs q rq)"
  shows "\<exists>t xs ys. deadline_add_rq_rb rq q = Some (set_rb_root rq t q) \<and>
     inorder (deadline_rb_root q rq) = xs @ ys \<and> inorder t = xs @ rq # ys \<and> tree_ok (rqs q) t"
proof -
  have "tree_ok (rqs q) (deadline_rb_root q rq)" using deadline_okD(1) [OF ok] by (simp add: deadline_rb_root_def)
  then obtain t xs ys where "elv_rb_add (rqs q) (deadline_rb_root q rq) rq = Some (None, t)"
      "inorder (deadline_rb_root q rq) = xs @ ys" "inorder t = xs @ rq # ys" "tree_ok (rqs q) t"
    using rb_add_spec [of "rqs q" "deadline_rb_root q rq" rq] free by blast
  then show ?thesis
    by (intro exI [of _ t] exI [of _ xs] exI [of _ ys]) (simp add: deadline_add_rq_rb.simps [of rq q])
qed

lemma add_rq_rb_spec:
  assumes ok: "deadline_ok q"
  shows "\<exists>q1 t xs ys. deadline_add_rq_rb rq q = Some (set_rb_root rq t q1) \<and> deadline_ok q1 \<and>
     inorder (deadline_rb_root q1 rq) = xs @ ys \<and> inorder t = xs @ rq # ys \<and> tree_ok (rqs q1) t \<and>
     (q1 = q \<or> (\<exists>a \<in> set (fifo_list (elevator_data q) (rq_data_dir (rqs q rq))). moved a q q1))"
proof -
  define dir where "dir = rq_data_dir (rqs q rq)"
  have root: "deadline_rb_root q rq = sort_list (elevator_data q) dir" by (simp add: deadline_rb_root_def dir_def)
  have tree: "tree_ok (rqs q) (deadline_rb_root q rq)" using deadline_okD(1) [OF ok] by (simp add: deadline_rb_root_def)
  from rb_add_spec [OF this, of rq] consider
    (clash) a where "elv_rb_add (rqs q) (deadline_rb_root q rq) rq = Some (Some a, deadline_rb_root q rq)"
      "a \<in> set (inorder (deadline_rb_root q rq))" "blk_rq_pos (rqs q a) = blk_rq_pos (rqs q rq)"
  | (fresh) t xs ys where "elv_rb_add (rqs q) (deadline_rb_root q rq) rq = Some (None, t)"
      "inorder (deadline_rb_root q rq) = xs @ ys" "inorder t = xs @ rq # ys" "tree_ok (rqs q) t"
    by blast
  then show ?thesis
  proof cases
    case fresh
    then show ?thesis using ok
      by (intro exI [of _ q] exI [of _ t] exI [of _ xs] exI [of _ ys]) (simp add: deadline_add_rq_rb.simps [of rq q])
  next
    case (clash a)
    have fifo: "a \<in> set (fifo_list (elevator_data q) dir)" using clash(2) deadline_okD(3) [OF ok] by (simp add: root)
    then obtain q1 where q1: "deadline_move_request q a = Some q1" "deadline_ok q1" "moved a q q1"
      using move_request_spec [OF ok] by blast
    have rqs: "rqs q1 = rqs q" using q1(3) by (simp add: moved_def dispatched_def)
    have gone: "inorder (deadline_rb_root q1 rq) = removeAll a (inorder (deadline_rb_root q rq))"
      using q1(3) by (simp add: moved_def Let_def deadline_rb_root_def rqs)
    have "\<forall>b \<in> set (inorder (deadline_rb_root q1 rq)). blk_rq_pos (rqs q1 b) \<noteq> blk_rq_pos (rqs q1 rq)"
    proof (intro ballI notI)
      fix b
      assume b: "b \<in> set (inorder (deadline_rb_root q1 rq))" "blk_rq_pos (rqs q1 b) = blk_rq_pos (rqs q1 rq)"
      have "b = a"
        by (rule ascending_inj [of "rqs q" "inorder (deadline_rb_root q rq)"]) (use tree clash(2,3) b gone rqs in \<open>simp_all add: tree_ok_def\<close>)
      then show False using b(1) gone by simp
    qed
    from add_rq_rb_free [OF q1(2) this] obtain t xs ys where t: "deadline_add_rq_rb rq q1 = Some (set_rb_root rq t q1)"
        "inorder (deadline_rb_root q1 rq) = xs @ ys" "inorder t = xs @ rq # ys" "tree_ok (rqs q1) t"
      by blast
    moreover have "deadline_add_rq_rb rq q = deadline_add_rq_rb rq q1"
      using clash(1) q1(1) by (simp add: deadline_add_rq_rb.simps [of rq q])
    ultimately have "deadline_add_rq_rb rq q = Some (set_rb_root rq t q1)" by simp
    then show ?thesis using t(2-4) q1(2,3) fifo unfolding dir_def by blast
  qed
qed

lemma took_moved:
  assumes "deadline_ok q" "a \<in> set (fifo_list (elevator_data q) dir)" "moved a q q1"
    and "elv_hash q2 = elv_hash q1" "queue_head q2 = queue_head q1" "nr_sorted q2 = nr_sorted q1" "queue_flags q2 = queue_flags q1"
    and "\<And>p. rq_hash_key (rqs q2 p) = rq_hash_key (rqs q1 p)" "deadline_pending q2 = add_mset rq (deadline_pending q1)"
  shows "took deadline_pending rq q q2"
proof -
  have d: "dispatched a q q1" using assms(3) by (simp add: moved_def)
  have "elv_hash_ok q2" if "elv_hash_ok q"
    using hash_ok_rqs_cong [of "{}" q1 q2] that d assms(4,8) by (simp add: dispatched_def)
  then show ?thesis
    using d assms(5-7,9) moved_pending [OF assms(1-3)] by (simp add: took_def dispatched_def algebra_simps)
qed

definition added :: "rqp \<Rightarrow> u32 \<Rightarrow> rqp rb_node \<Rightarrow> deadline_data request_queue \<Rightarrow> deadline_data request_queue" where
  "added rq x t q = (let dir = rq_data_dir (rqs q rq)
     in dd_upd (\<lambda>dd. dd\<lparr>fifo_list := (fifo_list dd)(dir := fifo_list dd dir @ [rq])\<rparr>)
          (rq_upd rq (\<lambda>r. r\<lparr>fifo_time := x\<rparr>) (set_rb_root rq t q)))"

lemma added_fields:
  "rqs (added rq x t q) = (rqs q)(rq := (rqs q rq)\<lparr>fifo_time := x\<rparr>)"
  "elevator_data (added rq x t q) = (elevator_data q)\<lparr>sort_list := (sort_list (elevator_data q))(rq_data_dir (rqs q rq) := t),
     fifo_list := (fifo_list (elevator_data q))(rq_data_dir (rqs q rq) := fifo_list (elevator_data q) (rq_data_dir (rqs q rq)) @ [rq])\<rparr>"
  "elv_hash (added rq x t q) = elv_hash q" "queue_head (added rq x t q) = queue_head q" "nr_sorted (added rq x t q) = nr_sorted q"
  "queue_flags (added rq x t q) = queue_flags q"
  by (simp_all add: added_def rq_upd_def set_rb_root_def Let_def)

lemma added_ok:
  assumes ok: "deadline_ok q" and fresh: "rq \<notin># deadline_pending q"
    and t: "inorder (deadline_rb_root q rq) = xs @ ys" "inorder t = xs @ rq # ys" "tree_ok (rqs q) t"
  shows "deadline_ok (added rq x t q)" "deadline_pending (added rq x t q) = add_mset rq (deadline_pending q)"
proof -
  define dir where "dir = rq_data_dir (rqs q rq)"
  define q' where "q' = added rq x t q"
  have new: "rq \<notin> set (fifo_list (elevator_data q) dir)" using fresh pending_iff [OF ok] by (simp add: dir_def)
  have pos: "blk_rq_pos (rqs q' p) = blk_rq_pos (rqs q p)" "rq_data_dir (rqs q' p) = rq_data_dir (rqs q p)" for p
    by (simp_all add: q'_def added_fields blk_rq_pos_def rq_data_dir_def)
  have tree: "tree_ok (rqs q') u" if "tree_ok (rqs q) u" for u
    using that ascending_cong [of "rqs q" "inorder u" "rqs q'"] pos by (simp add: tree_ok_def)
  have data: "elevator_data q' = (elevator_data q)\<lparr>sort_list := (sort_list (elevator_data q))(dir := t),
      fifo_list := (fifo_list (elevator_data q))(dir := fifo_list (elevator_data q) dir @ [rq])\<rparr>"
    by (simp add: q'_def added_fields dir_def)
  have "deadline_ok q'" unfolding deadline_ok_def Let_def
  proof (intro allI conjI ballI impI)
    fix d
    show "tree_ok (rqs q') (sort_list (elevator_data q') d)"
      using tree [OF t(3)] tree [OF deadline_okD(1) [OF ok]] by (simp add: data)
    show "distinct (fifo_list (elevator_data q') d)" using new deadline_okD(2) [OF ok] by (simp add: data)
    show "set (fifo_list (elevator_data q') d) = set (inorder (sort_list (elevator_data q') d))"
    proof (cases "d = dir")
      case True
      then show ?thesis
        using t(1,2) deadline_okD(3) [OF ok, of dir] by (simp add: data) (simp add: deadline_rb_root_def dir_def)
    next
      case False
      then show ?thesis using deadline_okD(3) [OF ok, of d] by (simp add: data)
    qed
    show "rq_data_dir (rqs q' p) = d" if "p \<in> set (fifo_list (elevator_data q') d)" for p
      using that deadline_okD(4) [OF ok, of p d] by (auto simp: data pos dir_def split: if_splits)
    show "p \<in> set (fifo_list (elevator_data q') d)" if "dd_next_rq (elevator_data q') d = Some p" for p
      using that deadline_okD(5) [OF ok, of d p] by (auto simp: data)
  qed
  then show "deadline_ok (added rq x t q)" by (simp add: q'_def)
  show "deadline_pending (added rq x t q) = add_mset rq (deadline_pending q)"
    unfolding q'_def [symmetric] by (cases dir) (simp_all add: deadline_pending_def data)
qed

lemma add_request_spec:
  assumes ok: "deadline_ok q" and fresh: "rq \<notin># deadline_pending q"
  shows "\<exists>q'. deadline_add_request jiffies q rq = Some q' \<and> took deadline_pending rq q q' \<and> deadline_ok q' \<and>
     batching (elevator_data q') = batching (elevator_data q) \<and> dd_starved (elevator_data q') = dd_starved (elevator_data q) \<and>
     fifo_batch (elevator_data q') = fifo_batch (elevator_data q) \<and> writes_starved (elevator_data q') = writes_starved (elevator_data q) \<and>
     (\<forall>p. rq_data_dir (rqs q' p) = rq_data_dir (rqs q p)) \<and>
     (\<forall>dir. fifo_list (elevator_data q) dir \<noteq> [] \<longrightarrow> fifo_list (elevator_data q') dir \<noteq> [])"
proof -
  obtain q1 t xs ys where q1: "deadline_add_rq_rb rq q = Some (set_rb_root rq t q1)" "deadline_ok q1"
      "inorder (deadline_rb_root q1 rq) = xs @ ys" "inorder t = xs @ rq # ys" "tree_ok (rqs q1) t"
      "q1 = q \<or> (\<exists>a \<in> set (fifo_list (elevator_data q) (rq_data_dir (rqs q rq))). moved a q q1)"
    using add_rq_rb_spec [OF ok] by blast
  have same: "rqs q1 = rqs q" "rq \<notin># deadline_pending q1" and settings: "batching (elevator_data q1) = batching (elevator_data q)"
      "dd_starved (elevator_data q1) = dd_starved (elevator_data q)" "fifo_batch (elevator_data q1) = fifo_batch (elevator_data q)"
      "writes_starved (elevator_data q1) = writes_starved (elevator_data q)"
    using q1(6) fresh moved_pending [OF ok, of _ _ q1] by (auto simp: moved_def dispatched_def Let_def)
  let ?q = "added rq (jiffies + word_of_int (fifo_expire (elevator_data q1) (rq_data_dir (rqs q rq)))) t q1"
  have run: "deadline_add_request jiffies q rq = Some ?q"
    by (simp add: deadline_add_request_def q1(1) same(1) added_def set_rb_root_def rq_upd_def Let_def)
  note new = added_ok [OF q1(2) same(2) q1(3-5)]
  have key: "rq_hash_key (rqs ?q p) = rq_hash_key (rqs q1 p)" for p
    by (simp add: added_fields rq_hash_key_def rq_simps)
  have "took deadline_pending rq q ?q"
    using q1(6)
  proof (elim disjE bexE)
    assume "q1 = q"
    then show ?thesis
      using new(2) key hash_ok_rqs_cong [of "{}" q1 ?q] by (simp add: took_def added_fields)
  next
    fix a
    assume "a \<in> set (fifo_list (elevator_data q) (rq_data_dir (rqs q rq)))" "moved a q q1"
    then show ?thesis by (rule took_moved [OF ok _ _ _ _ _ _ key new(2)]) (simp_all add: added_fields)
  qed
  moreover have "rq_data_dir (rqs ?q p) = rq_data_dir (rqs q p)" for p by (simp add: added_fields same(1) rq_data_dir_def)
  moreover have "fifo_list (elevator_data ?q) d \<noteq> []" if "fifo_list (elevator_data q) d \<noteq> []" for d
  proof (cases "d = rq_data_dir (rqs q rq)")
    case False
    have "a \<notin> set (fifo_list (elevator_data q) d)" if "a \<in> set (fifo_list (elevator_data q) (rq_data_dir (rqs q rq)))" for a
      using deadline_okD(4) [OF ok that] deadline_okD(4) [OF ok, of a d] False by blast
    then have "fifo_list (elevator_data q1) d = fifo_list (elevator_data q) d" using q1(6) by (auto simp: moved_def Let_def)
    then show ?thesis using False that by (simp add: added_fields same(1))
  qed (simp add: added_fields same(1))
  ultimately show ?thesis using run new(1) settings by (intro exI [of _ ?q]) (simp add: added_fields)
qed

section \<open>Which request is dispatched\<close>

definition with_counters :: "u32 \<Rightarrow> u32 \<Rightarrow> deadline_data request_queue \<Rightarrow> deadline_data request_queue" where
  "with_counters b s q = dd_upd (\<lambda>dd. dd\<lparr>batching := b, dd_starved := s\<rparr>) q"

lemma with_counters_ok [simp]: "deadline_ok (with_counters b s q) \<longleftrightarrow> deadline_ok q"
  by (simp add: deadline_ok_def with_counters_def Let_def)

lemma with_counters_fields [simp]:
  "fifo_list (elevator_data (with_counters b s q)) = fifo_list (elevator_data q)"
  "dd_next_rq (elevator_data (with_counters b s q)) = dd_next_rq (elevator_data q)"
  "sort_list (elevator_data (with_counters b s q)) = sort_list (elevator_data q)"
  "rqs (with_counters b s q) = rqs q"
  "deadline_pending (with_counters b s q) = deadline_pending q"
  "dispatched rq (with_counters b s q) q' = dispatched rq q q'"
  by (simp_all add: with_counters_def deadline_pending_def)

text \<open>
  The choice: the next request of the running batch, or else a new batch. A new batch is one of
  writes if there are writes and either no reads or too many batches of reads before. It starts
  with the oldest request if that has expired or the last request was in the other direction.
\<close>

definition chosen :: "u32 \<Rightarrow> deadline_data request_queue \<Rightarrow> rqp \<Rightarrow> bool \<Rightarrow> u32 \<Rightarrow> u32 \<Rightarrow> bool" where
  "chosen jiffies q rq dir b s \<longleftrightarrow>
     (let dd = elevator_data q; reads = fifo_list dd False; writes = fifo_list dd True;
          in_batch = (case dd_next_rq dd True of Some r \<Rightarrow> Some r | None \<Rightarrow> dd_next_rq dd False)
      in if in_batch \<noteq> None \<and> batching dd < word_of_int (fifo_batch dd)
         then in_batch = Some rq \<and> b = batching dd + 1 \<and> s = dd_starved dd
         else (dir \<longleftrightarrow> writes \<noteq> [] \<and> (reads = [] \<or> word_of_int (writes_starved dd) \<le> dd_starved dd)) \<and> b = 1 \<and>
              s = (if dir then 0 else if writes \<noteq> [] then dd_starved dd + 1 else dd_starved dd) \<and>
              (if dd_next_rq dd dir = None \<or> time_after jiffies (fifo_time (rqs q (hd (fifo_list dd dir))))
               then rq = hd (fifo_list dd dir) else dd_next_rq dd dir = Some rq))"

lemma dispatch_request_spec:
  assumes "deadline_ok q" "rq \<in> set (fifo_list (elevator_data q) dir)"
  shows "\<exists>q'. dispatch_request (with_counters b s q) rq = Some (True, q') \<and> deadline_ok q' \<and> moved rq (with_counters (b + 1) s q) q'"
proof -
  have q: "dd_upd (\<lambda>dd. dd\<lparr>batching := batching dd + 1\<rparr>) (with_counters b s q) = with_counters (b + 1) s q"
    by (simp add: with_counters_def)
  show ?thesis
    unfolding dispatch_request_def q using move_request_spec [of "with_counters (b + 1) s q" rq dir] assms by auto
qed

lemma find_request_spec:
  assumes ok: "deadline_ok q" and ne: "fifo_list (elevator_data q) dir \<noteq> []"
  shows "\<exists>rq q'. dispatch_find_request jiffies (with_counters b s q) dir = Some (True, q') \<and>
     rq \<in> set (fifo_list (elevator_data q) dir) \<and> deadline_ok q' \<and> moved rq (with_counters 1 s q) q' \<and>
     (if dd_next_rq (elevator_data q) dir = None \<or> time_after jiffies (fifo_time (rqs q (hd (fifo_list (elevator_data q) dir))))
      then rq = hd (fifo_list (elevator_data q) dir) else dd_next_rq (elevator_data q) dir = Some rq)"
proof -
  let ?n = "dd_next_rq (elevator_data q) dir" and ?xs = "fifo_list (elevator_data q) dir"
  define rq where "rq = (if ?n = None \<or> time_after jiffies (fifo_time (rqs q (hd ?xs))) then hd ?xs else the ?n)"
  have mem: "rq \<in> set ?xs" using ne deadline_okD(5) [OF ok, of dir] by (auto simp: rq_def)
  obtain x xs where xs: "?xs = x # xs" using ne by (cases ?xs) auto
  have "dd_upd (\<lambda>dd. dd\<lparr>batching := 0\<rparr>) (with_counters b s q) = with_counters 0 s q" by (simp add: with_counters_def)
  then have run: "dispatch_find_request jiffies (with_counters b s q) dir = dispatch_request (with_counters 0 s q) rq"
    using xs by (auto simp: dispatch_find_request_def deadline_check_fifo_def head_of_def rq_def split: option.splits)
  obtain q' where "dispatch_request (with_counters 0 s q) rq = Some (True, q')" "deadline_ok q'" "moved rq (with_counters 1 s q) q'"
    using dispatch_request_spec [OF ok mem, of 0 s] by auto
  then show ?thesis using run mem by (intro exI [of _ rq] exI [of _ q']) (auto simp: rq_def)
qed

lemma served_spec:
  assumes "moved rq (with_counters b s q) q'"
  shows "queue_head q' = queue_head q @ [rq]"
    "deadline_ok q \<Longrightarrow> rq \<in> set (fifo_list (elevator_data q) dir) \<Longrightarrow> deadline_pending q = add_mset rq (deadline_pending q')"
    "batching (elevator_data q') = b" "dd_starved (elevator_data q') = s"
  using assms moved_pending [of "with_counters b s q" rq dir q'] by (simp_all add: moved_def) (simp_all add: with_counters_def Let_def)

lemma new_batch_eq:
  fixes q :: "deadline_data request_queue"
  defines "dd \<equiv> elevator_data q"
  assumes "\<not> ((case dd_next_rq dd True of Some r \<Rightarrow> Some r | None \<Rightarrow> dd_next_rq dd False) \<noteq> None \<and> batching dd < word_of_int (fifo_batch dd))"
    and "\<And>d. fifo_list dd d \<noteq> [] \<Longrightarrow> sort_list dd d \<noteq> RbNull" "fifo_list dd False \<noteq> [] \<or> fifo_list dd True \<noteq> []"
  shows "deadline_dispatch_requests jiffies q force =
     (if fifo_list dd True \<noteq> [] \<and> (fifo_list dd False = [] \<or> word_of_int (writes_starved dd) \<le> dd_starved dd)
      then dispatch_find_request jiffies (with_counters (batching dd) 0 q) True
      else dispatch_find_request jiffies
        (with_counters (batching dd) (if fifo_list dd True \<noteq> [] then dd_starved dd + 1 else dd_starved dd) q) False)"
proof -
  have id: "with_counters (batching dd) (dd_starved dd) q = q" by (simp add: with_counters_def dd_def)
  have inc: "q\<lparr>elevator_data := dd\<lparr>dd_starved := dd_starved dd + 1\<rparr>\<rparr> = with_counters (batching dd) (dd_starved dd + 1) q"
    by (simp add: with_counters_def dd_def)
  have zero: "dd_upd (\<lambda>dd. dd\<lparr>dd_starved := 0\<rparr>) (with_counters (batching dd) s q) = with_counters (batching dd) 0 q" for s
    by (simp add: with_counters_def dd_def)
  have "dispatch_writes jiffies (with_counters (batching dd) s q) = dispatch_find_request jiffies (with_counters (batching dd) 0 q) True"
    if "fifo_list dd True \<noteq> []" for s
    using assms(3) [OF that] by (simp add: dispatch_writes_def zero) (simp add: dd_def)
  note w = this this [of "dd_starved dd", unfolded id]
  show ?thesis
    using assms(2-4) unfolding deadline_dispatch_requests_def Let_def dd_def [symmetric] inc
    by (auto simp: w id inc split: option.splits bool.splits)
qed

lemma deadline_dispatch_spec:
  assumes ok: "deadline_ok q" and pend: "deadline_pending q \<noteq> {#}"
  shows "\<exists>rq dir b s q'. deadline_dispatch_requests jiffies q force = Some (True, q') \<and>
     rq \<in> set (fifo_list (elevator_data q) dir) \<and> deadline_ok q' \<and> moved rq (with_counters b s q) q' \<and> chosen jiffies q rq dir b s"
proof -
  let ?dd = "elevator_data q"
  let ?next = "case dd_next_rq ?dd True of Some r \<Rightarrow> Some r | None \<Rightarrow> dd_next_rq ?dd False"
  have id: "with_counters (batching ?dd) (dd_starved ?dd) q = q" by (simp add: with_counters_def)
  have some: "fifo_list ?dd False \<noteq> [] \<or> fifo_list ?dd True \<noteq> []" using pend by (auto simp: deadline_pending_def)
  have root: "sort_list ?dd d \<noteq> RbNull" if "fifo_list ?dd d \<noteq> []" for d
    using that deadline_okD(3) [OF ok, of d] by auto
  show ?thesis
  proof (cases "?next \<noteq> None \<and> batching ?dd < word_of_int (fifo_batch ?dd)")
    case True
    then obtain rq where rq: "?next = Some rq" by auto
    then obtain dir where "rq \<in> set (fifo_list ?dd dir)" using deadline_okD(5) [OF ok] by (auto split: option.splits)
    then obtain q' where "dispatch_request q rq = Some (True, q')" "deadline_ok q'"
        "moved rq (with_counters (batching ?dd + 1) (dd_starved ?dd) q) q'"
      using dispatch_request_spec [OF ok, of rq dir "batching ?dd" "dd_starved ?dd"] id by auto
    then show ?thesis
      using True rq \<open>rq \<in> set (fifo_list ?dd dir)\<close>
      by (intro exI [of _ rq] exI [of _ dir] exI [of _ "batching ?dd + 1"] exI [of _ "dd_starved ?dd"] exI [of _ q'])
        (simp add: deadline_dispatch_requests_def chosen_def)
  next
    case False
    define dir where "dir \<longleftrightarrow> fifo_list ?dd True \<noteq> [] \<and> (fifo_list ?dd False = [] \<or> word_of_int (writes_starved ?dd) \<le> dd_starved ?dd)"
    define s where "s = (if dir then 0 else if fifo_list ?dd True \<noteq> [] then dd_starved ?dd + 1 else dd_starved ?dd)"
    have ne: "fifo_list ?dd dir \<noteq> []" using some dir_def by (cases dir) auto
    have run: "deadline_dispatch_requests jiffies q force = dispatch_find_request jiffies (with_counters (batching ?dd) s q) dir"
      using new_batch_eq [OF False root some] by (simp add: dir_def s_def)
    obtain rq q' where q': "dispatch_find_request jiffies (with_counters (batching ?dd) s q) dir = Some (True, q')"
        "rq \<in> set (fifo_list ?dd dir)" "deadline_ok q'" "moved rq (with_counters 1 s q) q'"
        "if dd_next_rq ?dd dir = None \<or> time_after jiffies (fifo_time (rqs q (hd (fifo_list ?dd dir))))
         then rq = hd (fifo_list ?dd dir) else dd_next_rq ?dd dir = Some rq"
      using find_request_spec [OF ok ne, of jiffies "batching ?dd" s] by blast
    have "chosen jiffies q rq dir 1 s" using False q'(5) unfolding chosen_def Let_def by (simp only: if_False dir_def s_def)
    then show ?thesis using q' run by (intro exI [of _ rq] exI [of _ dir] exI [of _ 1] exI [of _ s] exI [of _ q']) simp
  qed
qed

section \<open>The contract\<close>

lemma deadline_frame:
  assumes "deadline_ok q" "elevator_data q' = elevator_data q"
    and sim: "\<And>p. p \<in># deadline_pending q \<Longrightarrow> rq_similar (rqs q p) (rqs q' p)"
  shows "deadline_ok q' \<and> deadline_pending q' = deadline_pending q"
proof -
  have pend: "p \<in># deadline_pending q" if "p \<in> set (fifo_list (elevator_data q) d)" for p d
    using that by (cases d) (auto simp: deadline_pending_def)
  have tree: "tree_ok (rqs q') (sort_list (elevator_data q) d)" for d
    using deadline_okD(1,3) [OF assms(1), of d] ascending_cong [of "rqs q" "inorder (sort_list (elevator_data q) d)" "rqs q'"]
      rq_similar_bios(2) [OF sim [OF pend [of _ d]]] by (simp add: tree_ok_def blk_rq_pos_def)
  have dir: "rq_data_dir (rqs q' p) = d" if "p \<in> set (fifo_list (elevator_data q) d)" for p d
    using sim [OF pend [OF that]] deadline_okD(4) [OF assms(1) that] by (simp add: rq_similar_def)
  have "deadline_ok q'"
    unfolding deadline_ok_def Let_def assms(2)
    using tree dir deadline_okD(2,3,5) [OF assms(1)] by blast
  then show ?thesis using assms(2) by (simp add: deadline_pending_def)
qed

lemma deadline_dispatch_empty:
  assumes "deadline_ok q" "deadline_pending q = {#}"
  shows "deadline_dispatch_requests jiffies q force = Some (False, q)"
proof -
  have empty: "fifo_list (elevator_data q) d = []" for d using assms(2) by (cases d) (simp_all add: deadline_pending_def)
  have "dd_next_rq (elevator_data q) d = None" for d
    using deadline_okD(5) [OF assms(1), of d] empty [of d] by (cases "dd_next_rq (elevator_data q) d") auto
  then show ?thesis by (simp add: deadline_dispatch_requests_def empty)
qed

lemma deadline_dispatch_one:
  assumes "deadline_ok q" "deadline_pending q \<noteq> {#}"
  shows "\<exists>rq q'. deadline_dispatch_requests jiffies q force = Some (True, q') \<and> rq \<in># deadline_pending q \<and>
     deadline_pending q' = deadline_pending q - {#rq#} \<and> dispatched rq q q' \<and> deadline_ok q'"
proof -
  obtain rq dir b s q' where q': "deadline_dispatch_requests jiffies q force = Some (True, q')"
      "rq \<in> set (fifo_list (elevator_data q) dir)" "deadline_ok q'" "moved rq (with_counters b s q) q'"
    using deadline_dispatch_spec [OF assms] by blast
  then show ?thesis using served_spec(2) [OF q'(4) assms(1) q'(2)] by (intro exI [of _ rq] exI [of _ q']) (simp add: moved_def)
qed

interpretation deadline: iosched "iosched_deadline jiffies" deadline_pending deadline_ok "\<lambda>_. True"
  for jiffies
proof unfold_locales
  fix q :: "deadline_data request_queue" and rq force
  show "elevator_dispatch_fn (iosched_deadline jiffies) q force = Some (False, q)" if "deadline_ok q" "deadline_pending q = {#}"
    using deadline_dispatch_empty [OF that] by (simp add: iosched_deadline_def)
  show "\<exists>rq q'. elevator_dispatch_fn (iosched_deadline jiffies) q force = Some (True, q') \<and> rq \<in># deadline_pending q \<and>
      deadline_pending q' = deadline_pending q - {#rq#} \<and> dispatched rq q q' \<and> deadline_ok q'"
    if "deadline_ok q" "deadline_pending q \<noteq> {#}"
    using deadline_dispatch_one [OF that] by (simp add: iosched_deadline_def)
  show "\<exists>q'. elevator_add_req_fn (iosched_deadline jiffies) q rq = Some q' \<and> took deadline_pending rq q q' \<and> deadline_ok q'"
    if "deadline_ok q" "rq \<notin># deadline_pending q"
    using add_request_spec [OF that, of jiffies] by (auto simp: iosched_deadline_def)
  show "\<exists>f. elevator_queue_empty_fn (iosched_deadline jiffies) = Some f \<and> f q = (deadline_pending q = {#})"
    by (auto simp: iosched_deadline_def deadline_queue_empty_def deadline_pending_def)
qed (use deadline_frame in blast)+

section \<open>Starvation\<close>

text \<open>
  Requests that the driver is served while others arrive, in any order and at any times. A request
  may also reach the dispatch list when one at the same sector arrives; it is not counted.
\<close>

inductive deadline_run ::
    "deadline_data request_queue \<Rightarrow> rqp list \<Rightarrow> deadline_data request_queue \<Rightarrow> bool" where
  run_nil: "deadline_run q [] q"
| run_serve: "\<lbrakk>deadline_dispatch_requests jiffies q force = Some (True, q1); queue_head q1 = queue_head q @ [rq];
      deadline_run q1 xs q'\<rbrakk> \<Longrightarrow> deadline_run q (rq # xs) q'"
| run_arrive: "\<lbrakk>rq \<notin># deadline_pending q; deadline_add_request jiffies q rq = Some q1; deadline_run q1 xs q'\<rbrakk>
    \<Longrightarrow> deadline_run q xs q'"

text \<open>How many reads can be served before the next write: the rest of the batch and the batches writes are passed over.\<close>

definition write_wait :: "deadline_data \<Rightarrow> nat" where
  "write_wait dd =
     (let m = max 1 (nat (fifo_batch dd))
      in (nat (writes_starved dd) - unat (dd_starved dd)) * m + (m - unat (batching dd)))"

definition settings_ok :: "deadline_data \<Rightarrow> bool" where
  "settings_ok dd \<longleftrightarrow> 0 \<le> fifo_batch dd \<and> fifo_batch dd < 2 ^ 31 \<and> 0 \<le> writes_starved dd \<and> writes_starved dd < 2 ^ 31"

lemma unat_setting: "0 \<le> n \<Longrightarrow> n < 2 ^ 31 \<Longrightarrow> unat (word_of_int n :: u32) = nat n"
  by (simp add: unsigned_of_int take_bit_int_eq_self)

lemma unat_less_inc: "(w :: u32) < v \<Longrightarrow> unat (w + 1) = unat w + 1"
proof -
  assume "w < v"
  then have "unat w < unat v" "unat v < 2 ^ 32" using unsigned_less [of v] by (simp_all add: word_less_nat_alt)
  then show ?thesis by (subst unat_plus_if') simp
qed

lemma wait_less:
  assumes "settings_ok dd" "settings_ok dd'" "fifo_batch dd' = fifo_batch dd" "writes_starved dd' = writes_starved dd"
    and "(batching dd < word_of_int (fifo_batch dd) \<and> batching dd' = batching dd + 1 \<and> dd_starved dd' = dd_starved dd) \<or>
         (dd_starved dd < word_of_int (writes_starved dd) \<and> batching dd' = 1 \<and> dd_starved dd' = dd_starved dd + 1)"
  shows "write_wait dd' < write_wait dd"
proof -
  let ?m = "max 1 (nat (fifo_batch dd))" and ?w = "nat (writes_starved dd)"
  show ?thesis using assms(5)
  proof (elim disjE conjE)
    assume b: "batching dd < word_of_int (fifo_batch dd)" "batching dd' = batching dd + 1" "dd_starved dd' = dd_starved dd"
    then have "unat (batching dd) < nat (fifo_batch dd)"
      using unat_setting [of "fifo_batch dd"] assms(1) by (simp add: word_less_nat_alt settings_ok_def)
    then have "?m - unat (batching dd') < ?m - unat (batching dd)" using b(2) unat_less_inc [OF b(1)] by simp
    then show ?thesis unfolding write_wait_def Let_def b(3) assms(3,4) by (rule add_strict_left_mono)
  next
    assume s: "dd_starved dd < word_of_int (writes_starved dd)" "batching dd' = 1" "dd_starved dd' = dd_starved dd + 1"
    then have "unat (dd_starved dd) < ?w"
      using unat_setting [of "writes_starved dd"] assms(1) by (simp add: word_less_nat_alt settings_ok_def)
    then obtain k where k: "?w - unat (dd_starved dd) = Suc k" by (metis Suc_diff_Suc)
    then have "?w - unat (dd_starved dd') = k" using s(3) unat_less_inc [OF s(1)] by simp
    then have wait: "write_wait dd' = k * ?m + (?m - 1)" "write_wait dd = Suc k * ?m + (?m - unat (batching dd))"
      unfolding write_wait_def Let_def assms(3,4) k s(2) by simp_all
    have "k * m + (m - 1) < Suc k * m + x" if "0 < m" for m x :: nat using that by simp
    then show ?thesis unfolding wait by simp
  qed
qed

lemma serve_step:
  assumes ok: "deadline_ok q" and w: "fifo_list (elevator_data q) True \<noteq> []" and set: "settings_ok (elevator_data q)"
    and run: "deadline_dispatch_requests jiffies q force = Some (True, q1)" "queue_head q1 = queue_head q @ [rq]"
  shows "deadline_ok q1 \<and> rqs q1 = rqs q \<and> (rq_data_dir (rqs q rq) \<or>
     fifo_list (elevator_data q1) True \<noteq> [] \<and> settings_ok (elevator_data q1) \<and> write_wait (elevator_data q1) < write_wait (elevator_data q))"
proof -
  let ?dd = "elevator_data q"
  have "deadline_pending q \<noteq> {#}" using w by (simp add: deadline_pending_def)
  from deadline_dispatch_spec [OF ok this, of jiffies force] run(1) obtain rq' dir b s where
      r: "rq' \<in> set (fifo_list ?dd dir)" "deadline_ok q1" "moved rq' (with_counters b s q) q1" "chosen jiffies q rq' dir b s"
    by auto
  have "rq' = rq" using served_spec(1) [OF r(3)] run(2) by simp
  note r = r [unfolded this]
  have dir: "rq_data_dir (rqs q rq) = dir" using deadline_okD(4) [OF ok r(1)] .
  have d1: "fifo_list (elevator_data q1) True = removeAll rq (fifo_list ?dd True)" "batching (elevator_data q1) = b"
      "dd_starved (elevator_data q1) = s" "fifo_batch (elevator_data q1) = fifo_batch ?dd" "writes_starved (elevator_data q1) = writes_starved ?dd"
      "rqs q1 = rqs q"
    using r(3) by (simp_all add: moved_def Let_def with_counters_def dispatched_def)
  have "fifo_list (elevator_data q1) True \<noteq> [] \<and> settings_ok (elevator_data q1) \<and> write_wait (elevator_data q1) < write_wait ?dd"
    if read: "\<not> dir"
  proof -
    have "rq \<notin> set (fifo_list ?dd True)" using deadline_okD(4) [OF ok, of rq True] dir read by auto
    then have "fifo_list (elevator_data q1) True \<noteq> []" using w d1(1) by simp
    moreover have set1: "settings_ok (elevator_data q1)" using set d1(4,5) by (simp add: settings_ok_def)
    moreover have "write_wait (elevator_data q1) < write_wait ?dd"
      by (rule wait_less [OF set set1 d1(4,5)])
        (use r(4) read w in \<open>auto simp: chosen_def Let_def d1 not_le split: if_splits option.splits\<close>)
    ultimately show ?thesis by blast
  qed
  then show ?thesis using r(2) d1(6) dir by blast
qed

lemma arrive_step:
  assumes "deadline_ok q" "rq \<notin># deadline_pending q" "deadline_add_request jiffies q rq = Some q1"
    and "fifo_list (elevator_data q) True \<noteq> []"
  shows "deadline_ok q1 \<and> write_wait (elevator_data q1) = write_wait (elevator_data q) \<and>
    (settings_ok (elevator_data q) \<longrightarrow> settings_ok (elevator_data q1)) \<and> fifo_list (elevator_data q1) True \<noteq> [] \<and>
    (\<forall>p. rq_data_dir (rqs q1 p) = rq_data_dir (rqs q p))"
  using add_request_spec [OF assms(1,2), of jiffies] assms(3,4) by (simp add: write_wait_def settings_ok_def)

lemma writes_served:
  "deadline_run q xs q' \<Longrightarrow> deadline_ok q \<Longrightarrow> settings_ok (elevator_data q) \<Longrightarrow> fifo_list (elevator_data q) True \<noteq> [] \<Longrightarrow>
   write_wait (elevator_data q) < length xs \<Longrightarrow> \<exists>rq \<in> set xs. rq_data_dir (rqs q rq)"
proof (induction rule: deadline_run.induct)
  case (run_serve jiffies q force q1 rq xs q')
  show ?case
  proof (cases "rq_data_dir (rqs q rq)")
    case False
    then have "deadline_ok q1" "rqs q1 = rqs q" "fifo_list (elevator_data q1) True \<noteq> []" "settings_ok (elevator_data q1)"
        "write_wait (elevator_data q1) < write_wait (elevator_data q)"
      using serve_step [OF run_serve.prems(1,3,2) run_serve.hyps(1,2)] by blast+
    then show ?thesis using run_serve.IH run_serve.prems(4) by auto
  qed simp
next
  case (run_arrive rq q jiffies q1 xs q')
  then show ?case using arrive_step [OF run_arrive.prems(1) run_arrive.hyps(1,2) run_arrive.prems(3)] by auto
qed simp

lemma run_exists: "deadline_ok q \<Longrightarrow> n \<le> size (deadline_pending q) \<Longrightarrow> \<exists>xs q'. deadline_run q xs q' \<and> length xs = n"
proof (induction n arbitrary: q)
  case 0
  then show ?case using run_nil by force
next
  case (Suc n)
  then have "deadline_pending q \<noteq> {#}" by auto
  from deadline_dispatch_spec [OF Suc.prems(1) this, of 0 False] obtain rq dir b s q1 where
      q1: "deadline_dispatch_requests 0 q False = Some (True, q1)" "rq \<in> set (fifo_list (elevator_data q) dir)"
        "deadline_ok q1" "moved rq (with_counters b s q) q1"
    by blast
  then have "deadline_pending q = add_mset rq (deadline_pending q1)" "queue_head q1 = queue_head q @ [rq]"
    using served_spec(1,2) [of rq b s q q1] Suc.prems(1) by blast+
  moreover from this obtain xs q' where "deadline_run q1 xs q'" "length xs = n" using Suc.IH [of q1] Suc.prems(2) q1(3) by auto
  ultimately show ?case using run_serve [OF q1(1)] by (intro exI [of _ "rq # xs"]) auto
qed

text \<open>Two reads, the older one at the higher sector, and a write.\<close>

definition deadline_sample :: "deadline_data request_queue" where
  "deadline_sample = (queue_zero \<lparr>
      sort_list = (\<lambda>dir. if dir then RbNode RB_BLACK RbNull (Rq 3) RbNull
                         else RbNode RB_BLACK (RbNode RB_RED RbNull (Rq 2) RbNull) (Rq 1) RbNull),
      fifo_list = (\<lambda>dir. if dir then [Rq 3] else [Rq 1, Rq 2]), dd_next_rq = (\<lambda>_. None), batching = 0, last_sector = 0,
      dd_starved = 0, fifo_expire = (\<lambda>_. 125), fifo_batch = 1, writes_starved = 1, front_merges = 1\<rparr>)
    \<lparr>rqs := (\<lambda>p. rq_zero\<lparr>cmd_flags := (if p = Rq 3 then 1 else 0), sector := (if p = Rq 2 then 16 else 100), fifo_time := 125\<rparr>)\<rparr>"

lemma deadline_sample_ok: "deadline_ok deadline_sample" "deadline_pending deadline_sample = {#Rq 1, Rq 2, Rq 3#}"
proof -
  show "deadline_ok deadline_sample"
    unfolding deadline_ok_def Let_def
  proof (rule allI)
    fix dir
    show "tree_ok (rqs deadline_sample) (sort_list (elevator_data deadline_sample) dir) \<and>
        distinct (fifo_list (elevator_data deadline_sample) dir) \<and>
        set (fifo_list (elevator_data deadline_sample) dir) = set (inorder (sort_list (elevator_data deadline_sample) dir)) \<and>
        (\<forall>rq \<in> set (fifo_list (elevator_data deadline_sample) dir). rq_data_dir (rqs deadline_sample rq) = dir) \<and>
        (\<forall>rq. dd_next_rq (elevator_data deadline_sample) dir = Some rq \<longrightarrow> rq \<in> set (fifo_list (elevator_data deadline_sample) dir))"
      by (cases dir) (auto simp: deadline_sample_def queue_zero_def tree_ok_def rb_ok_def ascending_def blk_rq_pos_def rq_data_dir_def rq_zero_def)
  qed
  show "deadline_pending deadline_sample = {#Rq 1, Rq 2, Rq 3#}"
    by (simp add: deadline_pending_def deadline_sample_def queue_zero_def)
qed

text \<open>
  C13. A dispatch of the deadline scheduler never fails. It goes on with the running batch as long
  as there is a next request and the batch is not full. Otherwise it starts a batch of writes if
  there are writes and either no reads or enough batches of reads before, and of reads if not; the
  batch starts with the oldest request of that direction if that has expired or the batch before
  was in the other direction, and goes on in ascending order otherwise. The request goes to the
  end of the dispatch list, and list and tree stay in step.
\<close>

theorem deadline_dispatch_choice:
  assumes "deadline_ok q" "deadline_pending q \<noteq> {#}"
  shows "\<exists>rq dir b s q'. deadline_dispatch_requests jiffies q force = Some (True, q') \<and> chosen jiffies q rq dir b s \<and>
     queue_head q' = queue_head q @ [rq] \<and> deadline_pending q = add_mset rq (deadline_pending q') \<and> deadline_ok q' \<and>
     batching (elevator_data q') = b \<and> dd_starved (elevator_data q') = s"
proof -
  obtain rq dir b s q' where q': "deadline_dispatch_requests jiffies q force = Some (True, q')"
      "rq \<in> set (fifo_list (elevator_data q) dir)" "deadline_ok q'" "moved rq (with_counters b s q) q'" "chosen jiffies q rq dir b s"
    using deadline_dispatch_spec [OF assms] by blast
  then show ?thesis using served_spec [OF q'(4)] assms(1) by blast
qed

theorem deadline_dispatch_choice_witness:
  "\<exists>q'. deadline_dispatch_requests 7 deadline_sample False = Some (True, q') \<and> queue_head q' = [Rq 1]"
proof -
  obtain rq dir b s q' where "deadline_dispatch_requests 7 deadline_sample False = Some (True, q')"
      "chosen 7 deadline_sample rq dir b s" "queue_head q' = queue_head deadline_sample @ [rq]"
    using deadline_dispatch_choice [of deadline_sample 7 False] deadline_sample_ok by auto
  moreover from this(2) have "rq = Rq 1" by (simp add: chosen_def deadline_sample_def queue_zero_def split: if_splits)
  ultimately show ?thesis by (simp add: deadline_sample_def queue_zero_def)
qed

text \<open>
  C12. Writes are not starved. With a write waiting, at most \<open>writes_starved\<close> batches of reads and the
  rest of the running one are served before a write is, whatever arrives in the meantime and
  whichever deadlines expire.
\<close>

theorem deadline_writes_not_starved:
  assumes "deadline_ok q" "settings_ok (elevator_data q)" "fifo_list (elevator_data q) True \<noteq> []"
    and "deadline_run q xs q'" "write_wait (elevator_data q) < length xs"
  shows "\<exists>rq \<in> set xs. rq_data_dir (rqs q rq)"
  using writes_served [OF assms(4,1,2,3,5)] .

theorem deadline_writes_not_starved_witness:
  "\<exists>xs q'. deadline_run deadline_sample xs q' \<and> length xs = 3 \<and> (\<exists>rq \<in> set xs. rq_data_dir (rqs deadline_sample rq))"
proof -
  obtain xs q' where run: "deadline_run deadline_sample xs q'" "length xs = 3"
    using run_exists [OF deadline_sample_ok(1), of 3] deadline_sample_ok(2) by auto
  have "settings_ok (elevator_data deadline_sample)" "fifo_list (elevator_data deadline_sample) True \<noteq> []"
      "write_wait (elevator_data deadline_sample) < length xs"
    by (simp_all add: deadline_sample_def queue_zero_def settings_ok_def write_wait_def run(2))
  from deadline_writes_not_starved [OF deadline_sample_ok(1) this(1,2) run(1) this(3)] run show ?thesis by blast
qed

text \<open>
  C40. With batches of a single request the scheduler is not first come, first served: as long as
  the oldest read has not expired, the next read in ascending order is served before it.
\<close>

theorem deadline_batch_one:
  assumes ok: "deadline_ok q" and reads: "fifo_list (elevator_data q) True = []" "fifo_list (elevator_data q) False = x # xs"
    and one: "fifo_batch (elevator_data q) = 1" "batching (elevator_data q) = 1"
    and nxt: "dd_next_rq (elevator_data q) False = Some r" "\<not> time_after jiffies (fifo_time (rqs q x))"
  shows "\<exists>q'. deadline_dispatch_requests jiffies q force = Some (True, q') \<and> queue_head q' = queue_head q @ [r]"
proof -
  have "dd_next_rq (elevator_data q) True = None"
    using deadline_okD(5) [OF ok, of True] reads(1) by (cases "dd_next_rq (elevator_data q) True") auto
  moreover have "deadline_pending q \<noteq> {#}" using reads(2) by (simp add: deadline_pending_def)
  from deadline_dispatch_spec [OF ok this, of jiffies force] obtain rq dir b s q' where
      "deadline_dispatch_requests jiffies q force = Some (True, q')" "moved rq (with_counters b s q) q'" "chosen jiffies q rq dir b s"
    by blast
  ultimately show ?thesis using assms served_spec(1) [of rq b s q q'] by (auto simp: chosen_def Let_def)
qed

theorem deadline_batch_one_witness:
  "\<exists>q'. deadline_dispatch_requests 7 (deadline_sample\<lparr>elevator_data := (elevator_data deadline_sample)\<lparr>
       sort_list := (sort_list (elevator_data deadline_sample))(True := RbNull),
       fifo_list := (fifo_list (elevator_data deadline_sample))(True := []),
       dd_next_rq := [False \<mapsto> Rq 2], batching := 1\<rparr>\<rparr>) False = Some (True, q') \<and> queue_head q' = [Rq 2]"
proof -
  let ?q = "deadline_sample\<lparr>elevator_data := (elevator_data deadline_sample)\<lparr>
       sort_list := (sort_list (elevator_data deadline_sample))(True := RbNull),
       fifo_list := (fifo_list (elevator_data deadline_sample))(True := []),
       dd_next_rq := [False \<mapsto> Rq 2], batching := 1\<rparr>\<rparr>"
  have "deadline_ok ?q" unfolding deadline_ok_def Let_def
  proof (rule allI)
    fix dir
    show "tree_ok (rqs ?q) (sort_list (elevator_data ?q) dir) \<and> distinct (fifo_list (elevator_data ?q) dir) \<and>
        set (fifo_list (elevator_data ?q) dir) = set (inorder (sort_list (elevator_data ?q) dir)) \<and>
        (\<forall>rq \<in> set (fifo_list (elevator_data ?q) dir). rq_data_dir (rqs ?q rq) = dir) \<and>
        (\<forall>rq. dd_next_rq (elevator_data ?q) dir = Some rq \<longrightarrow> rq \<in> set (fifo_list (elevator_data ?q) dir))"
      by (cases dir) (auto simp: deadline_sample_def queue_zero_def tree_ok_def rb_ok_def ascending_def blk_rq_pos_def rq_data_dir_def rq_zero_def)
  qed
  then have "\<exists>q'. deadline_dispatch_requests 7 ?q False = Some (True, q') \<and> queue_head q' = queue_head ?q @ [Rq 2]"
    by (rule deadline_batch_one [where x = "Rq 1" and xs = "[Rq 2]"])
      (simp_all add: deadline_sample_def queue_zero_def time_after_def rq_zero_def)
  then show ?thesis by (simp add: deadline_sample_def queue_zero_def)
qed

end
