(* ===== verification/Elv_Switch_Props.thy ===== *)
theory Elv_Switch_Props
  imports Elv_Switch Look Noop Deadline
begin

text \<open>
  A queue can change its scheduler at any time: when the old one is taken away it holds no request,
  a failure on the way leaves the old one in place, and the use counts of the scheduler modules
  stay right. The three schedulers of the development are put behind one type of private data, as
  the \<^verbatim>\<open>void *\<close> of the code does, and satisfy the contract there.
\<close>

section \<open>The contract of a scheduler that can be exchanged\<close>

text \<open>What the driver and the other processes do returns and keeps the scheduler in order.\<close>

definition orderly ::
    "('d request_queue \<Rightarrow> bool) \<Rightarrow> ('d request_queue \<Rightarrow> 'd request_queue option) \<Rightarrow> ('d request_queue \<Rightarrow> 'd request_queue) list \<Rightarrow> bool"
where
  "orderly ok request_fn naps \<longleftrightarrow> (\<forall>q. ok q \<longrightarrow> (\<exists>q'. request_fn q = Some q' \<and> ok q')) \<and>
     (\<forall>nap \<in> set naps. \<forall>q. ok q \<longrightarrow> ok (nap q))"

locale exchangeable = iosched +
  assumes init_empty: "elevator_init_fn ops mem = Some d \<Longrightarrow>
      sched_ok (q\<lparr>elevator_data := d\<rparr>) \<and> pending (q\<lparr>elevator_data := d\<rparr>) = {#}"
    and exit_empty: "sched_ok q \<Longrightarrow> pending q = {#} \<Longrightarrow>
      (case elevator_exit_fn ops of Some f \<Rightarrow> f (elevator_data q) | None \<Rightarrow> Some ()) = Some ()"
begin

lemma run_queue_ok:
  assumes "sched_ok q" "orderly sched_ok request_fn naps"
  shows "\<exists>q'. blk_run_queue ops request_fn q = Some q' \<and> sched_ok q'"
proof -
  have keep: "sched_ok q2" if "sched_ok q1" "elevator_data q2 = elevator_data q1" "rqs q2 = rqs q1" for q1 q2
    using frame_fields [OF that] by blast
  let ?q = "snd (blk_remove_plug q)"
  have ok: "sched_ok ?q"
    by (rule keep [OF assms(1)])
      (simp_all add: blk_remove_plug_def queue_flag_test_and_clear_def queue_flag_clear_def split: if_splits)
  let ?r = "snd (queue_flag_test_and_set QUEUE_FLAG_REENTER ?q)"
  have okr: "sched_ok ?r"
    by (rule keep [OF ok]) (simp_all add: queue_flag_test_and_set_def queue_flag_set_def)
  obtain q1 where q1: "request_fn ?r = Some q1" "sched_ok q1" using assms(2) okr by (auto simp: orderly_def)
  have "sched_ok (queue_flag_clear QUEUE_FLAG_REENTER q1)" by (rule keep [OF q1(2)]) (simp_all add: queue_flag_clear_def)
  moreover have "sched_ok ((queue_flag_set QUEUE_FLAG_PLUGGED ?r)\<lparr>unplug_work := True\<rparr>)"
    by (rule keep [OF okr]) (simp_all add: queue_flag_set_def)
  ultimately show ?thesis
    using ok q1 unfolding blk_run_queue_def Let_def by (auto simp: case_prod_beta)
qed

lemma quiesce_loop_spec:
  assumes "sched_ok q" "pending q = {#}" "orderly sched_ok request_fn naps" "elvpriv q = 0 \<or> (\<exists>nap \<in> set naps. \<forall>q. elvpriv (nap q) = 0)"
  shows "\<exists>q'. elv_quiesce_loop ops request_fn naps q = Some q' \<and> sched_ok q' \<and> pending q' = {#} \<and> elvpriv q' = 0"
  using assms
proof (induction naps arbitrary: q)
  case (Cons nap naps)
  show ?case
  proof (cases "elvpriv q = 0")
    case False
    obtain q1 where q1: "blk_run_queue ops request_fn q = Some q1" "sched_ok q1"
      using run_queue_ok [OF Cons.prems(1,3)] by blast
    then have "sched_ok (nap q1)" using Cons.prems(3) by (simp add: orderly_def)
    then obtain q2 where q2: "elv_drain_elevator ops (nap q1) = Some q2" "sched_ok q2" "pending q2 = {#}" "elvpriv q2 = elvpriv (nap q1)"
      using drain_spec by blast
    moreover have "orderly sched_ok request_fn naps" using Cons.prems(3) by (simp add: orderly_def)
    moreover have "elvpriv q2 = 0 \<or> (\<exists>nap \<in> set naps. \<forall>q. elvpriv (nap q) = 0)" using Cons.prems(4) False q2(4) by auto
    ultimately show ?thesis using Cons.IH [of q2] False q1(1) by simp
  qed (use Cons.prems in simp)
qed simp

lemma quiesce_spec:
  assumes "sched_ok q" "orderly sched_ok request_fn naps" "\<exists>nap \<in> set naps. \<forall>q. elvpriv (nap q) = 0"
  shows "\<exists>q'. elv_quiesce_start ops request_fn naps q = Some q' \<and> sched_ok q' \<and> pending q' = {#} \<and> elvpriv q' = 0"
proof -
  have "sched_ok (queue_flag_set QUEUE_FLAG_ELVSWITCH q)"
    using frame_fields [OF assms(1)] by (simp add: queue_flag_set_def)
  then obtain q1 where "elv_drain_elevator ops (queue_flag_set QUEUE_FLAG_ELVSWITCH q) = Some q1" "sched_ok q1" "pending q1 = {#}"
    using drain_spec by blast
  then show ?thesis using quiesce_loop_spec [of q1 request_fn naps] assms(2,3) by (simp add: elv_quiesce_start_def)
qed

end

section \<open>One type for all private data\<close>

definition recast :: "'b \<Rightarrow> 'a request_queue \<Rightarrow> 'b request_queue" where
  "recast d q = \<lparr>
     queue_head = queue_head q, last_merge = last_merge q, elevator_data = d, elv_hash = elv_hash q,
     rq_count = rq_count q, elvpriv = elvpriv q, end_sector = end_sector q, boundary_rq = boundary_rq q,
     unplug_timer = unplug_timer q, unplug_work = unplug_work q, unplug_thresh = unplug_thresh q,
     queue_flags = queue_flags q, nr_sorted = nr_sorted q, in_flight = in_flight q, ordered = ordered q,
     next_ordered = next_ordered q, ordseq = ordseq q, orderr = orderr q, ordcolor = ordcolor q,
     orig_bar_rq = orig_bar_rq q, rqs = rqs q, starved = starved q, congested = congested q,
     wakeups = wakeups q, queue_tags = queue_tags q, tag_busy_list = tag_busy_list q,
     ended_bios = ended_bios q, prepare_flush_fn = prepare_flush_fn q\<rparr>"

lemma recast_fields [simp]:
  "queue_head (recast d q) = queue_head q"
  "elv_hash (recast d q) = elv_hash q"
  "elvpriv (recast d q) = elvpriv q"
  "queue_flags (recast d q) = queue_flags q"
  "nr_sorted (recast d q) = nr_sorted q"
  "rqs (recast d q) = rqs q"
  "in_flight (recast d q) = in_flight q"
  "rq_count (recast d q) = rq_count q"
  "ordseq (recast d q) = ordseq q"
  "elevator_data (recast d q) = d" "recast d (recast d' q) = recast d q" "recast (elevator_data q') q' = q'"
  "recast d q\<lparr>elevator_data := d'\<rparr> = recast d' q"
  by (simp_all add: recast_def)

lemma recast_again [simp]: "recast d (recast e q) = recast d q" "recast (elevator_data q) q = q"
  by (simp_all add: recast_def)

lemma hash_recast [simp]: "hashed (recast d q) = hashed q" "elv_hash_ok_but X (recast d q) \<longleftrightarrow> elv_hash_ok_but X q"
  by (simp_all add: hashed_def elv_hash_ok_but_def)

text \<open>A pointer to private data, seen by a scheduler that knows what it points to.\<close>

definition cast_down :: "('b \<Rightarrow> 'a option) \<Rightarrow> 'b request_queue \<Rightarrow> 'a request_queue option" where
  "cast_down un q = map_option (\<lambda>d. recast d q) (un (elevator_data q))"

definition cast_up :: "('a \<Rightarrow> 'b) \<Rightarrow> 'a request_queue \<Rightarrow> 'b request_queue" where
  "cast_up emb q = recast (emb (elevator_data q)) q"

definition lift_ops :: "('a \<Rightarrow> 'b) \<Rightarrow> ('b \<Rightarrow> 'a option) \<Rightarrow> 'a elevator_ops \<Rightarrow> 'b elevator_ops" where
  "lift_ops emb un ops = \<lparr>
     elevator_merge_fn = map_option (\<lambda>f q b. do { q \<leftarrow> cast_down un q; f q b }) (elevator_merge_fn ops),
     elevator_merged_fn = map_option (\<lambda>f q rq t. do { q \<leftarrow> cast_down un q; q \<leftarrow> f q rq t; Some (cast_up emb q) }) (elevator_merged_fn ops),
     elevator_merge_req_fn = map_option (\<lambda>f q rq n. do { q \<leftarrow> cast_down un q; q \<leftarrow> f q rq n; Some (cast_up emb q) }) (elevator_merge_req_fn ops),
     elevator_allow_merge_fn = map_option (\<lambda>f q rq b. case cast_down un q of Some q \<Rightarrow> f q rq b | None \<Rightarrow> False) (elevator_allow_merge_fn ops),
     elevator_dispatch_fn = (\<lambda>q force. do { q \<leftarrow> cast_down un q; (more, q) \<leftarrow> elevator_dispatch_fn ops q force; Some (more, cast_up emb q) }),
     elevator_add_req_fn = (\<lambda>q rq. do { q \<leftarrow> cast_down un q; q \<leftarrow> elevator_add_req_fn ops q rq; Some (cast_up emb q) }),
     elevator_activate_req_fn = map_option (\<lambda>f q rq. case cast_down un q of Some q \<Rightarrow> cast_up emb (f q rq) | None \<Rightarrow> q) (elevator_activate_req_fn ops),
     elevator_deactivate_req_fn = map_option (\<lambda>f q rq. case cast_down un q of Some q \<Rightarrow> cast_up emb (f q rq) | None \<Rightarrow> q) (elevator_deactivate_req_fn ops),
     elevator_queue_empty_fn = map_option (\<lambda>f q. case cast_down un q of Some q \<Rightarrow> f q | None \<Rightarrow> True) (elevator_queue_empty_fn ops),
     elevator_completed_req_fn = map_option (\<lambda>f q rq. case cast_down un q of Some q \<Rightarrow> cast_up emb (f q rq) | None \<Rightarrow> q) (elevator_completed_req_fn ops),
     elevator_former_req_fn = map_option (\<lambda>f q rq. do { q \<leftarrow> cast_down un q; f q rq }) (elevator_former_req_fn ops),
     elevator_latter_req_fn = map_option (\<lambda>f q rq. do { q \<leftarrow> cast_down un q; f q rq }) (elevator_latter_req_fn ops),
     elevator_set_req_fn = map_option (\<lambda>f q rq. case cast_down un q of Some q \<Rightarrow> (case f q rq of (r, q) \<Rightarrow> (r, cast_up emb q)) | None \<Rightarrow> (0, q)) (elevator_set_req_fn ops),
     elevator_put_req_fn = map_option (\<lambda>f q rq. case cast_down un q of Some q \<Rightarrow> cast_up emb (f q rq) | None \<Rightarrow> q) (elevator_put_req_fn ops),
     elevator_may_queue_fn = map_option (\<lambda>f q rw. case cast_down un q of Some q \<Rightarrow> f q rw | None \<Rightarrow> ELV_MQUEUE_MAY) (elevator_may_queue_fn ops),
     elevator_init_fn = (\<lambda>mem. map_option emb (elevator_init_fn ops mem)),
     elevator_exit_fn = map_option (\<lambda>f d. do { d \<leftarrow> un d; f d }) (elevator_exit_fn ops)\<rparr>"

definition lift_pending :: "('b \<Rightarrow> 'a option) \<Rightarrow> ('a request_queue \<Rightarrow> rqp multiset) \<Rightarrow> 'b request_queue \<Rightarrow> rqp multiset" where
  "lift_pending un pending q = (case cast_down un q of Some q \<Rightarrow> pending q | None \<Rightarrow> {#})"

definition lift_ok :: "('b \<Rightarrow> 'a option) \<Rightarrow> ('a request_queue \<Rightarrow> bool) \<Rightarrow> 'b request_queue \<Rightarrow> bool" where
  "lift_ok un ok q = (case cast_down un q of Some q \<Rightarrow> ok q | None \<Rightarrow> False)"

lemma lift_okE:
  assumes "lift_ok un ok q"
  obtains d where "un (elevator_data q) = Some d" "ok (recast d q)" "cast_down un q = Some (recast d q)"
  using assms by (auto simp: lift_ok_def cast_down_def split: option.splits)

lemma cast_up_fields [simp]:
  "queue_head (cast_up emb q) = queue_head q" "elv_hash (cast_up emb q) = elv_hash q" "nr_sorted (cast_up emb q) = nr_sorted q"
  "rqs (cast_up emb q) = rqs q" "queue_flags (cast_up emb q) = queue_flags q" "hashed (cast_up emb q) = hashed q"
  "elv_hash_ok (cast_up emb q) = elv_hash_ok q" "ordseq (cast_up emb q) = ordseq q" "in_flight (cast_up emb q) = in_flight q"
  "rq_count (cast_up emb q) = rq_count q" "elvpriv (cast_up emb q) = elvpriv q"
    by (simp_all add: cast_up_def)

lemma lift_iosched:
  fixes emb :: "'a \<Rightarrow> 'b"
  assumes "iosched ops pending ok acc" and inv: "\<And>d. un (emb d) = Some d" and inv': "\<And>x d. un x = Some d \<Longrightarrow> x = emb d"
  shows "iosched (lift_ops emb un ops) (lift_pending un pending) (lift_ok un ok) acc"
proof -
  note iosch = assms(1)
  have undo: "cast_up emb (recast d q) = q" if "un (elevator_data q) = Some d" for d q
    using inv' [OF that] by (simp add: cast_up_def) (metis recast_again(2))
  have upc: "cast_down un (cast_up emb q) = Some q" for q by (simp add: cast_down_def cast_up_def inv)
  have pend_up: "lift_pending un pending (cast_up emb q) = pending q" "lift_ok un ok (cast_up emb q) = ok q" for q
    by (simp_all add: lift_pending_def lift_ok_def upc)
  show ?thesis
  proof (intro iosched.intro)
    fix q q' :: "'b request_queue"
    assume ok: "lift_ok un ok q" and e: "elevator_data q' = elevator_data q"
      and sim: "\<And>p. p \<in># lift_pending un pending q \<Longrightarrow> rq_similar (rqs q p) (rqs q' p)"
    from ok obtain d where d: "un (elevator_data q) = Some d" "ok (recast d q)" "cast_down un q = Some (recast d q)" by (rule lift_okE)
    have "ok (recast d q') \<and> pending (recast d q') = pending (recast d q)"
      by (rule iosched.frame [OF iosch d(2)]) (use sim d(3) in \<open>simp_all add: lift_pending_def\<close>)
    then show "lift_ok un ok q' \<and> lift_pending un pending q' = lift_pending un pending q"
      using d e by (simp add: lift_ok_def lift_pending_def cast_down_def)
  next
    fix q :: "'b request_queue" and force assume ok: "lift_ok un ok q" and none: "lift_pending un pending q = {#}"
    from ok obtain d where d: "un (elevator_data q) = Some d" "ok (recast d q)" "cast_down un q = Some (recast d q)" by (rule lift_okE)
    then show "elevator_dispatch_fn (lift_ops emb un ops) q force = Some (False, q)"
      using iosched.dispatch_none [OF iosch d(2)] none undo [OF d(1)] by (simp add: lift_ops_def lift_pending_def)
  next
    fix q :: "'b request_queue" and force assume ok: "lift_ok un ok q" and some: "lift_pending un pending q \<noteq> {#}"
    from ok obtain d where d: "un (elevator_data q) = Some d" "ok (recast d q)" "cast_down un q = Some (recast d q)" by (rule lift_okE)
    with some have "pending (recast d q) \<noteq> {#}" by (simp add: lift_pending_def)
    from iosched.dispatch_one [OF iosch d(2) this, of force] obtain rq q' where
      s: "elevator_dispatch_fn ops (recast d q) force = Some (True, q')" "rq \<in># pending (recast d q)"
        "pending q' = pending (recast d q) - {#rq#}" "dispatched rq (recast d q) q'" "ok q'" by blast
    then show "\<exists>rq q'. elevator_dispatch_fn (lift_ops emb un ops) q force = Some (True, q') \<and> rq \<in># lift_pending un pending q \<and>
            lift_pending un pending q' = lift_pending un pending q - {#rq#} \<and> dispatched rq q q' \<and> lift_ok un ok q'"
      by (intro exI [of _ rq] exI [of _ "cast_up emb q'"])
        (simp add: lift_ops_def d(3) pend_up, simp add: lift_pending_def d(3) dispatched_def)
  next
    fix q :: "'b request_queue" and rq assume ok: "lift_ok un ok q" and p: "rq \<notin># lift_pending un pending q" "acc (rqs q rq)"
    from ok obtain d where d: "un (elevator_data q) = Some d" "ok (recast d q)" "cast_down un q = Some (recast d q)" by (rule lift_okE)
    with p obtain q' where "elevator_add_req_fn ops (recast d q) rq = Some q'" "took pending rq (recast d q) q'" "ok q'"
      using iosched.add_req [OF iosch d(2), of rq] by (auto simp: lift_pending_def)
    then show "\<exists>q'. elevator_add_req_fn (lift_ops emb un ops) q rq = Some q' \<and> took (lift_pending un pending) rq q q' \<and> lift_ok un ok q'"
      by (intro exI [of _ "cast_up emb q'"]) (simp add: lift_ops_def d(3) pend_up took_def, simp add: lift_pending_def d(3))
  next
    fix r r' assume "rq_similar r r'" "acc r" then show "acc r'" by (rule iosched.acceptable_flags [OF iosch])
  next
    fix q :: "'b request_queue" assume ok: "lift_ok un ok q"
    from ok obtain d where d: "un (elevator_data q) = Some d" "ok (recast d q)" "cast_down un q = Some (recast d q)" by (rule lift_okE)
    then show "\<exists>f. elevator_queue_empty_fn (lift_ops emb un ops) = Some f \<and> f q = (lift_pending un pending q = {#})"
      using iosched.queue_empty [OF iosch d(2)] by (auto simp: lift_ops_def lift_pending_def)
  qed
qed

lemma lift_exchangeable:
  fixes emb :: "'a \<Rightarrow> 'b"
  assumes "exchangeable ops pending ok acc" and inv: "\<And>d. un (emb d) = Some d" and inv': "\<And>x d. un x = Some d \<Longrightarrow> x = emb d"
  shows "exchangeable (lift_ops emb un ops) (lift_pending un pending) (lift_ok un ok) acc"
proof (intro exchangeable.intro exchangeable_axioms.intro)
  show "iosched (lift_ops emb un ops) (lift_pending un pending) (lift_ok un ok) acc"
    by (rule lift_iosched [OF exchangeable.axioms(1) [OF assms(1)] inv inv'])
next
  fix mem x and q :: "'b request_queue" assume "elevator_init_fn (lift_ops emb un ops) mem = Some x"
  then obtain d where d: "elevator_init_fn ops mem = Some d" "x = emb d" by (auto simp: lift_ops_def)
  have "cast_down un (q\<lparr>elevator_data := x\<rparr>) = Some ((recast d q)\<lparr>elevator_data := d\<rparr>)"
    by (simp add: cast_down_def d(2) inv recast_def)
  then show "lift_ok un ok (q\<lparr>elevator_data := x\<rparr>) \<and> lift_pending un pending (q\<lparr>elevator_data := x\<rparr>) = {#}"
    using exchangeable.init_empty [OF assms(1) d(1), of "recast d q"] by (simp add: lift_ok_def lift_pending_def)
next
  fix q :: "'b request_queue" assume ok: "lift_ok un ok q" and none: "lift_pending un pending q = {#}"
  from ok obtain d where d: "un (elevator_data q) = Some d" "ok (recast d q)" "cast_down un q = Some (recast d q)" by (rule lift_okE)
  then show "(case elevator_exit_fn (lift_ops emb un ops) of Some f \<Rightarrow> f (elevator_data q) | None \<Rightarrow> Some ()) = Some ()"
    using exchangeable.exit_empty [OF assms(1) d(2)] none by (auto simp: lift_ops_def lift_pending_def split: option.splits)
qed

section \<open>Noop, LOOK and deadline as schedulers of one queue\<close>

interpretation noop_x: exchangeable elevator_noop noop_pending noop_ok "\<lambda>_. True"
  by unfold_locales
    (auto simp: elevator_noop_def noop_init_queue_def noop_exit_queue_def noop_ok_def noop_pending_def split: if_splits)

interpretation look_x: exchangeable elevator_look look_pending look_ok "\<lambda>r. bios r \<noteq> []"
  by unfold_locales
    (auto simp: elevator_look_def look_init_queue_def look_exit_queue_def look_ok_def look_pending_def split: if_splits)

interpretation deadline_x: exchangeable "iosched_deadline jiffies" deadline_pending deadline_ok "\<lambda>_. True"
  for jiffies
  by unfold_locales
    (auto simp: iosched_deadline_def deadline_init_queue_def deadline_exit_queue_def deadline_ok_def deadline_pending_def tree_ok_def ascending_def rb_ok_def split: if_splits)

datatype sched_data = NoopData noop_data | LookData look_data | DeadlineData deadline_data

fun un_noop :: "sched_data \<Rightarrow> noop_data option" where
  "un_noop (NoopData d) = Some d" | "un_noop _ = None"

fun un_look :: "sched_data \<Rightarrow> look_data option" where
  "un_look (LookData d) = Some d" | "un_look _ = None"

fun un_deadline :: "sched_data \<Rightarrow> deadline_data option" where
  "un_deadline (DeadlineData d) = Some d" | "un_deadline _ = None"

datatype sched = NOOP | LOOK | DEADLINE

fun sched_ops :: "u32 \<Rightarrow> sched \<Rightarrow> sched_data elevator_ops" where
  "sched_ops jiffies NOOP = lift_ops NoopData un_noop elevator_noop"
| "sched_ops jiffies LOOK = lift_ops LookData un_look elevator_look"
| "sched_ops jiffies DEADLINE = lift_ops DeadlineData un_deadline (iosched_deadline jiffies)"

fun sched_name :: "sched \<Rightarrow> string" where
  "sched_name NOOP = ''noop''" | "sched_name LOOK = ''look''" | "sched_name DEADLINE = ''deadline''"

text \<open>The registered type; the owner is the module, or nothing for a scheduler that is built in.\<close>

definition sched_type :: "u32 \<Rightarrow> (sched \<Rightarrow> nat option) \<Rightarrow> sched \<Rightarrow> sched_data elevator_type" where
  "sched_type jiffies owner s = \<lparr>elevator_name = sched_name s, et_ops = sched_ops jiffies s, elevator_owner = owner s\<rparr>"

text \<open>The queue is run by the scheduler, with private data in order; the requests the scheduler holds.\<close>

fun runs :: "sched \<Rightarrow> sched_data request_queue \<Rightarrow> bool" where
  "runs NOOP = lift_ok un_noop noop_ok"
| "runs LOOK = lift_ok un_look look_ok"
| "runs DEADLINE = lift_ok un_deadline deadline_ok"

fun held :: "sched \<Rightarrow> sched_data request_queue \<Rightarrow> rqp multiset" where
  "held NOOP = lift_pending un_noop noop_pending"
| "held LOOK = lift_pending un_look look_pending"
| "held DEADLINE = lift_pending un_deadline deadline_pending"

fun admits :: "sched \<Rightarrow> request \<Rightarrow> bool" where
  "admits LOOK r = (bios r \<noteq> [])" | "admits _ r = True"

interpretation sched: exchangeable "sched_ops jiffies s" "held s" "runs s" "admits s"
  for jiffies s
proof (cases s)
  case NOOP
  have "exchangeable (lift_ops NoopData un_noop elevator_noop) (lift_pending un_noop noop_pending) (lift_ok un_noop noop_ok) (\<lambda>_. True)"
    by (rule lift_exchangeable [OF noop_x.exchangeable_axioms]) (auto elim: un_noop.elims)
  moreover have "admits NOOP = (\<lambda>_. True)" by (simp add: fun_eq_iff)
  ultimately show "exchangeable (sched_ops jiffies s) (held s) (runs s) (admits s)" using NOOP by simp
next
  case LOOK
  have "exchangeable (lift_ops LookData un_look elevator_look) (lift_pending un_look look_pending) (lift_ok un_look look_ok) (\<lambda>r. bios r \<noteq> [])"
    by (rule lift_exchangeable [OF look_x.exchangeable_axioms]) (auto elim: un_look.elims)
  moreover have "admits LOOK = (\<lambda>r. bios r \<noteq> [])" by (simp add: fun_eq_iff)
  ultimately show "exchangeable (sched_ops jiffies s) (held s) (runs s) (admits s)" using LOOK by simp
next
  case DEADLINE
  have "exchangeable (lift_ops DeadlineData un_deadline (iosched_deadline jiffies)) (lift_pending un_deadline deadline_pending)
      (lift_ok un_deadline deadline_ok) (\<lambda>_. True)"
    by (rule lift_exchangeable [OF deadline_x.exchangeable_axioms]) (auto elim: un_deadline.elims)
  moreover have "admits DEADLINE = (\<lambda>_. True)" by (simp add: fun_eq_iff)
  ultimately show "exchangeable (sched_ops jiffies s) (held s) (runs s) (admits s)" using DEADLINE by simp
qed

section \<open>Switching\<close>

lemma sched_init: "elevator_init_fn (sched_ops jiffies s) mem = None \<longleftrightarrow> \<not> mem"
  by (cases s)
    (simp_all add: lift_ops_def elevator_noop_def elevator_look_def iosched_deadline_def noop_init_queue_def look_init_queue_def deadline_init_queue_def)

lemma sched_type_fields [simp]:
  "et_ops (sched_type jiffies owner s) = sched_ops jiffies s" "elevator_name (sched_type jiffies owner s) = sched_name s"
  "elevator_owner (sched_type jiffies owner s) = owner s"
  by (simp_all add: sched_type_def)

definition has_memory :: "mem_outcome \<Rightarrow> bool" where
  "has_memory mem \<longleftrightarrow> mem_queue mem \<and> mem_hash mem \<and> mem_data mem"

lemma create_sched:
  shows "has_memory mem \<Longrightarrow> \<exists>x. elevator_init_fn (sched_ops jiffies s) True = Some x \<and>
      elevator_create mem (sched_type jiffies owner s) st = (Some \<lparr>eq_type = sched_type jiffies owner s, eq_data = x, eq_hash = (\<lambda>_. [])\<rparr>, st)"
    and "\<not> has_memory mem \<Longrightarrow> elevator_create mem (sched_type jiffies owner s) st = (None, elevator_put (sched_type jiffies owner s) st)"
  using sched_init [of jiffies s "mem_data mem"] sched_init [of jiffies s True]
  by (auto simp: elevator_create_def elevator_alloc_def has_memory_def elevator_release_def sched_type_def split: option.splits)

text \<open>Private data of an empty scheduler are in order with every queue.\<close>

lemma empty_frame:
  assumes "runs s q" "held s q = {#}" "elevator_data q' = elevator_data q"
  shows "runs s q'" "held s q' = {#}"
  using sched.frame [OF assms(1,3)] assms(2) by simp_all

lemma exit_sched:
  assumes "runs s q" "held s q = {#}" "eq_type e = sched_type jiffies owner s" "eq_data e = elevator_data q"
  shows "elevator_exit e st = Some (elevator_put (sched_type jiffies owner s) st)"
proof -
  have "(case elevator_exit_fn (sched_ops jiffies s) of Some f \<Rightarrow> f (elevator_data q) | None \<Rightarrow> Some ()) = Some ()"
    by (rule sched.exit_empty [OF assms(1,2)])
  then have "(case elevator_exit_fn (et_ops (eq_type e)) of Some f \<Rightarrow> f (eq_data e) | None \<Rightarrow> Some ()) = Some ()"
    unfolding assms(3,4) by (simp add: sched_type_def)
  then show ?thesis using assms(3) by (simp add: elevator_exit_def elevator_release_def)
qed

lemma switch_with_memory:
  assumes q: "disk_type d = Some (sched_type jiffies owner s)" "runs s (disk_queue d)"
    and others: "orderly (runs s) request_fn naps" "\<exists>nap \<in> set naps. \<forall>q. elvpriv (nap q) = 0"
    and gap: "\<And>q. elevator_data (gap q) = elevator_data q"
    and mem: "has_memory mem"
  shows "\<exists>d'. elevator_switch request_fn mem naps gap reg (sched_type jiffies owner t) d st =
        Some (fst reg, d', elevator_put (sched_type jiffies owner (if fst reg then s else t)) st) \<and>
      disk_type d' = Some (sched_type jiffies owner (if fst reg then t else s)) \<and>
      runs (if fst reg then t else s) (disk_queue d') \<and> held (if fst reg then t else s) (disk_queue d') = {#} \<and>
      (fst reg \<longrightarrow> elevator_init_fn (sched_ops jiffies t) True = Some (elevator_data (disk_queue d'))) \<and>
      \<not> queue_flag_test QUEUE_FLAG_ELVSWITCH (disk_queue d')"
proof -
  obtain x where x: "elevator_init_fn (sched_ops jiffies t) True = Some x"
    "elevator_create mem (sched_type jiffies owner t) st = (Some \<lparr>eq_type = sched_type jiffies owner t, eq_data = x, eq_hash = (\<lambda>_. [])\<rparr>, st)"
    using create_sched(1) [OF mem] by blast
  obtain q1 where q1: "elv_quiesce_start (sched_ops jiffies s) request_fn naps (disk_queue d) = Some q1" "runs s q1" "held s q1 = {#}"
    using sched.quiesce_spec [OF q(2) others] by blast
  let ?e = "\<lparr>eq_type = sched_type jiffies owner t, eq_data = x, eq_hash = (\<lambda>_. [])\<rparr>"
  let ?old = "\<lparr>eq_type = sched_type jiffies owner s, eq_data = elevator_data q1, eq_hash = elv_hash q1\<rparr>"
  let ?q = "gap (elevator_attach ?e q1)"
  have data: "elevator_data ?q = x" by (simp add: gap elevator_attach_def)
  have new: "runs t ?q" "held t ?q = {#}"
    using empty_frame [of t "q1\<lparr>elevator_data := x\<rparr>" ?q] sched.init_empty [OF x(1), of q1] data by simp_all
  have exit_old: "elevator_exit ?old st = Some (elevator_put (sched_type jiffies owner s) st)"
    by (rule exit_sched [OF q1(2,3)]) simp_all
  have exit_new: "elevator_exit (?e\<lparr>eq_data := elevator_data ?q, eq_hash := elv_hash ?q\<rparr>) st = Some (elevator_put (sched_type jiffies owner t) st)"
    by (rule exit_sched [OF new]) simp_all
  show ?thesis
  proof (cases "fst reg")
    case True
    have "runs t (elv_quiesce_end ?q)" "held t (elv_quiesce_end ?q) = {#}"
      by (rule empty_frame [OF new]; simp add: elv_quiesce_end_def queue_flag_clear_def)+
    then show ?thesis using True q(1) q1(1) x exit_old data
      by (simp add: elevator_switch_def Let_def elv_quiesce_end_def queue_flag_clear_def queue_flag_test_def bit_unset_bit_iff)
  next
    case False
    have "runs s (queue_flag_clear QUEUE_FLAG_ELVSWITCH (elevator_attach ?old ?q))"
         "held s (queue_flag_clear QUEUE_FLAG_ELVSWITCH (elevator_attach ?old ?q)) = {#}"
      by (rule empty_frame [OF q1(2,3)]; simp add: queue_flag_clear_def elevator_attach_def)+
    then show ?thesis using False q(1) q1(1) x exit_new
      by (simp add: elevator_switch_def Let_def queue_flag_clear_def queue_flag_test_def bit_unset_bit_iff)
  qed
qed

text \<open>
  C10. A queue can go from every scheduler of the tree to every other, whatever fails on the way. If
  the driver and the other processes keep the running scheduler in order and at some point all
  requests with private data have been freed, \<^verbatim>\<open>elevator_switch\<close> returns, and no exit function finds
  a request left behind. The new scheduler runs the queue, without a request, exactly if memory and
  registration in sysfs were there; otherwise the old one still does. The queue does not stay
  in the bypass state, and exactly the loser of the two gives up its module reference. In between the
  queue may change in any way that leaves the private data of the scheduler alone.
\<close>

theorem elevator_switch_correct:
  assumes "disk_type d = Some (sched_type jiffies owner s)" "runs s (disk_queue d)"
    and "orderly (runs s) request_fn naps" "\<exists>nap \<in> set naps. \<forall>q. elvpriv (nap q) = 0"
    and "\<And>q. elevator_data (gap q) = elevator_data q"
  shows "\<exists>switched d'. elevator_switch request_fn mem naps gap reg (sched_type jiffies owner t) d st =
        Some (switched, d', elevator_put (sched_type jiffies owner (if switched then s else t)) st) \<and>
      (switched \<longleftrightarrow> has_memory mem \<and> fst reg) \<and>
      disk_type d' = Some (sched_type jiffies owner (if switched then t else s)) \<and>
      runs (if switched then t else s) (disk_queue d') \<and>
      (switched \<longrightarrow> held t (disk_queue d') = {#}) \<and>
      (if has_memory mem then \<not> queue_flag_test QUEUE_FLAG_ELVSWITCH (disk_queue d') else d' = d)"
proof (cases "has_memory mem")
  case True
  show ?thesis
    using switch_with_memory [OF assms True, of reg t st] True by (intro exI [of _ "fst reg"]) auto
next
  case False
  then show ?thesis using assms(1,2) create_sched(2) [OF False] by (intro exI [of _ False] exI [of _ d]) (simp add: elevator_switch_def)
qed

definition mem_fine :: mem_outcome where
  "mem_fine = \<lparr>mem_queue = True, mem_hash = True, mem_data = True\<rparr>"

definition sample_owner :: "sched \<Rightarrow> nat option" where
  "sample_owner s = (if s = NOOP then None else if s = LOOK then Some 1 else Some 2)"

abbreviation sample_type :: "sched \<Rightarrow> sched_data elevator_type" where
  "sample_type \<equiv> sched_type 0 sample_owner"

definition sample_disk :: "sched_data disk" where
  "sample_disk = \<lparr>disk_queue = (recast (LookData (elevator_data look_sample)) look_sample)\<lparr>elvpriv := 3\<rparr>,
     disk_type = Some (sample_type LOOK), in_sysfs = True\<rparr>"

definition sample_registry :: "sched_data elv_state" where
  "sample_registry = \<lparr>elv_list = [sample_type NOOP, sample_type LOOK, sample_type DEADLINE], chosen_elevator = [],
     module_refs = (\<lambda>_. 0)(1 := 1, 2 := 1)\<rparr>"

definition no_elvpriv :: "'d request_queue \<Rightarrow> 'd request_queue" where
  "no_elvpriv q = q\<lparr>elvpriv := 0\<rparr>"

lemma sample_disk_simps:
  "disk_type sample_disk = Some (sample_type LOOK)" "runs LOOK (disk_queue sample_disk)" "has_memory mem_fine"
  "elevator_data (disk_queue sample_disk) = LookData \<lparr>look_queue = [Rq 7, Rq 8, Rq 9], cur_pos = 40, look_dir = 1\<rparr>"
proof -
  have "look_ok (recast (elevator_data look_sample) (disk_queue sample_disk))"
    using look_sample_ok(1) by (simp add: sample_disk_def look_ok_def)
  then show "runs LOOK (disk_queue sample_disk)" by (simp add: lift_ok_def cast_down_def sample_disk_def)
qed (simp_all add: sample_disk_def has_memory_def mem_fine_def look_sample_simps)

lemma orderly_sample: "orderly (runs s) Some [id, no_elvpriv]" "\<exists>nap \<in> set [id, no_elvpriv]. \<forall>q. elvpriv (nap q) = 0"
proof -
  have "runs s (no_elvpriv q)" if "runs s q" for q :: "sched_data request_queue"
    using sched.frame_fields [OF that, of "no_elvpriv q"] by (simp add: no_elvpriv_def)
  then show "orderly (runs s) Some [id, no_elvpriv]" by (simp add: orderly_def)
qed (simp add: no_elvpriv_def)

theorem elevator_switch_correct_witness:
  "(\<exists>d'. elevator_switch Some mem_fine [id, no_elvpriv] id (True, True) (sample_type DEADLINE) sample_disk sample_registry =
      Some (True, d', elevator_put (sample_type LOOK) sample_registry) \<and> runs DEADLINE (disk_queue d')) \<and>
   module_refs (elevator_put (sample_type LOOK) sample_registry) 1 = 0"
proof -
  have "\<exists>d'. elevator_switch Some mem_fine [id, no_elvpriv] id (True, True) (sample_type DEADLINE) sample_disk sample_registry =
      Some (True, d', elevator_put (sample_type LOOK) sample_registry) \<and> runs DEADLINE (disk_queue d')"
    using elevator_switch_correct [where gap = id and mem = mem_fine and reg = "(True, True)" and t = DEADLINE and st = sample_registry,
        OF sample_disk_simps(1,2) orderly_sample] sample_disk_simps(3)
    by auto
  moreover have "module_refs (elevator_put (sample_type LOOK) sample_registry) 1 = 0"
    by (simp add: elevator_put_def module_put_def sample_registry_def sample_owner_def)
  ultimately show ?thesis by blast
qed

section \<open>The names a user writes\<close>

lemma strim_blanks:
  assumes "\<forall>c \<in> set b. isspace c" "\<forall>c \<in> set w. isspace c" "n \<noteq> []" "\<not> isspace (hd n)" "\<not> isspace (last n)"
  shows "strim (b @ n @ w) = (n, b @ n)"
proof -
  have skip: "skip_spaces (b @ n @ w) = n @ w" using assms(1,3,4) by (cases n) (simp_all add: skip_spaces_def dropWhile_append2)
  have "dropWhile isspace (rev (n @ w)) = rev n"
    using assms(2,3,5) dropWhile_append2 [of "rev w" isspace "rev n"] by (cases n rule: rev_cases) simp_all
  moreover have "takeWhile isspace (b @ n @ w) = b" using assms(1,3,4) by (cases n) (simp_all add: takeWhile_append2)
  ultimately show ?thesis using skip assms(3) by (simp add: strim_def Let_def)
qed

lemma strim_sched:
  assumes "\<forall>c \<in> set b. isspace c" "\<forall>c \<in> set w. isspace c" "length b + length (sched_name s) \<le> 15"
  shows "strim (take 15 (b @ sched_name s @ w)) = (sched_name s, b @ sched_name s)"
proof -
  let ?w = "take (15 - length (b @ sched_name s)) w"
  have cut: "take 15 (b @ sched_name s @ w) = b @ sched_name s @ ?w" using assms(3) by simp
  have white: "\<forall>c \<in> set ?w. isspace c" using assms(2) by (auto dest: in_set_takeD)
  show ?thesis
    unfolding cut by (rule strim_blanks [OF assms(1) white]) (cases s; simp add: isspace_def Let_def)+
qed

lemma put_after_get:
  assumes "elevator_find name st = Some e" "pred_option (module_live env) (elevator_owner e)"
  shows "\<exists>st'. elevator_get env name st = (Some e, st') \<and> elevator_put e st' = st"
proof (cases "elevator_owner e")
  case (Some m)
  with assms(2) have "elevator_get env name st = (Some e, st\<lparr>module_refs := (module_refs st)(m := module_refs st m + 1)\<rparr>)"
    using assms(1) by (simp add: elevator_get_def try_module_get_def)
  then show ?thesis using Some by (cases st) (simp add: elevator_put_def module_put_def)
qed (use assms(1) in \<open>simp add: elevator_get_def try_module_get_def elevator_put_def module_put_def\<close>)

text \<open>
  C39. Writing the name of the running scheduler to sysfs, with white space after it, changes nothing and
  gives the module reference back. With white space before it the name is found as well, but compared
  with the buffer that still holds that white space: the queue is switched from the scheduler to
  itself, and its private data start afresh, the position and direction of a LOOK queue included.
\<close>

theorem iosched_store_blank:
  assumes "disk_type d = Some (sched_type jiffies owner s)" "runs s (disk_queue d)"
    and "orderly (runs s) request_fn naps" "\<exists>nap \<in> set naps. \<forall>q. elvpriv (nap q) = 0"
    and "\<And>q. elevator_data (gap q) = elevator_data q" "has_memory mem" "fst reg"
    and "elevator_find (sched_name s) st = Some (sched_type jiffies owner s)" "pred_option (module_live env) (owner s)"
    and "\<forall>c \<in> set b. isspace c" "\<forall>c \<in> set w. isspace c" "length b + length (sched_name s) \<le> 15"
  shows "\<exists>d'. elv_iosched_store env request_fn mem naps gap reg (b @ sched_name s @ w) d st =
        Some (int (length (b @ sched_name s @ w)), d', st) \<and>
      (if b = [] then d' = d else elevator_init_fn (sched_ops jiffies s) True = Some (elevator_data (disk_queue d')))"
proof -
  let ?e = "sched_type jiffies owner s"
  have name: "strim (take 15 (b @ sched_name s @ w)) = (sched_name s, b @ sched_name s)"
    by (rule strim_sched [OF assms(10-12)])
  have live: "pred_option (module_live env) (elevator_owner ?e)" using assms(9) by simp
  obtain st' where get: "elevator_get env (sched_name s) st = (Some ?e, st')" "elevator_put ?e st' = st"
    using put_after_get [OF assms(8) live] by blast
  show ?thesis
  proof (cases "b = []")
    case True
    then show ?thesis using name get assms(1) by (simp add: elv_iosched_store_def Let_def)
  next
    case False
    then have "b @ sched_name s \<noteq> elevator_name ?e" by simp
    then show ?thesis
      using switch_with_memory [OF assms(1-6), of reg s st'] name get assms(1,7) False
      unfolding elv_iosched_store_def Let_def by auto
  qed
qed

definition all_live :: "sched_data mod_env" where
  "all_live = \<lparr>request_module = (\<lambda>_ st. st), module_live = (\<lambda>_. True)\<rparr>"

lemma sample_registry_simps:
  "elevator_find (sched_name s) sample_registry = Some (sample_type s)" "elevator_find [] sample_registry = None"
  "pred_option (module_live all_live) (sample_owner s)" "request_module all_live n st = st" "chosen_elevator sample_registry = []"
  by (cases s; simp add: sample_registry_def elevator_find_def all_live_def sample_owner_def)+

theorem iosched_store_blank_witness:
  "\<exists>d'. elv_iosched_store all_live Some mem_fine [id, no_elvpriv] id (True, True) ('' look'' @ [CHR 0x0A]) sample_disk sample_registry =
      Some (6, d', sample_registry) \<and> elevator_data (disk_queue d') = LookData \<lparr>look_queue = [], cur_pos = 0, look_dir = 1\<rparr>"
proof -
  have "\<exists>d'. elv_iosched_store all_live Some mem_fine [id, no_elvpriv] id (True, True) ('' '' @ sched_name LOOK @ [CHR 0x0A]) sample_disk sample_registry =
        Some (int (length ('' '' @ sched_name LOOK @ [CHR 0x0A])), d', sample_registry) \<and>
      (if '' '' = [] then d' = sample_disk else elevator_init_fn (sched_ops 0 LOOK) True = Some (elevator_data (disk_queue d')))"
    by (rule iosched_store_blank [where gap = id, OF sample_disk_simps(1,2) orderly_sample])
      (simp_all only: id_apply sample_disk_simps sample_registry_simps fst_conv, simp_all add: isspace_def)
  then show ?thesis by (auto simp: lift_ops_def elevator_look_def look_init_queue_def)
qed

section \<open>The scheduler of a new queue\<close>

fun named :: "string \<Rightarrow> sched option" where
  "named n = List.find (\<lambda>s. sched_name s = n) [NOOP, LOOK, DEADLINE]"



lemma named_Some: "named n = Some s \<Longrightarrow> n = sched_name s"
  by (auto split: if_splits)

declare named.simps [simp del]








end
