(* ===== verification/Spec2Isabelle.thy ===== *)
theory Spec2Isabelle
  imports HList Look Noop Elevator_Props Slob_Props Segments_Props Request_Props Tags_Props Barrier_Props
    Make_Request_Props Elv_Switch_Props
begin

text \<open>
  Verification of the Linux 2.6.34.7 tree of this repository, centred on the two parts its authors
  changed, the LOOK I/O scheduler (\<^verbatim>\<open>block/look-iosched.c\<close>) and the best-fit SLOB allocator
  (\<^verbatim>\<open>mm/slob.c\<close>), and on the block layer in which the scheduler runs. File names are relative to
  \<^verbatim>\<open>src/linux-2.6.34.7\<close>.

  \<^bold>\<open>The program.\<close> A file system hands a bio (a list of memory vectors for consecutive sectors) to
  \<^verbatim>\<open>__make_request\<close> (\<^verbatim>\<open>block/blk-core.c\<close>). It is merged into a queued request, if the elevator core
  (\<^verbatim>\<open>block/elevator.c\<close>) finds one it continues and the queue limits (\<^verbatim>\<open>block/blk-settings.c\<close>,
  \<^verbatim>\<open>block/blk-merge.c\<close>) allow it, or becomes a new request from the pool of the queue. The core keeps
  the sorted requests in the I/O scheduler that is plugged into it, here LOOK, noop
  (\<^verbatim>\<open>block/noop-iosched.c\<close>) or deadline (\<^verbatim>\<open>block/deadline-iosched.c\<close>, which uses the red-black trees
  of \<^verbatim>\<open>lib/rbtree.c\<close>), asks it to dispatch, and keeps the dispatch list in order. The scheduler of a
  queue is chosen by the configuration and can be exchanged through sysfs. The driver
  fetches requests from the dispatch list, possibly with a tag (\<^verbatim>\<open>block/blk-tag.c\<close>), maps them to a
  scatterlist and completes them, in parts or whole. A barrier request turns into a sequence of
  flushes around it (\<^verbatim>\<open>block/blk-barrier.c\<close>). The lists are those of \<^verbatim>\<open>include/linux/list.h\<close>. SLOB is
  independent of all this: it serves \<^verbatim>\<open>kmalloc\<close> and the object caches.

  \<^bold>\<open>Conventions.\<close> The kernel is configured for 32-bit x86 with 250 ticks a second, so
  \<^verbatim>\<open>unsigned long\<close> and \<^verbatim>\<open>unsigned int\<close> are 32-bit words and \<^verbatim>\<open>sector_t\<close> is a 64-bit word, all with
  wrap-around. State is passed explicitly: \<open>request_queue\<close> is a record polymorphic in the data of
  its scheduler, requests are kept in a map from request pointers, and an operation that can hit
  \<^verbatim>\<open>BUG_ON\<close>, a null dereference, the end of an array or an endless loop returns an option, \<open>None\<close>
  standing for that outcome; the properties state that it does not occur. What a device driver
  supplies (its request function, its preparation and completion hooks, its settings) is the record
  \<open>blk_env\<close>. The outcome of an allocation is an argument, and so is what other processes do while
  one sleeps (a list of \<open>nap\<close> records).

  \<^bold>\<open>Theories.\<close>
  \<^item> \<open>Prelude\<close>: machine types, collections of rewrite rules, lemmas on lists and words.
  \<^item> \<open>KList\<close>, \<open>HList\<close>: every operation of \<^verbatim>\<open>include/linux/list.h\<close> on an explicit heap of pointers,
    refined to sequences of nodes. The other theories use the sequences.
  \<^item> \<open>Blk\<close>, \<open>Ordered_Seq\<close>: requests, bios, the queue, the flags and the table of elevator operations
    of \<^verbatim>\<open>include/linux/blkdev.h\<close>, \<^verbatim>\<open>bio.h\<close> and \<^verbatim>\<open>elevator.h\<close>.
  \<^item> \<open>Elevator\<close>, \<open>Elevator_Props\<close>: the core. The merge hash always has every request in the bucket of
    its end sector, a lookup finds a request that ends at a sector if there is one, a merge decision
    names a request the bio really touches, the sorted insertion keeps the cyclic order from the
    boundary sector, and requeued requests keep their place in a barrier sequence.
  \<^item> \<open>Iosched\<close>: the locales of what the core relies on in a scheduler, with the lemmas that follow for
    any scheduler (draining ends and loses nothing, where an insertion puts a request). Interpreted
    in \<open>Look\<close>, \<open>Noop\<close> and \<open>Deadline\<close> on the operations of the schedulers.
  \<^item> \<open>Look\<close>: the scheduler. A dispatch takes the nearest request ahead of the head and turns around
    only when there is none; a run without arrivals is an ascending and a descending sweep.
  \<^item> \<open>Rbtree\<close>, \<open>Elevator_Rb\<close>: \<^verbatim>\<open>lib/rbtree.c\<close>, with a path to the root in place of the parent pointers,
    and the trees of requests sorted by sector of \<^verbatim>\<open>block/elevator.c\<close>. Insertion and removal change the
    sequence of entries as they should and keep the tree balanced.
  \<^item> \<open>Deadline\<close>: the deadline scheduler with its settings. Which request a dispatch takes, and that
    writes are served after a bounded number of reads.
  \<^item> \<open>Elv_Switch\<close>, \<open>Elv_Switch_Props\<close>: the registry of schedulers, the choice for a new queue from
    name, kernel parameter and configured default, and the exchange of the scheduler of a running
    one. The locale \<open>exchangeable\<close> extends the contract of a scheduler by its creation and its end; it is interpreted on noop, LOOK and deadline, alone and
    behind one common type of private data (\<open>sched_data\<close>, for the \<^verbatim>\<open>void *\<close> of the code), and a switch
    between any two of them is safe whatever fails on the way.
  \<^item> \<open>Limits\<close>: all setters of \<^verbatim>\<open>block/blk-settings.c\<close>, \<^verbatim>\<open>lib/gcd.c\<close>, \<^verbatim>\<open>lib/lcm.c\<close> and the stacking of limits,
    at machine width.
  \<^item> \<open>Segments\<close>, \<open>Segments_Props\<close>: \<^verbatim>\<open>block/blk-merge.c\<close>. The scatterlist of a request covers its memory
    byte by byte and fits the counted number of segments; merges keep to the limits.
  \<^item> \<open>Request\<close>, \<open>Request_Props\<close>: the life of a request. Completing some bytes ends exactly the bios
    within them and leaves the request with exactly the remaining bytes.
  \<^item> \<open>Tags\<close>, \<open>Tags_Props\<close>: \<^verbatim>\<open>block/blk-tag.c\<close>. A tag leads back to its request after any sequence of
    operations (the inductive relation \<open>tags_reach\<close>).
  \<^item> \<open>Barrier\<close>, \<open>Barrier_Props\<close>: \<^verbatim>\<open>block/blk-barrier.c\<close> and the fetching and ending of requests. A barrier
    is issued as the requests its mode asks for and ends when its last step does.
  \<^item> \<open>Make_Request\<close>, \<open>Make_Request_Props\<close>: \<^verbatim>\<open>__make_request\<close> and the merging of adjacent requests.
  \<^item> \<open>Slob\<close> (with \<open>Slob_Mem\<close>, \<open>Slob_Core\<close>, \<open>Slob_Alloc\<close>, \<open>Slob_Free\<close>, \<open>Slob_Api\<close>, \<open>Slob_Reach\<close>, \<open>Slob_Props\<close>):
    the allocator on a memory of two-byte units, from the search for the best block to \<^verbatim>\<open>kmalloc\<close>,
    the object caches and the two added system calls. In every state that calls of them can reach
    (the inductive relation \<open>slob_run\<close>, with large objects counted), small objects are disjoint,
    small objects and free lists partition the pages of the small allocator, and allocation and free return.

  \<^bold>\<open>Loops.\<close> Loops over lists are structural recursion. The loops of the SLOB free lists and of forced
  draining, and those that remove an equal request before a request enters a deadline tree and that
  abort a queue, need not end by their form; they are partial functions whose result is \<open>None\<close> when
  they do not end, and the properties about them prove a result. A switch waits until all requests with
  private data are freed; the list of what happens during each sleep bounds this wait. Ending a
  request can complete a barrier sequence, which ends the original request: this recursion
  is cut off by a fuel of two, and \<open>end_all_two_levels\<close> shows that with a scheduler without completion
  hooks, such as LOOK and noop, no greater fuel gives another result. Calls back into the block
  layer from the request function of the driver belong to that function, a parameter, and are not
  part of this count.

  \<^bold>\<open>Not modelled.\<close>
  \<^item> Locking, interrupts, memory barriers and reference counts of kernel objects: each operation is
    atomic, as it is under the queue lock.
  \<^item> Statistics, tracing, log messages, timeouts (\<^verbatim>\<open>block/blk-timeout.c\<close>), the processor a request
    completes on, bounce buffers (a parameter).
  \<^item> The scheduler \<^verbatim>\<open>block/cfq-iosched.c\<close>, whose decisions depend on io contexts of processes, control
    groups and timers, and the attribute files of \<^verbatim>\<open>block/blk-sysfs.c\<close>. The configured default of
    \<^verbatim>\<open>block/Kconfig.iosched\<close>, loading a module and creating a directory in sysfs are parameters.
  \<^item> The creation and release of queues, the routing of bios through stacked devices,
    \<^verbatim>\<open>blkdev_issue_flush\<close> and \<^verbatim>\<open>blkdev_issue_discard\<close>.
  \<^item> The page allocator, which answers requests for pages through an argument, and the rest of the
    kernel, which the authors of the repository did not change.
\<close>

end
